(* ===== verification/Sim_Prelude.thy ===== *)
theory Sim_Prelude
  imports Main "HOL-Library.AList" "HOL-Library.List_Lexorder" "HOL-Library.Char_ord"
    "HOL-Library.Product_Lexorder"
begin

text \<open>
  Shared vocabulary of the development.  It holds what the Python sources use of the language
  and its standard library, each as one executable definition: the string methods
  (\<open>strip\<close>, \<open>lower\<close>, \<open>upper\<close>, \<open>startswith\<close>, \<open>in\<close>, \<open>str(int)\<close>), ordered dictionaries
  (association lists with \<open>AList.update\<close>, which keeps the position of an existing key and
  appends a new one, as \<open>dict\<close> does), \<open>dict.fromkeys\<close>, \<open>bisect_left\<close> and the loop
  \<open>for x in xs\<close> over a body that may raise.  Strings are ASCII: on a character outside ASCII
  the case conversions below are the identity.  The generic lemmas on these are collected at
  the end of each section and declared \<open>[simp]\<close> where they are oriented.
\<close>

named_theorems op_sets \<open>the literal sets of operation, pipe and scope names of the sources\<close>
named_theorems model_defs \<open>definitions that witnesses unfold\<close>

section \<open>Errors as values\<close>

text \<open>\<open>for x in xs: state = body(state, x)\<close>, leaving at the first exception.\<close>

fun for_each :: "('s \<Rightarrow> 'a \<Rightarrow> 'e + 's) \<Rightarrow> 's \<Rightarrow> 'a list \<Rightarrow> 'e + 's" where
  "for_each body s [] = Inr s"
| "for_each body s (x # xs) =
     (case body s x of Inl e \<Rightarrow> Inl e | Inr s' \<Rightarrow> for_each body s' xs)"

text \<open>\<open>tuple(f(x) for x in xs)\<close>, leaving at the first exception.\<close>

fun map_res :: "('a \<Rightarrow> 'e + 'b) \<Rightarrow> 'a list \<Rightarrow> 'e + 'b list" where
  "map_res f [] = Inr []"
| "map_res f (x # xs) =
     (case f x of Inl e \<Rightarrow> Inl e
      | Inr y \<Rightarrow> (case map_res f xs of Inl e \<Rightarrow> Inl e | Inr ys \<Rightarrow> Inr (y # ys)))"

text \<open>A statement that may raise, followed by the rest of the block.\<close>

definition and_then :: "'e + 'a \<Rightarrow> ('a \<Rightarrow> 'e + 'b) \<Rightarrow> 'e + 'b" where
  "and_then r f = (case r of Inl e \<Rightarrow> Inl e | Inr v \<Rightarrow> f v)"

lemma and_then_Inr [simp]: "and_then r f = Inr v \<longleftrightarrow> (\<exists>u. r = Inr u \<and> f u = Inr v)"
  by (cases r) (auto simp: and_then_def)

lemma and_then_simps [simp]: "and_then (Inl e) f = Inl e" "and_then (Inr v) f = f v"
  by (simp_all add: and_then_def)

lemma for_each_append:
  "for_each body s (xs @ ys) =
     (case for_each body s xs of Inl e \<Rightarrow> Inl e | Inr s' \<Rightarrow> for_each body s' ys)"
  by (induction xs arbitrary: s) (auto split: sum.splits)

text \<open>The invariant rule of a loop that may raise.\<close>

lemma for_each_invariant:
  assumes "for_each body s xs = Inr t" and "P s"
    and "\<And>u x v. x \<in> set xs \<Longrightarrow> P u \<Longrightarrow> body u x = Inr v \<Longrightarrow> P v"
  shows "P t"
  using assms
proof (induction xs arbitrary: s)
  case Nil
  then show ?case by simp
next
  case (Cons x xs)
  from Cons.prems(1) obtain s' where s': "body s x = Inr s'" and "for_each body s' xs = Inr t"
    by (auto split: sum.splits)
  moreover have "P s'" using Cons.prems(2,3) s' by auto
  ultimately show ?case using Cons.IH Cons.prems(3) by (meson list.set_intros(2))
qed

lemma for_each_Inr_body:
  assumes "for_each body s xs = Inr t" and "x \<in> set xs"
  shows "\<exists>u v. body u x = Inr v"
  using assms by (induction xs arbitrary: s) (auto split: sum.splits)

lemma map_res_Inr_length: "map_res f xs = Inr ys \<Longrightarrow> length ys = length xs"
  by (induction xs arbitrary: ys) (auto split: sum.splits)

lemma map_res_Inr_nth:
  "map_res f xs = Inr ys \<Longrightarrow> i < length xs \<Longrightarrow> f (xs ! i) = Inr (ys ! i)"
  by (induction xs arbitrary: ys i) (auto simp: nth_Cons split: sum.splits nat.splits)

lemma map_res_all_Inr: "(\<And>x. x \<in> set xs \<Longrightarrow> f x = Inr (g x)) \<Longrightarrow> map_res f xs = Inr (map g xs)"
  by (induction xs) auto

lemma map_res_Inr_iff:
  "map_res f xs = Inr ys \<longleftrightarrow> length ys = length xs \<and> (\<forall>i < length xs. f (xs ! i) = Inr (ys ! i))"
proof
  assume "map_res f xs = Inr ys"
  then show "length ys = length xs \<and> (\<forall>i < length xs. f (xs ! i) = Inr (ys ! i))"
    using map_res_Inr_length map_res_Inr_nth by blast
next
  assume "length ys = length xs \<and> (\<forall>i < length xs. f (xs ! i) = Inr (ys ! i))"
  then show "map_res f xs = Inr ys"
  proof (induction xs arbitrary: ys)
    case Nil
    then show ?case by simp
  next
    case (Cons x xs)
    then obtain z zs where ys: "ys = z # zs" by (cases ys) auto
    with Cons.prems have "f x = Inr z" by auto
    moreover have "map_res f xs = Inr zs"
      using Cons.IH [of zs] Cons.prems ys by (metis Suc_less_eq length_Cons nat.inject nth_Cons_Suc)
    ultimately show ?case by (simp add: ys)
  qed
qed

section \<open>Strings\<close>

text \<open>The ASCII part of \<open>str.isspace\<close>: tab to carriage return, the four separators, space.\<close>

definition py_isspace :: "char \<Rightarrow> bool" where
  "py_isspace c \<longleftrightarrow>
     (let n = (of_char c :: nat) in 9 \<le> n \<and> n \<le> 13 \<or> 28 \<le> n \<and> n \<le> 32)"

definition py_strip :: "string \<Rightarrow> string" where
  "py_strip s = rev (dropWhile py_isspace (rev (dropWhile py_isspace s)))"

definition lower_char :: "char \<Rightarrow> char" where
  "lower_char c =
     (let n = (of_char c :: nat) in if 65 \<le> n \<and> n \<le> 90 then char_of (n + 32) else c)"

definition upper_char :: "char \<Rightarrow> char" where
  "upper_char c =
     (let n = (of_char c :: nat) in if 97 \<le> n \<and> n \<le> 122 then char_of (n - 32) else c)"

definition py_lower :: "string \<Rightarrow> string" where
  "py_lower s = map lower_char s"

definition py_upper :: "string \<Rightarrow> string" where
  "py_upper s = map upper_char s"

fun py_startswith :: "string \<Rightarrow> string \<Rightarrow> bool" where
  "py_startswith s [] = True"
| "py_startswith [] (p # ps) = False"
| "py_startswith (c # s) (p # ps) = (c = p \<and> py_startswith s ps)"

text \<open>\<open>part in s\<close> for strings.\<close>

fun py_contains :: "string \<Rightarrow> string \<Rightarrow> bool" where
  "py_contains [] part = (part = [])"
| "py_contains (c # s) part = (py_startswith (c # s) part \<or> py_contains s part)"

fun digits_of_nat :: "nat \<Rightarrow> string" where
  "digits_of_nat n =
     (if n < 10 then [char_of (48 + n)]
      else digits_of_nat (n div 10) @ [char_of (48 + n mod 10)])"

declare digits_of_nat.simps [simp del]

definition str_of_int :: "int \<Rightarrow> string" where
  "str_of_int i = (if i < 0 then CHR ''-'' # digits_of_nat (nat (- i)) else digits_of_nat (nat i))"

text \<open>\<open>sep.join(parts)\<close>.\<close>

fun py_join :: "string \<Rightarrow> string list \<Rightarrow> string" where
  "py_join sep [] = []"
| "py_join sep [s] = s"
| "py_join sep (s # t # ss) = s @ sep @ py_join sep (t # ss)"

lemma of_char_lower: "of_char (lower_char c) =
    (if 65 \<le> (of_char c :: nat) \<and> of_char c \<le> (90 :: nat) then of_char c + 32 else of_char c :: nat)"
  by (simp add: lower_char_def Let_def)

lemma lower_char_idem [simp]: "lower_char (lower_char c) = lower_char c"
proof -
  have "\<not> (65 \<le> (of_char (lower_char c) :: nat) \<and> of_char (lower_char c) \<le> (90 :: nat))"
    unfolding of_char_lower by auto
  then show ?thesis unfolding lower_char_def [of "lower_char c"] Let_def by (rule if_not_P)
qed

lemma py_lower_idem [simp]: "py_lower (py_lower s) = py_lower s"
  by (simp add: py_lower_def)

lemma py_isspace_lower [simp]: "py_isspace (lower_char c) = py_isspace c"
  unfolding py_isspace_def of_char_lower by auto

lemma dropWhile_lower: "dropWhile py_isspace (map lower_char s) = map lower_char (dropWhile py_isspace s)"
  by (induction s) auto

lemma py_strip_lower: "py_strip (py_lower s) = py_lower (py_strip s)"
  by (simp add: py_strip_def py_lower_def dropWhile_lower rev_map)

lemma py_strip_idem [simp]: "py_strip (py_strip s) = py_strip s"
proof -
  let ?d = "dropWhile py_isspace"
  have dd: "?d (?d xs) = ?d xs" for xs by (rule dropWhile_idem)
  define t where "t = ?d s"
  have hd_t: "t = [] \<or> \<not> py_isspace (hd t)"
    unfolding t_def using hd_dropWhile [of py_isspace s] by blast
  have pre: "\<exists>zs. t = rev (?d (rev t)) @ zs"
    by (metis rev_append rev_rev_ident takeWhile_dropWhile_id)
  have "?d (rev (?d (rev t))) = rev (?d (rev t))"
  proof (cases "rev (?d (rev t))")
    case Nil
    show ?thesis unfolding Nil by simp
  next
    case (Cons a as)
    with pre obtain zs where "t = (a # as) @ zs" by metis
    then have "t \<noteq> []" and "hd t = a" by simp_all
    then have "\<not> py_isspace a" using hd_t by simp
    then show ?thesis by (simp add: Cons)
  qed
  then show ?thesis by (simp add: py_strip_def t_def [symmetric] dd)
qed

text \<open>Normalising twice is normalising once.\<close>

lemma normalise_idem [simp]: "py_lower (py_strip (py_lower (py_strip s))) = py_lower (py_strip s)"
  by (simp add: py_strip_lower)

lemma digits_of_nat_not_Nil [simp]: "digits_of_nat n \<noteq> []"
  by (subst digits_of_nat.simps) simp

section \<open>Dictionaries\<close>

type_synonym ('k, 'v) dict = "('k \<times> 'v) list"

text \<open>\<open>d.get(k, default)\<close> and \<open>d[k] = v\<close>; \<open>map_of d k\<close> is \<open>d.get(k)\<close> as an option.\<close>

definition dict_get :: "('k, 'v) dict \<Rightarrow> 'k \<Rightarrow> 'v \<Rightarrow> 'v" where
  "dict_get d k dflt = (case map_of d k of None \<Rightarrow> dflt | Some v \<Rightarrow> v)"

abbreviation dict_set :: "'k \<Rightarrow> 'v \<Rightarrow> ('k, 'v) dict \<Rightarrow> ('k, 'v) dict" where
  "dict_set \<equiv> AList.update"

text \<open>\<open>d[k] = d.get(k, 0) + n\<close>.\<close>

definition dict_add :: "'k \<Rightarrow> int \<Rightarrow> ('k, int) dict \<Rightarrow> ('k, int) dict" where
  "dict_add k n d = dict_set k (dict_get d k 0 + n) d"

text \<open>\<open>tuple(dict.fromkeys(xs))\<close>: the first occurrence of each element, in order.\<close>

fun fromkeys :: "'a list \<Rightarrow> 'a list" where
  "fromkeys [] = []"
| "fromkeys (x # xs) = x # filter (\<lambda>y. y \<noteq> x) (fromkeys xs)"

lemma map_of_dict_set [simp]: "map_of (dict_set k v d) = (map_of d)(k \<mapsto> v)"
  by (rule update_conv')

lemma dict_get_set: "dict_get (dict_set k v d) k' x = (if k = k' then v else dict_get d k' x)"
  by (simp add: dict_get_def)

lemma dict_get_add: "dict_get (dict_add k n d) k' 0 = dict_get d k' 0 + (if k = k' then n else 0)"
  by (simp add: dict_add_def dict_get_set)

lemma keys_dict_set: "set (map fst (dict_set k v d)) = insert k (set (map fst d))"
  by (auto simp: update_keys)

lemma image_fst_dict_set [simp]: "fst ` set (dict_set k v d) = insert k (fst ` set d)"
  using keys_dict_set [of k v d] by simp

lemma distinct_dict_set [simp]: "distinct (map fst d) \<Longrightarrow> distinct (map fst (dict_set k v d))"
  by (rule distinct_update)

lemma set_fromkeys [simp]: "set (fromkeys xs) = set xs"
  by (induction xs) auto

lemma distinct_fromkeys [simp]: "distinct (fromkeys xs)"
  by (induction xs) auto

lemma fromkeys_distinct: "distinct xs \<Longrightarrow> fromkeys xs = xs"
proof (induction xs)
  case (Cons x xs)
  then have "filter (\<lambda>y. y \<noteq> x) xs = xs" by (auto intro: filter_True)
  with Cons show ?case by simp
qed simp

section \<open>Maxima with a default\<close>

text \<open>\<open>max(xs, default=0)\<close> over integers that may be empty.\<close>

definition max_default0 :: "int list \<Rightarrow> int" where
  "max_default0 xs = (case xs of [] \<Rightarrow> 0 | y # ys \<Rightarrow> fold max ys y)"

lemma fold_max_eq: "fold max ys (y :: int) = Max (set (y # ys))"
  by (simp only: Max.set_eq_fold)

lemma max_default0_eq: "max_default0 xs = (if xs = [] then 0 else Max (set xs))"
  by (cases xs) (auto simp: max_default0_def fold_max_eq)

lemma max_default0_ge: "x \<in> set xs \<Longrightarrow> x \<le> max_default0 xs"
  by (auto simp: max_default0_eq)

lemma max_default0_in: "xs \<noteq> [] \<Longrightarrow> max_default0 xs \<in> set xs"
  by (simp add: max_default0_eq)

lemma max_default0_nonneg: "(\<And>x. x \<in> set xs \<Longrightarrow> 0 \<le> x) \<Longrightarrow> 0 \<le> max_default0 xs"
  using max_default0_in [of xs] by (cases "xs = []") (auto simp: max_default0_eq)

lemma max_default0_le: "0 \<le> b \<Longrightarrow> (\<And>x. x \<in> set xs \<Longrightarrow> x \<le> b) \<Longrightarrow> max_default0 xs \<le> b"
  using max_default0_in [of xs] by (cases "xs = []") (auto simp: max_default0_eq)

section \<open>Binary search\<close>

text \<open>\<open>bisect.bisect_left(xs, x)\<close>: the loop halves \<open>[lo, hi)\<close>.\<close>

function bisect_left_from :: "int list \<Rightarrow> int \<Rightarrow> nat \<Rightarrow> nat \<Rightarrow> nat" where
  "bisect_left_from xs x lo hi =
     (if lo < hi
      then (let mid = (lo + hi) div 2
            in if xs ! mid < x then bisect_left_from xs x (mid + 1) hi
               else bisect_left_from xs x lo mid)
      else lo)"
  by pat_completeness auto
termination
  by (relation "measure (\<lambda>(xs, x, lo, hi). hi - lo)") auto

declare bisect_left_from.simps [simp del]

definition bisect_left :: "int list \<Rightarrow> int \<Rightarrow> nat" where
  "bisect_left xs x = bisect_left_from xs x 0 (length xs)"

lemma bisect_left_from_correct:
  assumes "sorted xs" and "lo \<le> hi" and "hi \<le> length xs"
    and "\<forall>i < lo. xs ! i < x" and "\<forall>i. hi \<le> i \<and> i < length xs \<longrightarrow> x \<le> xs ! i"
  shows "bisect_left_from xs x lo hi \<le> length xs \<and>
    (\<forall>i < bisect_left_from xs x lo hi. xs ! i < x) \<and>
    (\<forall>i. bisect_left_from xs x lo hi \<le> i \<and> i < length xs \<longrightarrow> x \<le> xs ! i)"
  using assms
proof (induction xs x lo hi rule: bisect_left_from.induct)
  case (1 xs x lo hi)
  show ?case
  proof (cases "lo < hi")
    case False
    then have "bisect_left_from xs x lo hi = lo" by (simp add: bisect_left_from.simps [of xs x lo hi])
    with "1.prems" False show ?thesis by auto
  next
    case True
    define mid where "mid = (lo + hi) div 2"
    have mid: "lo \<le> mid" "mid < hi" using True by (auto simp: mid_def)
    have mono: "i \<le> j \<Longrightarrow> j < length xs \<Longrightarrow> xs ! i \<le> xs ! j" for i j
      using "1.prems"(1) by (rule sorted_nth_mono)
    show ?thesis
    proof (cases "xs ! mid < x")
      case True
      then have "\<forall>i < mid + 1. xs ! i < x"
        using mono mid "1.prems"(3) by (metis Suc_eq_plus1 less_Suc_eq_le order_le_less_trans order_less_le_trans)
      with "1.IH"(1) [OF \<open>lo < hi\<close> mid_def True] "1.prems" mid True \<open>lo < hi\<close> show ?thesis
        by (simp add: bisect_left_from.simps [of xs x lo hi] mid_def [symmetric] Let_def)
    next
      case False
      then have "\<forall>i. mid \<le> i \<and> i < length xs \<longrightarrow> x \<le> xs ! i"
        using mono by (meson le_less_linear order_trans)
      with "1.IH"(2) [OF \<open>lo < hi\<close> mid_def False] "1.prems" mid False \<open>lo < hi\<close> show ?thesis
        by (simp add: bisect_left_from.simps [of xs x lo hi] mid_def [symmetric] Let_def)
    qed
  qed
qed

lemma bisect_left_correct:
  assumes "sorted xs"
  shows "bisect_left xs x \<le> length xs"
    and "i < bisect_left xs x \<Longrightarrow> xs ! i < x"
    and "bisect_left xs x \<le> i \<Longrightarrow> i < length xs \<Longrightarrow> x \<le> xs ! i"
  using bisect_left_from_correct [OF assms, of 0 "length xs" x]
  by (auto simp: bisect_left_def)

lemma take_bisect_left:
  assumes "sorted xs"
  shows "take (bisect_left xs x) xs = filter (\<lambda>y. y < x) xs"
    and "drop (bisect_left xs x) xs = filter (\<lambda>y. x \<le> y) xs"
proof -
  let ?n = "bisect_left xs x"
  have lo: "\<forall>y \<in> set (take ?n xs). y < x" and hi: "\<forall>y \<in> set (drop ?n xs). x \<le> y"
    using bisect_left_correct [OF assms, where x = x] by (auto simp: in_set_conv_nth)
  have split: "filter P xs = filter P (take ?n xs) @ filter P (drop ?n xs)" for P
    by (metis append_take_drop_id filter_append)
  have "filter (\<lambda>y. y < x) (take ?n xs) = take ?n xs" "filter (\<lambda>y. y < x) (drop ?n xs) = []"
    using lo hi by (auto simp: filter_empty_conv not_less)
  then show "take ?n xs = filter (\<lambda>y. y < x) xs" by (simp add: split)
  have "filter (\<lambda>y. x \<le> y) (take ?n xs) = []" "filter (\<lambda>y. x \<le> y) (drop ?n xs) = drop ?n xs"
    using lo hi by (auto simp: filter_empty_conv not_le)
  then show "drop ?n xs = filter (\<lambda>y. x \<le> y) xs" by (simp add: split)
qed

section \<open>Decimal text of an integer\<close>

definition decimal_value :: "string \<Rightarrow> nat" where
  "decimal_value s = foldl (\<lambda>a c. 10 * a + (of_char c - 48)) 0 s"

lemma decimal_value_digits: "decimal_value (digits_of_nat n) = n"
proof (induction n rule: digits_of_nat.induct)
  case (1 n)
  show ?case
  proof (cases "n < 10")
    case True
    then show ?thesis by (simp add: digits_of_nat.simps [of n] decimal_value_def)
  next
    case False
    with 1 show ?thesis
      by (simp add: digits_of_nat.simps [of n] decimal_value_def)
  qed
qed

lemma digits_of_nat_inject [simp]: "digits_of_nat m = digits_of_nat n \<longleftrightarrow> m = n"
  by (metis decimal_value_digits)

lemma hd_digits_not_minus: "hd (digits_of_nat n) \<noteq> CHR ''-''"
proof (induction n rule: digits_of_nat.induct)
  case (1 n)
  have "char_of (48 + k) \<noteq> CHR ''-''" if "k < 10" for k :: nat
  proof
    assume "char_of (48 + k) = CHR ''-''"
    then have "(of_char (char_of (48 + k) :: char) :: nat) = of_char CHR ''-''" by (rule arg_cong)
    with that show False by simp
  qed
  then show ?case using 1 by (subst digits_of_nat.simps) (simp add: hd_append)
qed

lemma str_of_int_inject [simp]: "str_of_int i = str_of_int j \<longleftrightarrow> i = j"
  by (auto simp: str_of_int_def) (metis hd_digits_not_minus list.sel(1))+

end
