(* ===== verification/Sim_Errors.thy ===== *)
theory Sim_Errors
  imports Sim_Prelude
begin

text \<open>
  The exception classes of \<^verbatim>\<open>tilelang/simulator/errors.py\<close> and the built-in ones the modelled
  sources raise.  A Python \<open>raise\<close> is a value \<open>Inl e\<close>.  The string a constructor carries is the
  fixed wording of the message; the values an f-string interpolates into it are left out.
\<close>

section \<open>Exception classes\<close>

datatype sim_error =
    SimulatorConfigError string
  | ProgramValidationError string
  | UnsupportedSimOpError string
  | UnsupportedMemoryScopeError string
  | MemoryAccessError string
  | MemoryBoundsError string
  | MemoryCapacityError string
  | MemoryHazardError string
  | UninitializedMemoryError string
  | UnknownDependencyError string
  | SimulationDeadlockError string
  | SimulationLimitError string
  | ValueError string
  | KeyError string
  | IndexError string
  | AssertionError string
  | ZeroDivisionError string
  | TypeError string
  | AttributeError string

type_synonym 'a res = "sim_error + 'a"

text \<open>
  \<open>error_bases e\<close> lists the classes of errors.py and the built-in classes an \<open>except\<close> clause may
  name to catch \<open>e\<close>: its own class and its bases, in the order of the class statements.
\<close>

fun error_bases :: "sim_error \<Rightarrow> string list" where
  "error_bases (SimulatorConfigError _) = [''SimulatorConfigError'', ''SimulatorError'', ''ValueError'']"
| "error_bases (ProgramValidationError _) =
     [''ProgramValidationError'', ''SimulatorError'', ''ValueError'']"
| "error_bases (UnsupportedSimOpError _) =
     [''UnsupportedSimOpError'', ''SimulatorError'', ''NotImplementedError'']"
| "error_bases (UnsupportedMemoryScopeError _) =
     [''UnsupportedMemoryScopeError'', ''UnsupportedSimOpError'', ''SimulatorError'', ''NotImplementedError'']"
| "error_bases (MemoryAccessError _) = [''MemoryAccessError'', ''SimulatorError'']"
| "error_bases (MemoryBoundsError _) =
     [''MemoryBoundsError'', ''MemoryAccessError'', ''SimulatorError'', ''IndexError'']"
| "error_bases (MemoryCapacityError _) = [''MemoryCapacityError'', ''MemoryAccessError'', ''SimulatorError'']"
| "error_bases (MemoryHazardError _) = [''MemoryHazardError'', ''MemoryAccessError'', ''SimulatorError'']"
| "error_bases (UninitializedMemoryError _) =
     [''UninitializedMemoryError'', ''MemoryHazardError'', ''MemoryAccessError'', ''SimulatorError'']"
| "error_bases (UnknownDependencyError _) =
     [''UnknownDependencyError'', ''SchedulerError'', ''SimulatorError'']"
| "error_bases (SimulationDeadlockError _) =
     [''SimulationDeadlockError'', ''SchedulerError'', ''SimulatorError'']"
| "error_bases (SimulationLimitError _) = [''SimulationLimitError'', ''SchedulerError'', ''SimulatorError'']"
| "error_bases (ValueError _) = [''ValueError'']"
| "error_bases (KeyError _) = [''KeyError'']"
| "error_bases (IndexError _) = [''IndexError'']"
| "error_bases (AssertionError _) = [''AssertionError'']"
| "error_bases (ZeroDivisionError _) = [''ZeroDivisionError'']"
| "error_bases (TypeError _) = [''TypeError'']"
| "error_bases (AttributeError _) = [''AttributeError'']"

text \<open>\<open>except cls:\<close> catches \<open>e\<close>.\<close>

definition catches :: "string \<Rightarrow> sim_error \<Rightarrow> bool" where
  "catches cls e \<longleftrightarrow> cls \<in> set (error_bases e)"

section \<open>Rejection of cross-core shared memory\<close>

definition shmem_scopes :: "string list" where
  [op_sets]: "shmem_scopes = [''shmem'', ''shared.shmem'', ''shared_memory'']"

definition reject_shmem :: "string \<Rightarrow> unit res" where
  "reject_shmem scope =
     (let normalized = py_lower (py_strip scope)
      in if normalized \<in> set shmem_scopes
         then Inl (UnsupportedMemoryScopeError ''Ascend shmem is intentionally unsupported'')
         else Inr ())"

definition reject_shmem_operation :: "string \<Rightarrow> unit res" where
  "reject_shmem_operation operation =
     (let normalized = py_lower (py_strip operation)
      in if py_contains normalized ''shmem_'' \<or> py_contains normalized ''ascend_shmem''
         then Inl (UnsupportedSimOpError ''Ascend shmem operation is intentionally unsupported'')
         else Inr ())"

end
