(* ===== verification/Sim_Device.thy ===== *)
theory Sim_Device
  imports Sim_Errors
begin

text \<open>
  The device table of \<^verbatim>\<open>tilelang/simulator/profile.py\<close>: the two supported platforms and the
  normalisation of a platform name, which the program, the configuration and the timing
  profiles all go through.
\<close>

record device_profile =
  dp_platform :: string
  dp_cube_core_count :: int
  dp_vector_core_count :: int
  dp_vector_lanes_per_cube :: int
  dp_cube_pipes :: "string list"
  dp_vector_pipes :: "string list"
  dp_calibration :: string

definition DEVICE_PROFILES :: "(string, device_profile) dict" where
  "DEVICE_PROFILES =
    [(''A2'', \<lparr>dp_platform = ''A2'', dp_cube_core_count = 20, dp_vector_core_count = 40,
        dp_vector_lanes_per_cube = 2, dp_cube_pipes = [''mte2'', ''mte1'', ''m'', ''fix''],
        dp_vector_pipes = [''mte2'', ''v'', ''mte3''], dp_calibration = ''uncalibrated''\<rparr>),
     (''A3'', \<lparr>dp_platform = ''A3'', dp_cube_core_count = 20, dp_vector_core_count = 40,
        dp_vector_lanes_per_cube = 2, dp_cube_pipes = [''mte2'', ''mte1'', ''m'', ''fix''],
        dp_vector_pipes = [''mte2'', ''v'', ''mte3''], dp_calibration = ''uncalibrated''\<rparr>)]"

definition normalize_platform :: "string \<Rightarrow> string res" where
  "normalize_platform platform =
     (let normalized = py_upper (py_strip platform)
      in if normalized \<notin> set (map fst DEVICE_PROFILES)
         then Inl (SimulatorConfigError ''unsupported simulator platform'')
         else Inr normalized)"

definition get_device_profile :: "string \<Rightarrow> device_profile res" where
  "get_device_profile platform =
     (case normalize_platform platform of
        Inl e \<Rightarrow> Inl e
      | Inr p \<Rightarrow> (case map_of DEVICE_PROFILES p of
                    None \<Rightarrow> Inl (KeyError ''platform'')
                  | Some d \<Rightarrow> Inr d))"

lemma normalize_platform_Inr: "normalize_platform s = Inr p \<Longrightarrow> p = ''A2'' \<or> p = ''A3''"
  by (auto simp: normalize_platform_def DEVICE_PROFILES_def Let_def split: if_splits)

lemma normalize_platform_stable: "normalize_platform s = Inr p \<Longrightarrow> normalize_platform p = Inr p"
proof -
  assume "normalize_platform s = Inr p"
  then consider "p = ''A2''" | "p = ''A3''" by (auto dest: normalize_platform_Inr)
  then show ?thesis by cases (simp_all, code_simp+)
qed

lemma get_device_profile_total:
  "normalize_platform s = Inr p \<Longrightarrow> \<exists>d. get_device_profile s = Inr d \<and> dp_platform d = p"
  using normalize_platform_Inr [of s p] by (auto simp: get_device_profile_def DEVICE_PROFILES_def)

end
