(* ===== verification/Sim_Program.thy ===== *)
theory Sim_Program
  imports Sim_Device "HOL-Library.Signed_Division"
begin

text \<open>
  \<^verbatim>\<open>tilelang/simulator/program.py\<close>: the simulation IR.  Enumerations are datatypes with their
  string values, dataclasses are records, and each \<open>__post_init__\<close> is a constructor function
  that validates and normalises its arguments or raises.  A field annotated \<open>Any\<close> is a value of
  one of the Python types the code tells apart with \<open>isinstance\<close>.
\<close>

section \<open>Enumerations\<close>

datatype lane = CUBE | VECTOR_0 | VECTOR_1 | CONTROL

fun lane_value :: "lane \<Rightarrow> string" where
  "lane_value CUBE = ''cube''"
| "lane_value VECTOR_0 = ''vector0''"
| "lane_value VECTOR_1 = ''vector1''"
| "lane_value CONTROL = ''control''"

datatype pipe = MTE2 | MTE1 | MATRIX | FIX | VECTOR | MTE3 | SCALAR

fun pipe_value :: "pipe \<Rightarrow> string" where
  "pipe_value MTE2 = ''mte2''"
| "pipe_value MTE1 = ''mte1''"
| "pipe_value MATRIX = ''m''"
| "pipe_value FIX = ''fix''"
| "pipe_value VECTOR = ''v''"
| "pipe_value MTE3 = ''mte3''"
| "pipe_value SCALAR = ''s''"

datatype memory_scope = GM | WORKSPACE | L1 | L0A | L0B | L0C | UB | BT | LOCAL

fun scope_value :: "memory_scope \<Rightarrow> string" where
  "scope_value GM = ''gm''"
| "scope_value WORKSPACE = ''workspace''"
| "scope_value L1 = ''l1''"
| "scope_value L0A = ''l0a''"
| "scope_value L0B = ''l0b''"
| "scope_value L0C = ''l0c''"
| "scope_value UB = ''ub''"
| "scope_value BT = ''bt''"
| "scope_value LOCAL = ''local''"

lemma lane_value_inject [simp]: "lane_value a = lane_value b \<longleftrightarrow> a = b"
  by (cases a; cases b) auto

lemma pipe_value_inject [simp]: "pipe_value a = pipe_value b \<longleftrightarrow> a = b"
  by (cases a; cases b) auto

lemma scope_value_inject [simp]: "scope_value a = scope_value b \<longleftrightarrow> a = b"
  by (cases a; cases b) auto

definition all_scopes :: "memory_scope list" where
  "all_scopes = [GM, WORKSPACE, L1, L0A, L0B, L0C, UB, BT, LOCAL]"

definition scope_aliases :: "(string, memory_scope) dict" where
  "scope_aliases =
    [(''global'', GM), (''shared.l1'', L1), (''shared.l0a'', L0A), (''shared.l0b'', L0B),
     (''shared.l0c'', L0C), (''shared.ub'', UB), (''shared.bt'', BT), (''local.var'', LOCAL),
     (''wmma.matrix_a'', L0A), (''wmma.matrix_b'', L0B), (''wmma.accumulator'', L0C)]"

text \<open>\<open>MemoryScope.parse\<close>; the last lookup is the enum's own \<open>cls(normalized)\<close>.\<close>

definition parse_scope :: "string \<Rightarrow> memory_scope res" where
  "parse_scope scope =
     (case reject_shmem scope of
        Inl e \<Rightarrow> Inl e
      | Inr _ \<Rightarrow>
          (let normalized = py_lower (py_strip scope)
           in case map_of scope_aliases normalized of
                Some s \<Rightarrow> Inr s
              | None \<Rightarrow>
                  (case map_of (map (\<lambda>s. (scope_value s, s)) all_scopes) normalized of
                     Some s \<Rightarrow> Inr s
                   | None \<Rightarrow>
                       Inl (UnsupportedMemoryScopeError ''unsupported A2/A3 simulator memory scope''))))"

lemma parse_scope_value: "parse_scope (scope_value s) = Inr s"
  by (cases s; simp only:; code_simp)

section \<open>Affine runtime integers\<close>

text \<open>
  A value where the code asks for an integer: an \<open>Integral\<close> that is not a \<open>bool\<close>, a \<open>bool\<close>
  (which Python also calls \<open>Integral\<close>), or anything else.
\<close>

datatype int_like = IntVal int | BoolVal bool | NonInt

text \<open>\<open>isinstance(x, Integral)\<close>, with \<open>int(x)\<close> when it holds.\<close>

fun integral :: "int_like \<Rightarrow> int option" where
  "integral (IntVal n) = Some n"
| "integral (BoolVal b) = Some (if b then 1 else 0)"
| "integral NonInt = None"

type_synonym bindings = "string \<rightharpoonup> int_like"

record affine_int =
  affine_terms :: "(string \<times> int) list"
  affine_constant :: int

fun affine_combine :: "(string, int) dict \<Rightarrow> (string \<times> int_like) list \<Rightarrow> (string, int) dict res" where
  "affine_combine combined [] = Inr combined"
| "affine_combine combined ((name, coefficient) # rest) =
     (if name = [] then Inl (ProgramValidationError ''affine symbol name must not be empty'')
      else case coefficient of
        IntVal c \<Rightarrow> affine_combine (dict_set name (dict_get combined name 0 + c) combined) rest
      | _ \<Rightarrow> Inl (ProgramValidationError ''affine coefficients must be integers''))"

definition AffineInt :: "(string \<times> int_like) list \<Rightarrow> int_like \<Rightarrow> affine_int res" where
  "AffineInt terms constant =
     (case affine_combine [] terms of
        Inl e \<Rightarrow> Inl e
      | Inr combined \<Rightarrow>
          (case constant of
             IntVal c \<Rightarrow>
               Inr \<lparr>affine_terms = sort (filter (\<lambda>(name, value). value \<noteq> 0) combined),
                    affine_constant = c\<rparr>
           | _ \<Rightarrow> Inl (ProgramValidationError ''affine constant must be an integer'')))"

definition affine_variable :: "string \<Rightarrow> affine_int res" where
  "affine_variable name = AffineInt [(name, IntVal 1)] (IntVal 0)"

fun affine_sum :: "(string \<times> int) list \<Rightarrow> bindings \<Rightarrow> int \<Rightarrow> int res" where
  "affine_sum [] bindings value = Inr value"
| "affine_sum ((name, coefficient) # rest) bindings value =
     (case bindings name of
        None \<Rightarrow> Inl (ProgramValidationError ''missing runtime binding for symbol'')
      | Some (IntVal bound) \<Rightarrow> affine_sum rest bindings (value + coefficient * bound)
      | Some _ \<Rightarrow> Inl (ProgramValidationError ''runtime binding for symbol must be an integer''))"

definition affine_evaluate :: "affine_int \<Rightarrow> bindings \<Rightarrow> int res" where
  "affine_evaluate a bindings = affine_sum (affine_terms a) bindings (affine_constant a)"

definition affine_scaled :: "affine_int \<Rightarrow> int \<Rightarrow> affine_int res" where
  "affine_scaled a coefficient =
     AffineInt (map (\<lambda>(name, value). (name, IntVal (value * coefficient))) (affine_terms a))
       (IntVal (affine_constant a * coefficient))"

definition affine_plus :: "affine_int \<Rightarrow> affine_int \<Rightarrow> affine_int res" where
  "affine_plus a b =
     AffineInt (map (\<lambda>(name, value). (name, IntVal value)) (affine_terms a @ affine_terms b))
       (IntVal (affine_constant a + affine_constant b))"

text \<open>The state every constructed \<open>AffineInt\<close> is in: sorted, one term per symbol, none zero.\<close>

definition affine_wf :: "affine_int \<Rightarrow> bool" where
  "affine_wf a \<longleftrightarrow> sorted (affine_terms a) \<and> distinct (map fst (affine_terms a)) \<and>
     (\<forall>(name, value) \<in> set (affine_terms a). name \<noteq> [] \<and> value \<noteq> 0)"

section \<open>Symbolic runtime integers\<close>

text \<open>
  A runtime integer: a Python integer, a \<open>bool\<close>, an \<open>AffineInt\<close>, a \<open>SymbolicInt\<close> (operation and
  arguments), or a value of another type.
\<close>

datatype rt_int =
    RInt int
  | RBool bool
  | RAffine affine_int
  | RSymbolic string "rt_int list"
  | RNonInt

definition symbolic_arities :: "(string, nat) dict" where
  "symbolic_arities =
    [(''add'', 2), (''and'', 2), (''eq'', 2), (''floordiv'', 2), (''floormod'', 2), (''ge'', 2),
     (''gt'', 2), (''le'', 2), (''lt'', 2), (''max'', 2), (''min'', 2), (''mul'', 2), (''ne'', 2),
     (''not'', 1), (''or'', 2), (''select'', 3), (''sub'', 2), (''truncdiv'', 2), (''truncmod'', 2)]"

definition SymbolicInt :: "string \<Rightarrow> rt_int list \<Rightarrow> rt_int res" where
  "SymbolicInt operation_text arguments =
     (let operation = py_lower (py_strip operation_text)
      in case map_of symbolic_arities operation of
           None \<Rightarrow> Inl (ProgramValidationError ''unsupported symbolic integer operation'')
         | Some arity \<Rightarrow>
             if length arguments \<noteq> arity
             then Inl (ProgramValidationError ''symbolic operation expects a fixed number of arguments'')
             else if RNonInt \<in> set arguments
             then Inl (ProgramValidationError ''symbolic integer arguments must be integer expressions'')
             else Inr (RSymbolic operation arguments))"

definition py_bool :: "bool \<Rightarrow> int" where
  "py_bool b = (if b then 1 else 0)"

text \<open>The quotient of \<open>truncdiv\<close> as the code writes it.\<close>

definition trunc_quotient :: "int \<Rightarrow> int \<Rightarrow> int" where
  "trunc_quotient left divisor =
     (\<bar>left\<bar> div \<bar>divisor\<bar>) * (if (left < 0) \<noteq> (divisor < 0) then -1 else 1)"

definition division_by_zero :: "int res" where
  "division_by_zero = Inl (ProgramValidationError ''symbolic integer division by zero'')"

text \<open>
  The operation table of \<open>SymbolicInt.evaluate\<close> on already evaluated arguments; reading a missing
  argument is Python's \<open>IndexError\<close>, an unknown comparison its \<open>KeyError\<close>.
\<close>

definition symbolic_binary :: "string \<Rightarrow> int \<Rightarrow> int \<Rightarrow> int res" where
  "symbolic_binary operation left right =
     (if operation = ''add'' then Inr (left + right)
      else if operation = ''sub'' then Inr (left - right)
      else if operation = ''mul'' then Inr (left * right)
      else if operation = ''floordiv'' then (if right = 0 then division_by_zero else Inr (left div right))
      else if operation = ''floormod'' then (if right = 0 then division_by_zero else Inr (left mod right))
      else if operation = ''truncdiv'' \<or> operation = ''truncmod'' then
        (if right = 0 then division_by_zero
         else let quotient = trunc_quotient left right
              in Inr (if operation = ''truncdiv'' then quotient else left - quotient * right))
      else if operation = ''min'' then Inr (min left right)
      else if operation = ''max'' then Inr (max left right)
      else if operation = ''and'' then Inr (py_bool (left \<noteq> 0 \<and> right \<noteq> 0))
      else if operation = ''or'' then Inr (py_bool (left \<noteq> 0 \<or> right \<noteq> 0))
      else if operation = ''eq'' then Inr (py_bool (left = right))
      else if operation = ''ne'' then Inr (py_bool (left \<noteq> right))
      else if operation = ''lt'' then Inr (py_bool (left < right))
      else if operation = ''le'' then Inr (py_bool (left \<le> right))
      else if operation = ''gt'' then Inr (py_bool (left > right))
      else if operation = ''ge'' then Inr (py_bool (left \<ge> right))
      else Inl (KeyError ''symbolic operation''))"

definition symbolic_apply :: "string \<Rightarrow> int list \<Rightarrow> int res" where
  "symbolic_apply operation values =
     (case values of
        [] \<Rightarrow> Inl (IndexError ''tuple index out of range'')
      | left # rest \<Rightarrow>
          if operation = ''select'' then
            (let index = (if left \<noteq> 0 then 0 else 1)
             in if index < length rest then Inr (rest ! index)
                else Inl (IndexError ''tuple index out of range''))
          else if operation = ''not'' then Inr (py_bool (left = 0))
          else if operation \<notin> set (map fst symbolic_arities) then Inl (KeyError ''symbolic operation'')
          else (case rest of
                  [] \<Rightarrow> Inl (IndexError ''tuple index out of range'')
                | right # _ \<Rightarrow> symbolic_binary operation left right))"

text \<open>\<open>_evaluate_runtime_int\<close> and, on a \<open>SymbolicInt\<close>, its \<open>evaluate\<close>.\<close>

fun evaluate_runtime_int :: "rt_int \<Rightarrow> bindings \<Rightarrow> int res"
and evaluate_arguments :: "rt_int list \<Rightarrow> bindings \<Rightarrow> int list res" where
  "evaluate_runtime_int (RInt n) bindings = Inr n"
| "evaluate_runtime_int (RAffine a) bindings = affine_evaluate a bindings"
| "evaluate_runtime_int (RSymbolic operation arguments) bindings =
     (case evaluate_arguments arguments bindings of
        Inl e \<Rightarrow> Inl e
      | Inr values \<Rightarrow> symbolic_apply operation values)"
| "evaluate_runtime_int (RBool b) bindings =
     Inl (ProgramValidationError ''invalid runtime integer expression'')"
| "evaluate_runtime_int RNonInt bindings =
     Inl (ProgramValidationError ''invalid runtime integer expression'')"
| "evaluate_arguments [] bindings = Inr []"
| "evaluate_arguments (x # xs) bindings =
     (case evaluate_runtime_int x bindings of
        Inl e \<Rightarrow> Inl e
      | Inr v \<Rightarrow> (case evaluate_arguments xs bindings of Inl e \<Rightarrow> Inl e | Inr vs \<Rightarrow> Inr (v # vs)))"

definition symbolic_scaled :: "rt_int \<Rightarrow> int \<Rightarrow> rt_int res" where
  "symbolic_scaled e coefficient = SymbolicInt ''mul'' [e, RInt coefficient]"

section \<open>Metadata values, buffers and regions\<close>

record buffer_region =
  br_buffer :: string
  br_scope :: memory_scope
  br_shape :: "rt_int list"
  br_dtype :: string
  br_byte_offset :: rt_int
  br_strides_bytes :: "rt_int list option"
  br_core_id :: "int option"

text \<open>
  A value of a \<open>Mapping[str, Any]\<close>.  \<open>PSeq\<close> is a tuple or a list (the code never tells them
  apart), \<open>PFloat\<close> a float and \<open>POther\<close> an object of another class; both carry their
  \<open>str()\<close> text only.
\<close>

datatype pyval =
    PNone
  | PBool bool
  | PInt int
  | PFloat string
  | PStr string
  | PAffine affine_int
  | PSymbolic string "rt_int list"
  | PRegion buffer_region
  | PSeq "pyval list"
  | PMap "(string \<times> pyval) list"
  | POther string

type_synonym metadata = "(string, pyval) dict"

text \<open>\<open>metadata.get(key)\<close>: \<open>None\<close> when the key is absent.\<close>

definition md_get :: "metadata \<Rightarrow> string \<Rightarrow> pyval" where
  "md_get md key = dict_get md key PNone"

definition md_mem :: "metadata \<Rightarrow> string \<Rightarrow> bool" where
  "md_mem md key \<longleftrightarrow> map_of md key \<noteq> None"

text \<open>The metadata value as the runtime integer the evaluation functions receive.\<close>

fun as_rt_int :: "pyval \<Rightarrow> rt_int" where
  "as_rt_int (PInt n) = RInt n"
| "as_rt_int (PBool b) = RBool b"
| "as_rt_int (PAffine a) = RAffine a"
| "as_rt_int (PSymbolic operation arguments) = RSymbolic operation arguments"
| "as_rt_int _ = RNonInt"

fun is_region :: "pyval \<Rightarrow> bool" where
  "is_region (PRegion _) = True"
| "is_region _ = False"

text \<open>Python truth of a metadata value (a \<open>0.0\<close> is the text \<open>0.0\<close>).\<close>

fun py_truth :: "pyval \<Rightarrow> bool" where
  "py_truth PNone = False"
| "py_truth (PBool b) = b"
| "py_truth (PInt n) = (n \<noteq> 0)"
| "py_truth (PFloat t) = (t \<noteq> ''0.0'' \<and> t \<noteq> ''-0.0'')"
| "py_truth (PStr s) = (s \<noteq> [])"
| "py_truth (PSeq xs) = (xs \<noteq> [])"
| "py_truth (PMap d) = (d \<noteq> [])"
| "py_truth _ = True"

text \<open>
  \<open>str(value)\<close>.  The code only compares the text with pipe, lane and scope names, none of which
  starts with a capital letter or a bracket; the text of a structured value is abbreviated to
  the class name or bracket it starts with.
\<close>

fun py_str :: "pyval \<Rightarrow> string" where
  "py_str PNone = ''None''"
| "py_str (PBool b) = (if b then ''True'' else ''False'')"
| "py_str (PInt n) = str_of_int n"
| "py_str (PFloat t) = t"
| "py_str (PStr s) = s"
| "py_str (PAffine _) = ''AffineInt(''"
| "py_str (PSymbolic _ _) = ''SymbolicInt(''"
| "py_str (PRegion _) = ''BufferRegion(''"
| "py_str (PSeq _) = ''(''"
| "py_str (PMap _) = ''{''"
| "py_str (POther t) = t"

text \<open>\<open>isinstance(value, int)\<close>, which a \<open>bool\<close> satisfies.\<close>

fun py_int :: "pyval \<Rightarrow> int option" where
  "py_int (PInt n) = Some n"
| "py_int (PBool b) = Some (py_bool b)"
| "py_int _ = None"

text \<open>What \<open>for x in value\<close> visits.\<close>

fun py_iter :: "pyval \<Rightarrow> pyval list res" where
  "py_iter (PSeq xs) = Inr xs"
| "py_iter (PStr s) = Inr (map (\<lambda>c. PStr [c]) s)"
| "py_iter (PMap d) = Inr (map (\<lambda>(k, _). PStr k) d)"
| "py_iter _ = Inl (TypeError ''object is not iterable'')"

record buffer_spec =
  bs_name :: string
  bs_scope :: memory_scope
  bs_shape :: "rt_int list"
  bs_dtype :: string
  bs_size_bytes :: "int option"
  bs_address :: "int option"
  bs_lifetime :: "(int \<times> int) option"
  bs_metadata :: metadata

text \<open>A \<open>scope\<close> argument: already a \<open>MemoryScope\<close>, or text to parse.\<close>

datatype scope_arg = ScopeEnum memory_scope | ScopeText string

fun resolve_scope :: "scope_arg \<Rightarrow> memory_scope res" where
  "resolve_scope (ScopeEnum s) = Inr s"
| "resolve_scope (ScopeText t) = parse_scope t"

text \<open>\<open>isinstance(extent, Integral) and extent < 0\<close>; a \<open>bool\<close> is never negative.\<close>

fun negative_extent :: "rt_int \<Rightarrow> bool" where
  "negative_extent (RInt n) = (n < 0)"
| "negative_extent _ = False"

text \<open>\<open>value is not None and value < 0\<close>.\<close>

definition opt_negative :: "int option \<Rightarrow> bool" where
  "opt_negative v = (case v of None \<Rightarrow> False | Some n \<Rightarrow> n < 0)"

text \<open>The lifetime check: two \<open>Integral\<close> points, a non-negative half-open interval.\<close>

definition valid_lifetime :: "int_like list \<Rightarrow> (int \<times> int) option" where
  "valid_lifetime lifetime =
     (case map integral lifetime of
        [Some start, Some stop] \<Rightarrow> if start < 0 \<or> stop < start then None else Some (start, stop)
      | _ \<Rightarrow> None)"

definition BufferSpec ::
  "string \<Rightarrow> scope_arg \<Rightarrow> rt_int list \<Rightarrow> string \<Rightarrow> int option \<Rightarrow> int option \<Rightarrow>
   int_like list option \<Rightarrow> metadata \<Rightarrow> buffer_spec res" where
  "BufferSpec name scope_in shape dtype size_bytes address lifetime metadata =
     (if name = [] then Inl (ProgramValidationError ''buffer name must not be empty'')
      else case resolve_scope scope_in of
        Inl e \<Rightarrow> Inl e
      | Inr scope \<Rightarrow>
        if RNonInt \<in> set shape
        then Inl (ProgramValidationError ''buffer shape must be integer or symbolic'')
        else if (\<exists>extent \<in> set shape. negative_extent extent)
        then Inl (ProgramValidationError ''buffer has a negative extent'')
        else if dtype = [] then Inl (ProgramValidationError ''buffer has no dtype'')
        else if opt_negative size_bytes
        then Inl (ProgramValidationError ''buffer has a negative byte size'')
        else if opt_negative address
        then Inl (ProgramValidationError ''buffer has a negative address'')
        else
          (let spec = \<lparr>bs_name = name, bs_scope = scope, bs_shape = shape, bs_dtype = dtype,
                 bs_size_bytes = size_bytes, bs_address = address, bs_lifetime = None,
                 bs_metadata = metadata\<rparr>
           in case lifetime of
                None \<Rightarrow> Inr spec
              | Some points \<Rightarrow>
                  (case valid_lifetime points of
                     None \<Rightarrow> Inl (ProgramValidationError
                       ''buffer lifetime must be a non-negative half-open interval'')
                   | Some interval \<Rightarrow> Inr (spec\<lparr>bs_lifetime := Some interval\<rparr>))))"

text \<open>\<open>int(extent) if isinstance(extent, Integral) else extent\<close>.\<close>

fun int_extent :: "rt_int \<Rightarrow> rt_int" where
  "int_extent (RBool b) = RInt (py_bool b)"
| "int_extent e = e"

definition BufferRegion ::
  "string \<Rightarrow> scope_arg \<Rightarrow> rt_int list \<Rightarrow> string \<Rightarrow> rt_int \<Rightarrow> rt_int list option \<Rightarrow>
   int option \<Rightarrow> buffer_region res" where
  "BufferRegion buffer scope_in shape dtype byte_offset strides_bytes core_id =
     (if buffer = [] then Inl (ProgramValidationError ''buffer region name must not be empty'')
      else case resolve_scope scope_in of
        Inl e \<Rightarrow> Inl e
      | Inr scope \<Rightarrow>
        if RNonInt \<in> set shape
        then Inl (ProgramValidationError ''buffer region shape must be integer or symbolic'')
        else if (\<exists>extent \<in> set shape. negative_extent extent)
        then Inl (ProgramValidationError ''buffer region shape must not be negative'')
        else if byte_offset = RNonInt
        then Inl (ProgramValidationError ''buffer region byte_offset must be integer or symbolic'')
        else if negative_extent byte_offset
        then Inl (ProgramValidationError ''buffer region byte_offset must not be negative'')
        else if dtype = [] then Inl (ProgramValidationError ''buffer region dtype must not be empty'')
        else if (case strides_bytes of None \<Rightarrow> False
                 | Some strides \<Rightarrow> length strides \<noteq> length shape \<or> RNonInt \<in> set strides)
        then Inl (ProgramValidationError
               ''buffer region strides must match rank and be integer or affine'')
        else if (case strides_bytes of None \<Rightarrow> False
                 | Some strides \<Rightarrow> (\<exists>s \<in> set strides. negative_extent s))
        then Inl (ProgramValidationError ''buffer region strides must not be negative'')
        else if opt_negative core_id
        then Inl (ProgramValidationError ''buffer region core_id must not be negative'')
        else Inr \<lparr>br_buffer = buffer, br_scope = scope, br_shape = map int_extent shape,
               br_dtype = dtype, br_byte_offset = byte_offset, br_strides_bytes = strides_bytes,
               br_core_id = core_id\<rparr>)"

section \<open>Tasks\<close>

record task =
  task_id :: string
  operation :: string
  core_id :: int
  task_lane :: lane
  task_pipe :: pipe
  duration_cycles :: int
  dependencies :: "string list"
  stage :: "int option"
  task_metadata :: metadata

fun allowed_pipes :: "lane \<Rightarrow> pipe set" where
  "allowed_pipes CUBE = {MTE2, MTE1, MATRIX, FIX, SCALAR}"
| "allowed_pipes VECTOR_0 = {MTE2, VECTOR, MTE3, SCALAR}"
| "allowed_pipes VECTOR_1 = {MTE2, VECTOR, MTE3, SCALAR}"
| "allowed_pipes CONTROL = {SCALAR}"

text \<open>A \<open>lane\<close> or \<open>pipe\<close> argument: the enum, or its value, which the enum class looks up.\<close>

datatype lane_arg = LaneEnum lane | LaneText string
datatype pipe_arg = PipeEnum pipe | PipeText string

fun resolve_lane :: "lane_arg \<Rightarrow> lane res" where
  "resolve_lane (LaneEnum l) = Inr l"
| "resolve_lane (LaneText t) =
     (case map_of (map (\<lambda>l. (lane_value l, l)) [CUBE, VECTOR_0, VECTOR_1, CONTROL]) t of
        None \<Rightarrow> Inl (ValueError ''not a valid Lane'') | Some l \<Rightarrow> Inr l)"

fun resolve_pipe :: "pipe_arg \<Rightarrow> pipe res" where
  "resolve_pipe (PipeEnum p) = Inr p"
| "resolve_pipe (PipeText t) =
     (case map_of (map (\<lambda>p. (pipe_value p, p)) [MTE2, MTE1, MATRIX, FIX, VECTOR, MTE3, SCALAR]) t of
        None \<Rightarrow> Inl (ValueError ''not a valid Pipe'') | Some p \<Rightarrow> Inr p)"

definition Task ::
  "string \<Rightarrow> string \<Rightarrow> int \<Rightarrow> lane_arg \<Rightarrow> pipe_arg \<Rightarrow> int \<Rightarrow> string list \<Rightarrow> int option \<Rightarrow>
   metadata \<Rightarrow> task res" where
  "Task tid op core lane_in pipe_in duration deps stg md =
     (if tid = [] then Inl (ProgramValidationError ''task_id must not be empty'')
      else if op = [] then Inl (ProgramValidationError ''task has no operation'')
      else case reject_shmem_operation op of
        Inl e \<Rightarrow> Inl e
      | Inr _ \<Rightarrow>
        if core < 0 then Inl (ProgramValidationError ''task has a negative core_id'')
        else if duration \<le> 0 then Inl (ProgramValidationError ''task duration_cycles must be positive'')
        else case resolve_lane lane_in of
          Inl e \<Rightarrow> Inl e
        | Inr l \<Rightarrow> (case resolve_pipe pipe_in of
            Inl e \<Rightarrow> Inl e
          | Inr p \<Rightarrow>
            if p \<notin> allowed_pipes l then Inl (ProgramValidationError ''pipe is not valid on lane'')
            else if tid \<in> set deps then Inl (ProgramValidationError ''task cannot depend on itself'')
            else if \<not> distinct deps then Inl (ProgramValidationError ''task has duplicate dependencies'')
            else Inr \<lparr>task_id = tid, operation = op, core_id = core, task_lane = l, task_pipe = p,
                   duration_cycles = duration, dependencies = deps, stage = stg,
                   task_metadata = md\<rparr>))"

text \<open>The invariant of a constructed task.\<close>

definition task_wf :: "task \<Rightarrow> bool" where
  "task_wf t \<longleftrightarrow> task_id t \<noteq> [] \<and> operation t \<noteq> [] \<and> reject_shmem_operation (operation t) = Inr () \<and>
     0 \<le> core_id t \<and> 0 < duration_cycles t \<and> task_pipe t \<in> allowed_pipes (task_lane t) \<and>
     task_id t \<notin> set (dependencies t) \<and> distinct (dependencies t)"

record core_program =
  cp_core_id :: int
  cp_tasks :: "task list"

definition CoreProgram :: "int \<Rightarrow> task list \<Rightarrow> core_program res" where
  "CoreProgram cid tasks =
     (if cid < 0 then Inl (ProgramValidationError ''core_id must not be negative'')
      else if (\<exists>t \<in> set tasks. core_id t \<noteq> cid)
      then Inl (ProgramValidationError ''task belongs to another core'')
      else Inr \<lparr>cp_core_id = cid, cp_tasks = tasks\<rparr>)"

section \<open>Kernel programs\<close>

record kernel_program =
  kp_name :: string
  kp_platform :: string
  kp_cores :: "core_program list"
  kp_buffers :: "buffer_spec list"
  kp_metadata :: metadata

definition program_tasks :: "kernel_program \<Rightarrow> task list" where
  "program_tasks p = concat (map cp_tasks (kp_cores p))"

fun validate_unique_from :: "string set \<Rightarrow> string list \<Rightarrow> unit res" where
  "validate_unique_from seen [] = Inr ()"
| "validate_unique_from seen (name # names) =
     (if name \<in> seen then Inl (ProgramValidationError ''duplicate identifier'')
      else validate_unique_from (insert name seen) names)"

definition validate_unique :: "string list \<Rightarrow> unit res" where
  "validate_unique names = validate_unique_from {} names"

text \<open>
  The recursive closure \<open>visit\<close> of \<open>_validate_acyclic\<close>, run over the dependency list of one task:
  \<open>visiting\<close> is the stack of tasks whose visit is open (the code adds a task before and removes it
  after its dependencies), the result is the set \<open>visited\<close>.  \<open>dependencies[task_id]\<close> on an unknown
  task is a \<open>KeyError\<close>.
\<close>

function visit_all ::
  "(string, string list) dict \<Rightarrow> string set \<Rightarrow> string set \<Rightarrow> string list \<Rightarrow> string set res" where
  "visit_all deps visiting visited [] = Inr visited"
| "visit_all deps visiting visited (t # ts) =
     (if t \<in> visiting then Inl (ProgramValidationError ''dependency cycle detected at task'')
      else if t \<in> visited then visit_all deps visiting visited ts
      else case map_of deps t of
        None \<Rightarrow> Inl (KeyError ''task_id'')
      | Some ds \<Rightarrow>
          (case visit_all deps (insert t visiting) visited ds of
             Inl e \<Rightarrow> Inl e
           | Inr visited' \<Rightarrow> visit_all deps visiting (insert t visited') ts))"
  by pat_completeness auto
termination
proof (relation "measures [\<lambda>(deps, visiting, visited, ts). card (set (map fst deps) - visiting),
                           \<lambda>(deps, visiting, visited, ts). length ts]", goal_cases)
  case 1
  show ?case by simp
next
  case (3 deps visiting visited t ts ds)
  then have "t \<in> set (map fst deps) - visiting"
    by (metis DiffI image_set map_of_SomeD fst_conv image_eqI)
  then have "card (set (map fst deps) - insert t visiting) < card (set (map fst deps) - visiting)"
    by (metis Diff_insert List.finite_set card_Diff1_less finite_Diff)
  then show ?case by simp
qed auto

definition validate_acyclic :: "task list \<Rightarrow> unit res" where
  "validate_acyclic tasks =
     (let deps = map (\<lambda>t. (task_id t, dependencies t)) tasks
      in case visit_all deps {} {} (map task_id tasks) of Inl e \<Rightarrow> Inl e | Inr _ \<Rightarrow> Inr ())"

definition KernelProgram ::
  "string \<Rightarrow> string \<Rightarrow> core_program list \<Rightarrow> buffer_spec list \<Rightarrow> metadata \<Rightarrow> kernel_program res" where
  "KernelProgram name platform cores buffers md =
     (if name = [] then Inl (ProgramValidationError ''kernel program name must not be empty'')
      else case normalize_platform platform of
        Inl e \<Rightarrow> Inl e
      | Inr p \<Rightarrow>
        (case validate_unique (map (\<lambda>c. str_of_int (cp_core_id c)) cores) of
           Inl e \<Rightarrow> Inl e
         | Inr _ \<Rightarrow> (case validate_unique (map bs_name buffers) of
           Inl e \<Rightarrow> Inl e
         | Inr _ \<Rightarrow>
           (let tasks = concat (map cp_tasks cores)
            in case validate_unique (map task_id tasks) of
                 Inl e \<Rightarrow> Inl e
               | Inr _ \<Rightarrow>
                 if (\<exists>t \<in> set tasks. \<not> set (dependencies t) \<subseteq> set (map task_id tasks))
                 then Inl (ProgramValidationError ''task has unknown dependencies'')
                 else case validate_acyclic tasks of
                   Inl e \<Rightarrow> Inl e
                 | Inr _ \<Rightarrow> Inr \<lparr>kp_name = name, kp_platform = p, kp_cores = cores,
                       kp_buffers = buffers, kp_metadata = md\<rparr>))))"

end
