(* ===== verification/Sim_Program_Props.thy ===== *)
theory Sim_Program_Props
  imports Complex_Main Sim_Program "HOL-Library.Multiset"
begin

text \<open>
  Properties of the simulation IR: affine integers are kept in a canonical form on which
  \<open>plus\<close> and \<open>scaled\<close> compute what they say, truncating division is the signed division of the
  library, and the depth-first search of \<open>_validate_acyclic\<close> decides acyclicity, so that every
  \<open>KernelProgram\<close> the constructor returns is well formed.
\<close>

section \<open>Affine integers\<close>

definition lin :: "(string \<Rightarrow> int) \<Rightarrow> (string \<times> int) list \<Rightarrow> int" where
  "lin \<rho> ts = (\<Sum>(n, c) \<leftarrow> ts. c * \<rho> n)"

definition bound_to :: "bindings \<Rightarrow> string \<Rightarrow> int" where
  "bound_to \<beta> n = (case \<beta> n of Some (IntVal k) \<Rightarrow> k | _ \<Rightarrow> 0)"

lemma lin_simps [simp]: "lin \<rho> [] = 0" "lin \<rho> ((n, c) # ts) = c * \<rho> n + lin \<rho> ts"
  "lin \<rho> (xs @ ys) = lin \<rho> xs + lin \<rho> ys"
  by (simp_all add: lin_def)

lemma affine_sum_Inr:
  "affine_sum ts \<beta> v = Inr r \<longleftrightarrow>
     (\<forall>(n, c) \<in> set ts. \<exists>k. \<beta> n = Some (IntVal k)) \<and> r = v + lin (bound_to \<beta>) ts"
  by (induction ts \<beta> v rule: affine_sum.induct)
    (auto simp: bound_to_def split: option.splits int_like.splits)

lemma lin_dict_set:
  "distinct (map fst d) \<Longrightarrow> lin \<rho> (dict_set k (dict_get d k 0 + c) d) = lin \<rho> d + c * \<rho> k"
proof (induction d)
  case Nil
  then show ?case by (simp add: dict_get_def)
next
  case (Cons p d)
  obtain n v where p: "p = (n, v)" by (cases p)
  show ?case
  proof (cases "n = k")
    case True
    then show ?thesis by (simp add: p dict_get_def algebra_simps)
  next
    case False
    then have "dict_get (p # d) k 0 = dict_get d k 0" by (simp add: p dict_get_def)
    with False Cons show ?thesis by (simp add: p)
  qed
qed

lemma affine_combine_Inr:
  assumes "affine_combine combined ts = Inr combined'" and "distinct (map fst combined)"
    and "\<forall>n \<in> set (map fst combined). n \<noteq> []"
  shows "distinct (map fst combined') \<and>
    (\<forall>n \<in> set (map fst combined'). n \<noteq> []) \<and>
    set (map fst combined') = set (map fst combined) \<union> fst ` set ts \<and>
    (\<exists>cs. ts = map (\<lambda>(n, c). (n, IntVal c)) cs \<and> lin \<rho> combined' = lin \<rho> combined + lin \<rho> cs)"
  using assms
proof (induction combined ts rule: affine_combine.induct)
  case (1 combined)
  then show ?case by auto
next
  case (2 combined name coefficient rest)
  then obtain c where c: "name \<noteq> []" "coefficient = IntVal c"
    and rec: "affine_combine (dict_set name (dict_get combined name 0 + c) combined) rest = Inr combined'"
    by (auto split: if_splits int_like.splits)
  let ?next = "dict_set name (dict_get combined name 0 + c) combined"
  have names: "\<forall>n \<in> set (map fst ?next). n \<noteq> []"
    using 2(4) c(1) keys_dict_set [of name _ combined] by auto
  from "2.IH" [OF c rec distinct_dict_set [OF "2.prems"(2)] names] obtain cs where
    *: "distinct (map fst combined')" "\<forall>n \<in> set (map fst combined'). n \<noteq> []"
    "set (map fst combined') = set (map fst ?next) \<union> fst ` set rest"
    "rest = map (\<lambda>(n, c). (n, IntVal c)) cs" "lin \<rho> combined' = lin \<rho> ?next + lin \<rho> cs"
    by blast
  have keys: "set (map fst combined') = set (map fst combined) \<union> fst ` set ((name, coefficient) # rest)"
    unfolding *(3) keys_dict_set by simp
  have terms: "(name, coefficient) # rest = map (\<lambda>(n, c). (n, IntVal c)) ((name, c) # cs)"
    using * c by simp
  have "lin \<rho> combined' = lin \<rho> combined + lin \<rho> ((name, c) # cs)"
    using * lin_dict_set [OF "2.prems"(2), of \<rho> name c] by simp
  with terms have "\<exists>cs. (name, coefficient) # rest = map (\<lambda>(n, c). (n, IntVal c)) cs \<and>
      lin \<rho> combined' = lin \<rho> combined + lin \<rho> cs"
    by (intro exI [of _ "(name, c) # cs"] conjI)
  then show ?case using *(1,2) keys by (intro conjI)
qed

lemma affine_combine_total:
  "\<forall>(n, c) \<in> set ts. n \<noteq> [] \<Longrightarrow>
     \<exists>combined'. affine_combine combined (map (\<lambda>(n, c). (n, IntVal c)) ts) = Inr combined'"
  by (induction ts arbitrary: combined) auto

lemma lin_filter_nonzero: "lin \<rho> (filter (\<lambda>(n, v). v \<noteq> 0) ts) = lin \<rho> ts"
  by (induction ts) auto

lemma lin_sort: "lin \<rho> (sort ts) = lin \<rho> ts"
proof -
  have "sum_list (map f (sort ts)) = sum_list (map f ts)" for f :: "string \<times> int \<Rightarrow> int"
    by (metis mset_map mset_sort sum_mset_sum_list)
  then show ?thesis by (simp add: lin_def)
qed

lemma distinct_fst_sort: "distinct (map fst (sort ts)) = distinct (map fst ts)"
  by (metis distinct_map distinct_sort set_sort)

lemma lin_scale: "lin \<rho> (map (\<lambda>(n, v). (n, v * k)) ts) = lin \<rho> ts * k"
  by (induction ts) (auto simp: algebra_simps)

lemma AffineInt_total:
  assumes "\<forall>(n, c) \<in> set ts. n \<noteq> []"
  shows "\<exists>a. AffineInt (map (\<lambda>(n, c). (n, IntVal c)) ts) (IntVal k) = Inr a \<and> affine_wf a \<and>
    affine_constant a = k \<and> fst ` set (affine_terms a) \<subseteq> fst ` set ts \<and>
    (\<forall>\<rho>. lin \<rho> (affine_terms a) = lin \<rho> ts)"
proof -
  obtain d where d: "affine_combine [] (map (\<lambda>(n, c). (n, IntVal c)) ts) = Inr d"
    using affine_combine_total [OF assms] by blast
  note props = affine_combine_Inr [OF d, simplified]
  have inj: "map (\<lambda>(n, c). (n, IntVal c)) ts = map (\<lambda>(n, c). (n, IntVal c)) cs \<Longrightarrow> ts = cs"
    for cs :: "(string \<times> int) list"
    by (rule map_injective) (auto intro: injI)
  have lin: "lin \<rho> d = lin \<rho> ts" for \<rho>
    using props [of \<rho>] inj by auto
  have named: "([], v) \<notin> set d" for v using props by force
  have keys: "fst ` set d = fst ` set ts" using props by (simp add: image_image case_prod_beta)
  have "distinct (map fst (filter (\<lambda>(n, v). v \<noteq> 0) d))"
    using props by (auto intro: distinct_map_filter)
  then have wf: "affine_wf \<lparr>affine_terms = sort (filter (\<lambda>(n, v). v \<noteq> 0) d), affine_constant = k\<rparr>"
    using named by (auto simp: affine_wf_def distinct_fst_sort)
  have "fst ` set (filter (\<lambda>(n, v). v \<noteq> 0) d) \<subseteq> fst ` set ts"
    unfolding keys [symmetric] by auto
  with wf d show ?thesis
    by (simp add: AffineInt_def lin_sort lin_filter_nonzero lin)
qed

lemma AffineInt_wf: "AffineInt ts k = Inr a \<Longrightarrow> affine_wf a"
proof -
  assume a: "AffineInt ts k = Inr a"
  then obtain d where d: "affine_combine [] ts = Inr d"
    by (auto simp: AffineInt_def split: sum.splits)
  note props = affine_combine_Inr [OF d, simplified]
  have named: "([], v) \<notin> set d" for v using props by force
  have "distinct (map fst (filter (\<lambda>(n, v). v \<noteq> 0) d))"
    using props by (auto intro: distinct_map_filter)
  then show ?thesis
    using a d named by (auto simp: AffineInt_def affine_wf_def distinct_fst_sort split: int_like.splits)
qed

lemma affine_evaluate_Inr:
  "affine_evaluate a \<beta> = Inr r \<longleftrightarrow>
     (\<forall>n \<in> fst ` set (affine_terms a). \<exists>k. \<beta> n = Some (IntVal k)) \<and>
     r = affine_constant a + lin (bound_to \<beta>) (affine_terms a)"
  by (auto simp: affine_evaluate_def affine_sum_Inr)

lemma affine_plus_Inr:
  assumes "affine_wf a" "affine_wf b" "affine_evaluate a \<beta> = Inr x" "affine_evaluate b \<beta> = Inr y"
  shows "\<exists>c. affine_plus a b = Inr c \<and> affine_wf c \<and> affine_evaluate c \<beta> = Inr (x + y)"
proof -
  have "\<forall>(n, c) \<in> set (affine_terms a @ affine_terms b). n \<noteq> []"
    using assms(1,2) by (auto simp: affine_wf_def)
  from AffineInt_total [OF this, of "affine_constant a + affine_constant b"]
  obtain c where c: "affine_plus a b = Inr c" "affine_wf c"
    "affine_constant c = affine_constant a + affine_constant b"
    "fst ` set (affine_terms c) \<subseteq> fst ` set (affine_terms a @ affine_terms b)"
    "\<forall>\<rho>. lin \<rho> (affine_terms c) = lin \<rho> (affine_terms a @ affine_terms b)"
    unfolding affine_plus_def by blast
  have "\<forall>n \<in> fst ` set (affine_terms a @ affine_terms b). \<exists>k. \<beta> n = Some (IntVal k)"
    using assms(3,4) unfolding affine_evaluate_Inr by auto
  with c(4) have "\<forall>n \<in> fst ` set (affine_terms c). \<exists>k. \<beta> n = Some (IntVal k)"
    by (meson subsetD)
  with c(3,5) assms(3,4) have "affine_evaluate c \<beta> = Inr (x + y)"
    unfolding affine_evaluate_Inr by simp
  with c show ?thesis by blast
qed

lemma affine_scaled_Inr:
  assumes "affine_wf a" "affine_evaluate a \<beta> = Inr x"
  shows "\<exists>c. affine_scaled a k = Inr c \<and> affine_wf c \<and> affine_evaluate c \<beta> = Inr (x * k)"
proof -
  let ?ts = "map (\<lambda>(n, v). (n, v * k)) (affine_terms a)"
  have lin: "lin \<rho> ?ts = lin \<rho> (affine_terms a) * k" for \<rho>
    by (rule lin_scale)
  have "\<forall>(n, c) \<in> set ?ts. n \<noteq> []"
    using assms(1) by (auto simp: affine_wf_def)
  moreover have "map (\<lambda>(n, v). (n, IntVal (v * k))) (affine_terms a) = map (\<lambda>(n, c). (n, IntVal c)) ?ts"
    by auto
  ultimately obtain c where c: "affine_scaled a k = Inr c" "affine_wf c"
    "affine_constant c = affine_constant a * k" "fst ` set (affine_terms c) \<subseteq> fst ` set ?ts"
    "\<forall>\<rho>. lin \<rho> (affine_terms c) = lin \<rho> ?ts"
    using AffineInt_total [of ?ts "affine_constant a * k"] unfolding affine_scaled_def by auto
  have "\<forall>n \<in> fst ` set ?ts. \<exists>k. \<beta> n = Some (IntVal k)"
    using assms(2) unfolding affine_evaluate_Inr by auto
  with c(4) have "\<forall>n \<in> fst ` set (affine_terms c). \<exists>k. \<beta> n = Some (IntVal k)"
    by (meson subsetD)
  with c(3,5) assms(2) have "affine_evaluate c \<beta> = Inr (x * k)"
    unfolding affine_evaluate_Inr by (simp add: lin algebra_simps)
  with c show ?thesis by blast
qed

section \<open>Truncating division\<close>

lemma trunc_quotient_sdiv: "b \<noteq> 0 \<Longrightarrow> trunc_quotient a b = a sdiv b"
  by (auto simp: trunc_quotient_def signed_divide_int_def sgn_if)

lemma trunc_remainder_smod: "b \<noteq> 0 \<Longrightarrow> a - trunc_quotient a b * b = a smod b"
  by (simp only: trunc_quotient_sdiv minus_sdiv_mult_eq_smod not_False_eq_True)

section \<open>Acyclicity\<close>

definition dep_rel :: "(string, string list) dict \<Rightarrow> (string \<times> string) set" where
  "dep_rel deps = {(t, d). \<exists>ds. map_of deps t = Some ds \<and> d \<in> set ds}"

definition dep_closed :: "(string, string list) dict \<Rightarrow> bool" where
  "dep_closed deps \<longleftrightarrow> (\<forall>t ds. map_of deps t = Some ds \<longrightarrow> set ds \<subseteq> dom (map_of deps))"

lemma closed_trancl:
  assumes "(x, y) \<in> r\<^sup>+" and "x \<in> V" and "\<And>x y. x \<in> V \<Longrightarrow> (x, y) \<in> r \<Longrightarrow> y \<in> V"
  shows "y \<in> V"
  using assms by (induction rule: trancl_induct) auto

text \<open>
  A successful search returns a set that contains what was asked for, is closed under
  dependencies, avoids the open visits and lies on no cycle.
\<close>

definition search_ok :: "(string \<times> string) set \<Rightarrow> string set \<Rightarrow> string set \<Rightarrow> bool" where
  "search_ok r visiting visited \<longleftrightarrow> visiting \<inter> visited = {} \<and>
     (\<forall>x y. x \<in> visited \<longrightarrow> (x, y) \<in> r \<longrightarrow> y \<in> visited) \<and> (\<forall>x \<in> visited. (x, x) \<notin> r\<^sup>+)"

lemma search_ok_close:
  assumes ok: "search_ok r (insert t visiting) visited"
    and succ: "\<And>y. (t, y) \<in> r \<Longrightarrow> y \<in> visited" and notin: "t \<notin> visiting"
  shows "search_ok r visiting (insert t visited)"
proof -
  have "(t, t) \<notin> r\<^sup>+"
  proof
    assume "(t, t) \<in> r\<^sup>+"
    then obtain y where "(t, y) \<in> r" "(y, t) \<in> r\<^sup>*"
      by (auto dest: tranclD)
    then have y: "y \<in> visited" and reach: "y = t \<or> (y, t) \<in> r\<^sup>+"
      using succ by (auto dest: rtranclD)
    have "t \<in> visited"
      using reach y closed_trancl [of y t r visited] ok
      unfolding search_ok_def by blast
    with ok show False by (auto simp: search_ok_def)
  qed
  with ok succ notin show ?thesis unfolding search_ok_def by auto
qed

lemma visit_all_sound:
  assumes "visit_all deps visiting visited ts = Inr visited'"
    and "search_ok (dep_rel deps) visiting visited"
  shows "search_ok (dep_rel deps) visiting visited' \<and> visited \<union> set ts \<subseteq> visited'"
  using assms
proof (induction deps visiting visited ts arbitrary: visited' rule: visit_all.induct)
  case (1 deps visiting visited)
  then show ?case by auto
next
  case (2 deps visiting visited t ts)
  show ?case
  proof (cases "t \<in> visited")
    case True
    with 2 show ?thesis by (auto split: if_splits)
  next
    case False
    with "2.prems"(1) obtain ds v where notin: "t \<notin> visiting" and ds: "map_of deps t = Some ds"
      and v: "visit_all deps (insert t visiting) visited ds = Inr v"
      and rest: "visit_all deps visiting (insert t v) ts = Inr visited'"
      by (auto split: if_splits option.splits sum.splits)
    have "search_ok (dep_rel deps) (insert t visiting) visited"
      using "2.prems"(2) False by (auto simp: search_ok_def)
    with "2.IH"(2) [OF notin False ds v] have v_ok: "search_ok (dep_rel deps) (insert t visiting) v"
      and sub: "visited \<union> set ds \<subseteq> v" by auto
    have "search_ok (dep_rel deps) visiting (insert t v)"
      using v_ok ds notin sub by (intro search_ok_close) (auto simp: dep_rel_def)
    with "2.IH"(3) [OF notin False ds v rest] sub show ?thesis by auto
  qed
qed

text \<open>A search that raises has found a cycle.\<close>

lemma visit_all_complete:
  assumes "visit_all deps visiting visited ts = Inl e" and "dep_closed deps"
    and "set ts \<subseteq> dom (map_of deps)"
    and "\<forall>v \<in> visiting. \<forall>t \<in> set ts. (v, t) \<in> (dep_rel deps)\<^sup>+"
  shows "\<exists>x. (x, x) \<in> (dep_rel deps)\<^sup>+"
  using assms
proof (induction deps visiting visited ts arbitrary: e rule: visit_all.induct)
  case (1 deps visiting visited)
  then show ?case by simp
next
  case (2 deps visiting visited t ts)
  consider (cyc) "t \<in> visiting" | (old) "t \<notin> visiting" "t \<in> visited"
    | (new) ds where "t \<notin> visiting" "t \<notin> visited" "map_of deps t = Some ds"
    using "2.prems"(3) by fastforce
  then show ?case
  proof cases
    case cyc
    with "2.prems"(4) show ?thesis by auto
  next
    case old
    with 2 show ?thesis by auto
  next
    case (new ds)
    have edge: "(t, d) \<in> dep_rel deps" if "d \<in> set ds" for d
      using that new by (auto simp: dep_rel_def)
    have reach: "\<forall>v \<in> insert t visiting. \<forall>d \<in> set ds. (v, d) \<in> (dep_rel deps)\<^sup>+"
      using "2.prems"(4) edge by (auto intro: trancl_into_trancl)
    have dom: "set ds \<subseteq> dom (map_of deps)"
      using "2.prems"(2) new by (auto simp: dep_closed_def)
    show ?thesis
    proof (cases "visit_all deps (insert t visiting) visited ds")
      case (Inl e')
      from "2.IH"(2) [OF new Inl "2.prems"(2) dom reach] show ?thesis .
    next
      case (Inr v)
      with "2.prems"(1) new have "visit_all deps visiting (insert t v) ts = Inl e" by simp
      from "2.IH"(3) [OF new Inr this "2.prems"(2)] "2.prems"(3,4) show ?thesis by auto
    qed
  qed
qed

definition task_deps :: "task list \<Rightarrow> (string, string list) dict" where
  "task_deps tasks = map (\<lambda>t. (task_id t, dependencies t)) tasks"

lemma map_of_task_deps:
  "distinct (map task_id tasks) \<Longrightarrow> t \<in> set tasks \<Longrightarrow> map_of (task_deps tasks) (task_id t) = Some (dependencies t)"
  by (auto simp: task_deps_def comp_def intro!: map_of_is_SomeI)

lemma dom_task_deps [simp]: "dom (map_of (task_deps tasks)) = set (map task_id tasks)"
  by (simp add: dom_map_of_conv_image_fst task_deps_def image_image)

lemma task_deps_closed:
  assumes "\<forall>t \<in> set tasks. set (dependencies t) \<subseteq> set (map task_id tasks)"
  shows "dep_closed (task_deps tasks)"
  unfolding dep_closed_def dom_task_deps using assms
  by (fastforce simp: task_deps_def dest!: map_of_SomeD)

lemma validate_acyclic_Inr:
  assumes "\<forall>t \<in> set tasks. set (dependencies t) \<subseteq> set (map task_id tasks)"
  shows "validate_acyclic tasks = Inr () \<longleftrightarrow> acyclic (dep_rel (task_deps tasks))"
proof -
  let ?d = "task_deps tasks"
  have unfold: "validate_acyclic tasks =
      (case visit_all ?d {} {} (map task_id tasks) of Inl e \<Rightarrow> Inl e | Inr _ \<Rightarrow> Inr ())"
    by (simp add: validate_acyclic_def task_deps_def Let_def)
  show ?thesis
  proof (cases "visit_all ?d {} {} (map task_id tasks)")
    case (Inl e)
    with visit_all_complete [OF Inl task_deps_closed [OF assms]] show ?thesis
      by (auto simp: unfold acyclic_def)
  next
    case (Inr V)
    then have ok: "search_ok (dep_rel ?d) {} V" and all: "set (map task_id tasks) \<subseteq> V"
      using visit_all_sound [OF Inr] by (auto simp: search_ok_def)
    have "(x, x) \<notin> (dep_rel ?d)\<^sup>+" for x
    proof
      assume cyc: "(x, x) \<in> (dep_rel ?d)\<^sup>+"
      then obtain y where "(x, y) \<in> dep_rel ?d" by (auto dest: tranclD)
      then have "x \<in> dom (map_of ?d)" unfolding dep_rel_def dom_def by blast
      with all have "x \<in> V" by auto
      with ok cyc show False by (auto simp: search_ok_def)
    qed
    with Inr show ?thesis by (simp add: unfold acyclic_def)
  qed
qed

section \<open>Well-formed programs\<close>

definition program_wf :: "kernel_program \<Rightarrow> bool" where
  "program_wf p \<longleftrightarrow> kp_platform p \<in> {''A2'', ''A3''} \<and> distinct (map cp_core_id (kp_cores p)) \<and>
     distinct (map bs_name (kp_buffers p)) \<and> distinct (map task_id (program_tasks p)) \<and>
     (\<forall>t \<in> set (program_tasks p). set (dependencies t) \<subseteq> set (map task_id (program_tasks p))) \<and>
     acyclic (dep_rel (task_deps (program_tasks p)))"

lemma validate_unique_from_iff:
  "validate_unique_from seen names = Inr () \<longleftrightarrow> distinct names \<and> seen \<inter> set names = {}"
  by (induction seen names rule: validate_unique_from.induct) auto

lemma validate_unique_iff: "validate_unique names = Inr () \<longleftrightarrow> distinct names"
  by (simp add: validate_unique_def validate_unique_from_iff)

lemma distinct_map_str_of_int: "distinct (map (\<lambda>c. str_of_int (f c)) xs) = distinct (map f xs)"
  by (simp add: distinct_map inj_on_def)

lemma case_unit_Inr: "(case r of Inl e \<Rightarrow> Inl e | Inr (_ :: unit) \<Rightarrow> f) = Inr p \<longleftrightarrow> r = Inr () \<and> f = Inr p"
  by (cases r) auto

lemma if_Inl_Inr: "(if b then Inl e else r) = Inr p \<longleftrightarrow> \<not> b \<and> r = Inr p"
  by simp

lemma KernelProgram_Inr:
  "KernelProgram name platform cores buffers md = Inr p \<longleftrightarrow>
     name \<noteq> [] \<and> (\<exists>q. normalize_platform platform = Inr q \<and>
       p = \<lparr>kp_name = name, kp_platform = q, kp_cores = cores, kp_buffers = buffers, kp_metadata = md\<rparr> \<and>
       program_wf p)"
proof (cases "normalize_platform platform")
  case (Inl e)
  then show ?thesis by (simp add: KernelProgram_def)
next
  case (Inr q)
  let ?p = "\<lparr>kp_name = name, kp_platform = q, kp_cores = cores, kp_buffers = buffers, kp_metadata = md\<rparr>"
  let ?known = "\<forall>t \<in> set (program_tasks ?p). set (dependencies t) \<subseteq> set (map task_id (program_tasks ?p))"
  have q: "q \<in> {''A2'', ''A3''}" using normalize_platform_Inr [OF Inr] by simp
  have "KernelProgram name platform cores buffers md = Inr p \<longleftrightarrow> name \<noteq> [] \<and>
      distinct (map cp_core_id cores) \<and> distinct (map bs_name buffers) \<and>
      distinct (map task_id (program_tasks ?p)) \<and> ?known \<and>
      validate_acyclic (program_tasks ?p) = Inr () \<and> ?p = p"
    by (simp add: KernelProgram_def Inr Let_def case_unit_Inr validate_unique_iff distinct_map_str_of_int
        program_tasks_def if_Inl_Inr del: set_concat set_map)
  also have "\<dots> \<longleftrightarrow> name \<noteq> [] \<and> p = ?p \<and> program_wf ?p"
    using q validate_acyclic_Inr [of "program_tasks ?p"] by (auto simp: program_wf_def simp del: set_map)
  finally show ?thesis using Inr by auto
qed

lemma Task_wf: "Task tid op core l p dur deps stg md = Inr t \<Longrightarrow> task_wf t"
  by (auto simp: Task_def task_wf_def split: if_splits sum.splits)

section \<open>Properties\<close>

text \<open>
  C14: The depth-first search of \<open>_validate_acyclic\<close> decides acyclicity: on a task list whose
  dependencies name tasks of the list it returns normally exactly when no task reaches itself
  through its dependencies.
\<close>

theorem validate_acyclic_decides:
  assumes "\<forall>t \<in> set tasks. set (dependencies t) \<subseteq> set (map task_id tasks)"
  shows "validate_acyclic tasks = Inr () \<longleftrightarrow> acyclic (dep_rel (task_deps tasks))"
  using assms by (rule validate_acyclic_Inr)

definition sample_task :: "string \<Rightarrow> string list \<Rightarrow> task" where
  "sample_task tid deps = \<lparr>task_id = tid, operation = ''copy'', core_id = 0, task_lane = CUBE,
     task_pipe = MTE2, duration_cycles = 1, dependencies = deps, stage = None, task_metadata = []\<rparr>"

theorem validate_acyclic_decides_witness:
  "\<not> acyclic (dep_rel (task_deps [sample_task ''a'' [''b''], sample_task ''b'' [''a'']]))"
proof -
  have "validate_acyclic [sample_task ''a'' [''b''], sample_task ''b'' [''a'']] \<noteq> Inr ()"
    by (simp add: validate_acyclic_def sample_task_def Let_def)
  moreover have "\<forall>t \<in> set [sample_task ''a'' [''b''], sample_task ''b'' [''a'']].
      set (dependencies t) \<subseteq> set (map task_id [sample_task ''a'' [''b''], sample_task ''b'' [''a'']])"
    by (simp add: sample_task_def)
  ultimately show ?thesis using validate_acyclic_decides by blast
qed

text \<open>
  C15: The \<open>KernelProgram\<close> constructor accepts exactly the well-formed programs: a non-empty name, a
  supported platform, distinct core, buffer and task identifiers, dependencies that name tasks of
  the program, and no dependency cycle.
\<close>

theorem KernelProgram_accepts_wf:
  "KernelProgram name platform cores buffers md = Inr p \<longleftrightarrow>
     name \<noteq> [] \<and> (\<exists>q. normalize_platform platform = Inr q \<and>
       p = \<lparr>kp_name = name, kp_platform = q, kp_cores = cores, kp_buffers = buffers, kp_metadata = md\<rparr> \<and>
       program_wf p)"
  by (rule KernelProgram_Inr)

text \<open>
  C20: \<open>AffineInt.plus\<close> and \<open>AffineInt.scaled\<close> on canonical affine integers return canonical affine
  integers (terms sorted by symbol, one per symbol, no zero coefficient) that evaluate to the sum
  and the product under every binding that evaluates the operands.
\<close>

theorem affine_arithmetic:
  assumes "affine_wf a" and "affine_wf b" and "affine_evaluate a \<beta> = Inr x" and "affine_evaluate b \<beta> = Inr y"
  shows "(\<exists>c. affine_plus a b = Inr c \<and> affine_wf c \<and> affine_evaluate c \<beta> = Inr (x + y)) \<and>
    (\<exists>c. affine_scaled a k = Inr c \<and> affine_wf c \<and> affine_evaluate c \<beta> = Inr (x * k))"
  using affine_plus_Inr [OF assms] affine_scaled_Inr [OF assms(1,3)] by blast

theorem affine_arithmetic_witness:
  "\<exists>c. affine_plus \<lparr>affine_terms = [(''n'', 2)], affine_constant = 1\<rparr> \<lparr>affine_terms = [(''n'', -2)], affine_constant = 4\<rparr> = Inr c \<and>
     affine_wf c \<and> affine_evaluate c [''n'' \<mapsto> IntVal 7] = Inr (15 + (- 10))"
proof -
  let ?a = "\<lparr>affine_terms = [(''n'', 2)], affine_constant = 1\<rparr>"
  let ?b = "\<lparr>affine_terms = [(''n'', -2)], affine_constant = 4\<rparr>"
  have "affine_wf ?a" "affine_wf ?b" "affine_evaluate ?a [''n'' \<mapsto> IntVal 7] = Inr 15"
    "affine_evaluate ?b [''n'' \<mapsto> IntVal 7] = Inr (- 10)"
    by (simp_all add: affine_wf_def affine_evaluate_def)
  from affine_arithmetic [OF this] show ?thesis by blast
qed

text \<open>
  The symbolic \<open>truncdiv\<close> and \<open>truncmod\<close> of two runtime integers are signed division and
  remainder rounding towards zero, \<open>floordiv\<close> and \<open>floormod\<close> those rounding down, and each raises
  exactly when the divisor is zero.
\<close>

theorem symbolic_division:
  "evaluate_runtime_int (RSymbolic ''truncdiv'' [RInt a, RInt b]) \<beta> =
      (if b = 0 then division_by_zero else Inr (a sdiv b)) \<and>
    evaluate_runtime_int (RSymbolic ''truncmod'' [RInt a, RInt b]) \<beta> =
      (if b = 0 then division_by_zero else Inr (a smod b)) \<and>
    evaluate_runtime_int (RSymbolic ''floordiv'' [RInt a, RInt b]) \<beta> =
      (if b = 0 then division_by_zero else Inr \<lfloor>rat_of_int a / rat_of_int b\<rfloor>) \<and>
    evaluate_runtime_int (RSymbolic ''floormod'' [RInt a, RInt b]) \<beta> =
      (if b = 0 then division_by_zero else Inr (a - b * \<lfloor>rat_of_int a / rat_of_int b\<rfloor>))"
  by (simp add: symbolic_apply_def symbolic_binary_def symbolic_arities_def trunc_quotient_sdiv
      trunc_remainder_smod [symmetric] floor_divide_of_int_eq minus_mult_div_eq_mod)

end
