(* ===== verification/Sim_Layout.thy ===== *)
theory Sim_Layout
  imports Sim_Errors
begin

text \<open>
  \<^verbatim>\<open>tilelang/simulator/layout.py\<close>: the physical layouts of a logical matrix, and the index maps
  of \<^verbatim>\<open>tilelang/intrinsics/ascend_layout.py\<close> they follow.  A NumPy array is its shape, its item
  size and its elements in C order.  The locale \<open>matrix_codec\<close> states what packing needs of a
  layout; each layout of the source interprets it.
\<close>

section \<open>Arrays\<close>

record 'a ndarray =
  nd_shape :: "int list"
  nd_itemsize :: int
  nd_flat :: "'a list"

definition nd_wf :: "'a ndarray \<Rightarrow> bool" where
  "nd_wf a \<longleftrightarrow> (\<forall>n \<in> set (nd_shape a). 0 \<le> n) \<and> int (length (nd_flat a)) = prod_list (nd_shape a)"

text \<open>A subscript of a one-dimensional array: negative ones count from the end.\<close>

definition py_position :: "int \<Rightarrow> int \<Rightarrow> nat res" where
  "py_position n index =
     (if 0 \<le> index \<and> index < n then Inr (nat index)
      else if - n \<le> index \<and> index < 0 then Inr (nat (n + index))
      else Inl (IndexError ''index is out of bounds''))"

definition nd_get :: "'a list \<Rightarrow> int \<Rightarrow> 'a res" where
  "nd_get xs index =
     (case py_position (int (length xs)) index of Inl e \<Rightarrow> Inl e | Inr i \<Rightarrow> Inr (xs ! i))"

definition nd_put :: "'a list \<Rightarrow> int \<Rightarrow> 'a \<Rightarrow> 'a list res" where
  "nd_put xs index v =
     (case py_position (int (length xs)) index of Inl e \<Rightarrow> Inl e | Inr i \<Rightarrow> Inr (xs[i := v]))"

section \<open>Matrix layouts\<close>

definition BYTE_PER_C0 :: int where
  "BYTE_PER_C0 = 32"

definition C0_NUM_PER_FRACTAL :: int where
  "C0_NUM_PER_FRACTAL = 16"

definition BYTE_PER_FRACTAL :: int where
  "BYTE_PER_FRACTAL = BYTE_PER_C0 * C0_NUM_PER_FRACTAL"

lemmas layout_constants = BYTE_PER_C0_def C0_NUM_PER_FRACTAL_def BYTE_PER_FRACTAL_def

definition ceil_div :: "int \<Rightarrow> int \<Rightarrow> int" where
  "ceil_div v divisor = (v + divisor - 1) div divisor"

definition round_up :: "int \<Rightarrow> int \<Rightarrow> int" where
  "round_up v alignment = ceil_div v alignment * alignment"

definition validate_layout :: "int list \<Rightarrow> int \<Rightarrow> (int \<times> int \<times> int) res" where
  "validate_layout shape itemsize =
     (case shape of
        [rows, cols] \<Rightarrow>
          if rows < 0 \<or> cols < 0
          then Inl (ProgramValidationError ''matrix layout requires a non-negative 2D shape'')
          else if itemsize \<le> 0 \<or> BYTE_PER_C0 mod itemsize \<noteq> 0
          then Inl (ProgramValidationError ''matrix layout item size must divide 32 bytes'')
          else Inr (rows, cols, BYTE_PER_C0 div itemsize)
      | _ \<Rightarrow> Inl (ProgramValidationError ''matrix layout requires a non-negative 2D shape''))"

definition unsupported_layout :: "'a res" where
  "unsupported_layout = Inl (UnsupportedSimOpError ''unsupported A2/A3 matrix layout'')"

definition storage_elements :: "string \<Rightarrow> int list \<Rightarrow> int \<Rightarrow> int res" where
  "storage_elements layout shape itemsize =
     (case validate_layout shape itemsize of
        Inl e \<Rightarrow> Inl e
      | Inr (rows, cols, elements_per_c0) \<Rightarrow>
          (let normalized = py_lower (py_strip layout)
           in if normalized = ''row_major'' then Inr (rows * cols)
              else if normalized = ''l0c''
              then Inr (round_up rows C0_NUM_PER_FRACTAL * round_up cols C0_NUM_PER_FRACTAL)
              else if normalized \<in> {''zn'', ''zz'', ''l0a''}
              then Inr (round_up rows C0_NUM_PER_FRACTAL * round_up cols elements_per_c0)
              else if normalized \<in> {''nz'', ''l0b''}
              then Inr (round_up rows elements_per_c0 * round_up cols C0_NUM_PER_FRACTAL)
              else unsupported_layout))"

definition l0c_index :: "int \<Rightarrow> int \<Rightarrow> int \<Rightarrow> int" where
  "l0c_index rows row col =
     row div C0_NUM_PER_FRACTAL * C0_NUM_PER_FRACTAL * C0_NUM_PER_FRACTAL
     + col div C0_NUM_PER_FRACTAL * round_up rows C0_NUM_PER_FRACTAL * C0_NUM_PER_FRACTAL
     + row mod C0_NUM_PER_FRACTAL * C0_NUM_PER_FRACTAL
     + col mod C0_NUM_PER_FRACTAL"

definition zn_index :: "int \<Rightarrow> int \<Rightarrow> int \<Rightarrow> int \<Rightarrow> int \<Rightarrow> int" where
  "zn_index rows elements_per_c0 elements_per_fractal row col =
     row div C0_NUM_PER_FRACTAL * elements_per_fractal
     + col div elements_per_c0 * round_up rows C0_NUM_PER_FRACTAL * elements_per_c0
     + row mod C0_NUM_PER_FRACTAL * elements_per_c0
     + col mod elements_per_c0"

definition zz_index :: "int \<Rightarrow> int \<Rightarrow> int \<Rightarrow> int \<Rightarrow> int" where
  "zz_index cols elements_per_c0 row col =
     row div C0_NUM_PER_FRACTAL * round_up cols elements_per_c0 * C0_NUM_PER_FRACTAL
     + col * C0_NUM_PER_FRACTAL
     + row mod C0_NUM_PER_FRACTAL"

definition nz_index :: "int \<Rightarrow> int \<Rightarrow> int \<Rightarrow> int \<Rightarrow> int \<Rightarrow> int" where
  "nz_index cols elements_per_c0 elements_per_fractal row col =
     row div elements_per_c0 * round_up cols C0_NUM_PER_FRACTAL * elements_per_c0
     + col div C0_NUM_PER_FRACTAL * elements_per_fractal
     + row mod elements_per_c0
     + col mod C0_NUM_PER_FRACTAL * elements_per_c0"

definition physical_index :: "string \<Rightarrow> int \<Rightarrow> int \<Rightarrow> int list \<Rightarrow> int \<Rightarrow> int res" where
  "physical_index layout row col shape itemsize =
     (case validate_layout shape itemsize of
        Inl e \<Rightarrow> Inl e
      | Inr (rows, cols, elements_per_c0) \<Rightarrow>
          if \<not> (0 \<le> row \<and> row < rows \<and> 0 \<le> col \<and> col < cols)
          then Inl (ProgramValidationError ''logical coordinate is outside matrix shape'')
          else
            (let elements_per_fractal = BYTE_PER_FRACTAL div itemsize;
                 normalized = py_lower (py_strip layout)
             in if normalized = ''row_major'' then Inr (row * cols + col)
                else if normalized = ''l0c'' then Inr (l0c_index rows row col)
                else if normalized = ''zn''
                then Inr (zn_index rows elements_per_c0 elements_per_fractal row col)
                else if normalized \<in> {''zz'', ''l0a''} then Inr (zz_index cols elements_per_c0 row col)
                else if normalized \<in> {''nz'', ''l0b''}
                then Inr (nz_index cols elements_per_c0 elements_per_fractal row col)
                else unsupported_layout))"

text \<open>The two nested \<open>range\<close> loops of the codecs, in execution order.\<close>

definition cells :: "int \<Rightarrow> int \<Rightarrow> (int \<times> int) list" where
  "cells rows cols = List.product [0..rows - 1] [0..cols - 1]"

definition pack_cell ::
  "(int \<Rightarrow> int \<Rightarrow> int res) \<Rightarrow> 'a ndarray \<Rightarrow> int \<Rightarrow> 'a list \<Rightarrow> int \<times> int \<Rightarrow> 'a list res" where
  "pack_cell index_of matrix cols result = (\<lambda>(row, col).
     case index_of row col of
       Inl e \<Rightarrow> Inl e
     | Inr index \<Rightarrow> nd_put result index (nd_flat matrix ! nat (row * cols + col)))"

definition pack_matrix :: "'a::zero ndarray \<Rightarrow> string \<Rightarrow> 'a ndarray res" where
  "pack_matrix matrix layout =
     (case nd_shape matrix of
        [rows, cols] \<Rightarrow>
          (case storage_elements layout [rows, cols] (nd_itemsize matrix) of
             Inl e \<Rightarrow> Inl e
           | Inr elements \<Rightarrow>
               (case for_each (pack_cell (\<lambda>row col. physical_index layout row col [rows, cols] (nd_itemsize matrix))
                        matrix cols) (replicate (nat elements) 0) (cells rows cols) of
                  Inl e \<Rightarrow> Inl e
                | Inr result \<Rightarrow> Inr \<lparr>nd_shape = [elements], nd_itemsize = nd_itemsize matrix, nd_flat = result\<rparr>))
      | _ \<Rightarrow> Inl (ProgramValidationError ''matrix layout pack requires rank 2''))"

text \<open>The result is filled in C order, each cell once, so the loop is a traversal of the cells.\<close>

definition unpack_cell :: "(int \<Rightarrow> int \<Rightarrow> int res) \<Rightarrow> 'a list \<Rightarrow> int \<times> int \<Rightarrow> 'a res" where
  "unpack_cell index_of physical = (\<lambda>(row, col).
     case index_of row col of Inl e \<Rightarrow> Inl e | Inr index \<Rightarrow> nd_get physical index)"

definition unpack_matrix :: "'a ndarray \<Rightarrow> string \<Rightarrow> int list \<Rightarrow> 'a ndarray res" where
  "unpack_matrix storage layout shape =
     (case storage_elements layout shape (nd_itemsize storage) of
        Inl e \<Rightarrow> Inl e
      | Inr required \<Rightarrow>
          if int (length (nd_flat storage)) < required
          then Inl (ProgramValidationError ''storage has too few elements for the shape'')
          else (case map_res (unpack_cell (\<lambda>row col. physical_index layout row col shape (nd_itemsize storage))
                       (nd_flat storage)) (cells (shape ! 0) (shape ! 1)) of
                  Inl e \<Rightarrow> Inl e
                | Inr flat \<Rightarrow> Inr \<lparr>nd_shape = shape, nd_itemsize = nd_itemsize storage, nd_flat = flat\<rparr>))"

section \<open>The index maps of the compiler\<close>

text \<open>
  \<open>make_zn_layout\<close> and \<open>make_nz_layout\<close> on concrete extents: \<open>bits\<close> is \<open>DataType(dtype).bits\<close>,
  \<open>shape\<close> the buffer's shape, \<open>args\<close> the index tuple, \<open>simplify\<close> TVM's \<open>Analyzer.simplify\<close> on the
  resulting integer.  A division by an element count of zero raises.
\<close>

definition ele_num_per_c0 :: "int \<Rightarrow> int" where
  "ele_num_per_c0 bits = BYTE_PER_C0 div bits * 8"

definition ele_num_per_fractal :: "int \<Rightarrow> int" where
  "ele_num_per_fractal bits = BYTE_PER_FRACTAL div bits * 8"

text \<open>\<open>*args[:-2]\<close> and \<open>args[-2:]\<close>; unpacking fewer than two raises.\<close>

definition split_args :: "int list \<Rightarrow> (int list \<times> int \<times> int) res" where
  "split_args args =
     (case rev args of
        j # i # rest \<Rightarrow> Inr (rev rest, i, j)
      | _ \<Rightarrow> Inl (ValueError ''not enough values to unpack''))"

definition make_zn_layout :: "(int \<Rightarrow> int) \<Rightarrow> int \<Rightarrow> int list \<Rightarrow> int list \<Rightarrow> int list res" where
  "make_zn_layout simplify bits shape args =
     (case (split_args args, split_args shape) of
        (Inr (lead, i, j), Inr (_, rows, cols)) \<Rightarrow>
          (let c0 = ele_num_per_c0 bits; fractal = ele_num_per_fractal bits in
           if c0 = 0 then Inl (ZeroDivisionError ''division by zero'')
           else let rowInFractal = C0_NUM_PER_FRACTAL; colInFractal = c0;
                    strideRowsByFractal = fractal;
                    strideColsByFractal = round_up rows C0_NUM_PER_FRACTAL * c0
                in Inr (lead @ [simplify
                     (i div rowInFractal * strideRowsByFractal + j div colInFractal * strideColsByFractal
                      + i mod rowInFractal * c0 + j mod colInFractal * 1)]))
      | (Inl e, _) \<Rightarrow> Inl e
      | (_, Inl e) \<Rightarrow> Inl (IndexError ''array index out of range''))"

definition make_col_major_layout :: "int list \<Rightarrow> int list res" where
  "make_col_major_layout args =
     (case split_args args of Inl e \<Rightarrow> Inl e | Inr (lead, i, j) \<Rightarrow> Inr (lead @ [j, i]))"

definition make_nz_layout :: "(int \<Rightarrow> int) \<Rightarrow> int \<Rightarrow> int list \<Rightarrow> int list \<Rightarrow> int list res" where
  "make_nz_layout simplify bits shape args =
     (case (split_args args, split_args shape) of
        (Inr (lead, i, j), Inr (_, rows, cols)) \<Rightarrow>
          (let c0 = ele_num_per_c0 bits; fractal = ele_num_per_fractal bits;
               c0_num_per_fractal = BYTE_PER_FRACTAL div BYTE_PER_C0 in
           if c0 = 0 then Inl (ZeroDivisionError ''division by zero'')
           else let rowInFractal = c0; colInFractal = c0_num_per_fractal;
                    strideRowsByFractal = round_up cols c0_num_per_fractal * c0;
                    strideColsByFractal = fractal
                in Inr (lead @ [simplify
                     (i div rowInFractal * strideRowsByFractal + j div colInFractal * strideColsByFractal
                      + i mod rowInFractal * 1 + j mod colInFractal * c0)]))
      | (Inl e, _) \<Rightarrow> Inl e
      | (_, Inl e) \<Rightarrow> Inl (IndexError ''array index out of range''))"


section \<open>Mixed-radix index maps\<close>

text \<open>
  Every layout of the source is one map: the coordinate \<open>x\<close> is split by the fractal width \<open>a\<close>,
  and \<open>s\<close> bounds the other coordinate.
\<close>

definition fractal_index :: "int \<Rightarrow> int \<Rightarrow> int \<Rightarrow> int \<Rightarrow> int" where
  "fractal_index a s x y = a * (y + x div a * s) + x mod a"

lemma fractal_index_inject:
  assumes "0 < a" "0 \<le> y" "y < s" "0 \<le> y'" "y' < s"
    and "fractal_index a s x y = fractal_index a s x' y'"
  shows "x = x' \<and> y = y'"
proof -
  have split: "fractal_index a s x y mod a = x mod a" "fractal_index a s x y div a = y + x div a * s"
    if "0 < a" for x y
    using that by (simp_all add: fractal_index_def)
  have y_of: "(y + q * s) mod s = y" "(y + q * s) div s = q" if "0 \<le> y" "y < s" for y q
    using that by simp_all
  have "y + x div a * s = y' + x' div a * s" and m: "x mod a = x' mod a"
    using split [OF assms(1)] assms(6) by metis+
  then have "y = y'" "x div a = x' div a"
    using y_of [OF assms(2,3)] y_of [OF assms(4,5)] by metis+
  with m show ?thesis by (metis mult_div_mod_eq)
qed

lemma div_less_ceil_div: "0 < a \<Longrightarrow> x < n \<Longrightarrow> x div a < ceil_div n a"
proof -
  assume "0 < a" "x < n"
  then have "x div a \<le> (n - 1) div a" by (intro zdiv_mono1) auto
  also have "\<dots> < (n - 1) div a + 1" by simp
  also have "\<dots> = ceil_div n a"
    using \<open>0 < a\<close> div_add_self2 [of a "n - 1"] by (simp add: ceil_div_def algebra_simps)
  finally show ?thesis .
qed

lemma fractal_index_bounds:
  assumes "0 < a" "0 \<le> x" "x < n" "0 \<le> y" "y < s"
  shows "0 \<le> fractal_index a s x y" "fractal_index a s x y < s * round_up n a"
proof -
  show "0 \<le> fractal_index a s x y"
    using assms by (simp add: fractal_index_def pos_imp_zdiv_nonneg_iff)
  have "x div a + 1 \<le> ceil_div n a" using div_less_ceil_div [OF assms(1,3)] by simp
  then have "(x div a + 1) * s \<le> ceil_div n a * s" using assms by (intro mult_right_mono) auto
  then have "y + x div a * s + 1 \<le> ceil_div n a * s" using assms(5) by (simp add: distrib_right)
  then have "a * (y + x div a * s + 1) \<le> a * (ceil_div n a * s)" using assms(1) by simp
  moreover have "x mod a < a" using assms(1) by simp
  ultimately show "fractal_index a s x y < s * round_up n a"
    by (simp add: fractal_index_def round_up_def algebra_simps)
qed

lemma le_round_up: "0 < a \<Longrightarrow> n \<le> round_up n a"
proof -
  assume "0 < a"
  then have "(n + a - 1) mod a \<le> a - 1" by simp
  then have "n \<le> (n + a - 1) - (n + a - 1) mod a" by linarith
  also have "\<dots> = round_up n a"
    unfolding round_up_def ceil_div_def by (rule minus_mod_eq_div_mult)
  finally show ?thesis .
qed

lemma row_major_fractal: "row * cols + col = fractal_index 1 cols row col"
  by (simp add: fractal_index_def)

lemma l0c_fractal: "l0c_index rows row col = fractal_index 16 (round_up rows 16) col row"
proof -
  have "row div 16 * 256 + row mod 16 * 16 = row * 16" by presburger
  then show ?thesis by (simp add: l0c_index_def fractal_index_def layout_constants algebra_simps)
qed

lemma zn_fractal: "zn_index rows e (16 * e) row col = fractal_index e (round_up rows 16) col row"
proof -
  have "row div 16 * (16 * e) + row mod 16 * e = row * e"
    by (metis (no_types, opaque_lifting) div_mult_mod_eq distrib_right mult.assoc)
  then show ?thesis by (simp add: zn_index_def fractal_index_def layout_constants algebra_simps)
qed

lemma zz_fractal: "zz_index cols e row col = fractal_index 16 (round_up cols e) row col"
  by (simp add: zz_index_def fractal_index_def layout_constants algebra_simps)

lemma nz_fractal: "nz_index cols e (16 * e) row col = fractal_index e (round_up cols 16) row col"
proof -
  have "col div 16 * (16 * e) + col mod 16 * e = col * e"
    by (metis (no_types, opaque_lifting) div_mult_mod_eq distrib_right mult.assoc)
  then show ?thesis by (simp add: nz_index_def fractal_index_def layout_constants algebra_simps)
qed

lemma elements_per_fractal:
  "0 < itemsize \<Longrightarrow> BYTE_PER_C0 mod itemsize = 0 \<Longrightarrow> BYTE_PER_FRACTAL div itemsize = 16 * (BYTE_PER_C0 div itemsize)"
proof -
  assume "0 < itemsize" "BYTE_PER_C0 mod itemsize = 0"
  then have "itemsize dvd BYTE_PER_C0" by (simp add: mod_eq_0_iff_dvd)
  then show ?thesis
    by (simp add: BYTE_PER_FRACTAL_def C0_NUM_PER_FRACTAL_def dvd_div_mult [symmetric])
qed

lemma elements_per_c0_pos: "0 < itemsize \<Longrightarrow> BYTE_PER_C0 mod itemsize = 0 \<Longrightarrow> 0 < BYTE_PER_C0 div itemsize"
  by (auto simp: layout_constants pos_imp_zdiv_pos_iff dest: zdvd_imp_le simp flip: dvd_eq_mod_eq_0)


section \<open>What packing needs of a layout\<close>

text \<open>
  A codec gives each valid matrix a capacity and each of its coordinates an offset below it, no
  two coordinates the same one.
\<close>

definition valid_matrix :: "int \<Rightarrow> int \<Rightarrow> int \<Rightarrow> bool" where
  "valid_matrix rows cols itemsize \<longleftrightarrow>
     0 \<le> rows \<and> 0 \<le> cols \<and> 0 < itemsize \<and> BYTE_PER_C0 mod itemsize = 0"

definition in_matrix :: "int \<Rightarrow> int \<Rightarrow> int \<times> int \<Rightarrow> bool" where
  "in_matrix rows cols = (\<lambda>(row, col). 0 \<le> row \<and> row < rows \<and> 0 \<le> col \<and> col < cols)"

lemma set_cells: "set (cells rows cols) = {p. in_matrix rows cols p}"
  by (auto simp: cells_def in_matrix_def)

lemma distinct_cells: "distinct (cells rows cols)"
  by (simp add: cells_def distinct_product)

locale matrix_codec =
  fixes capacity :: "int list \<Rightarrow> int \<Rightarrow> int res"
    and index :: "int \<Rightarrow> int \<Rightarrow> int list \<Rightarrow> int \<Rightarrow> int res"
  assumes capacity_total: "valid_matrix rows cols itemsize \<Longrightarrow> \<exists>n. capacity [rows, cols] itemsize = Inr n"
    and index_bounds: "valid_matrix rows cols itemsize \<Longrightarrow> in_matrix rows cols (row, col) \<Longrightarrow>
      capacity [rows, cols] itemsize = Inr n \<Longrightarrow>
      \<exists>i. index row col [rows, cols] itemsize = Inr i \<and> 0 \<le> i \<and> i < n"
    and index_inject: "valid_matrix rows cols itemsize \<Longrightarrow> in_matrix rows cols (row, col) \<Longrightarrow>
      in_matrix rows cols (row', col') \<Longrightarrow> index row col [rows, cols] itemsize = Inr i \<Longrightarrow>
      index row' col' [rows, cols] itemsize = Inr i \<Longrightarrow> row = row' \<and> col = col'"
begin

lemma pack_cells:
  assumes valid: "valid_matrix rows cols itemsize" and cap: "capacity [rows, cols] itemsize = Inr n"
    and sub: "\<forall>p \<in> set ps. in_matrix rows cols p" and dist: "distinct ps"
    and len: "length store = nat n"
  shows "\<exists>result. for_each (pack_cell (\<lambda>row col. index row col [rows, cols] itemsize) matrix cols)
      store ps = Inr result \<and> length result = nat n \<and>
    (\<forall>(row, col) \<in> set ps. \<forall>i. index row col [rows, cols] itemsize = Inr i \<longrightarrow>
        result ! nat i = nd_flat matrix ! nat (row * cols + col)) \<and>
    (\<forall>j < nat n. (\<forall>(row, col) \<in> set ps. index row col [rows, cols] itemsize \<noteq> Inr (int j)) \<longrightarrow>
        result ! j = store ! j)"
  using sub dist len
proof (induction ps arbitrary: store)
  case Nil
  then show ?case by simp
next
  case (Cons p ps)
  obtain row col where p: "p = (row, col)" by (cases p)
  with Cons.prems have in_p: "in_matrix rows cols (row, col)" by auto
  obtain i where i: "index row col [rows, cols] itemsize = Inr i" "0 \<le> i" "i < n"
    using index_bounds [OF valid in_p cap] by blast
  let ?v = "nd_flat matrix ! nat (row * cols + col)"
  let ?store = "store[nat i := ?v]"
  have step: "pack_cell (\<lambda>row col. index row col [rows, cols] itemsize) matrix cols store p = Inr ?store"
    using i Cons.prems(3) by (simp add: p pack_cell_def nd_put_def py_position_def)
  have "length ?store = nat n" using Cons.prems(3) by simp
  with Cons.IH [of ?store] Cons.prems obtain result where
    r: "for_each (pack_cell (\<lambda>row col. index row col [rows, cols] itemsize) matrix cols) ?store ps = Inr result"
      "length result = nat n"
    and written: "\<forall>(row, col) \<in> set ps. \<forall>i. index row col [rows, cols] itemsize = Inr i \<longrightarrow>
        result ! nat i = nd_flat matrix ! nat (row * cols + col)"
    and kept: "\<forall>j < nat n. (\<forall>(row, col) \<in> set ps. index row col [rows, cols] itemsize \<noteq> Inr (int j)) \<longrightarrow>
        result ! j = ?store ! j"
    by auto
  have "index r c [rows, cols] itemsize \<noteq> Inr i" if rc: "(r, c) \<in> set ps" for r c
  proof
    assume "index r c [rows, cols] itemsize = Inr i"
    moreover have "in_matrix rows cols (r, c)" using Cons.prems(1) rc by auto
    ultimately have "r = row \<and> c = col" using index_inject [OF valid _ in_p _ i(1)] by blast
    with rc Cons.prems(2) show False by (auto simp: p)
  qed
  then have "\<forall>(r, c) \<in> set ps. index r c [rows, cols] itemsize \<noteq> Inr (int (nat i))"
    using i(2) by auto
  with kept i have "result ! nat i = ?v" using Cons.prems(3) by auto
  moreover have "result ! j = store ! j"
    if "j < nat n" "\<forall>(row, col) \<in> set (p # ps). index row col [rows, cols] itemsize \<noteq> Inr (int j)" for j
  proof -
    have "j \<noteq> nat i" using that i by (auto simp: p)
    then show ?thesis using kept that by simp
  qed
  ultimately show ?case using step r written i(1) by (auto simp: p)
qed

lemma unpack_cells:
  assumes valid: "valid_matrix rows cols itemsize" and cap: "capacity [rows, cols] itemsize = Inr n"
    and len: "length store = nat n"
    and vals: "\<forall>(row, col) \<in> set (cells rows cols). \<forall>i. index row col [rows, cols] itemsize = Inr i \<longrightarrow>
        store ! nat i = val row col"
  shows "map_res (unpack_cell (\<lambda>row col. index row col [rows, cols] itemsize) store) (cells rows cols) =
    Inr (map (\<lambda>(row, col). val row col) (cells rows cols))"
proof (rule map_res_all_Inr)
  fix p assume "p \<in> set (cells rows cols)"
  moreover obtain row col where p: "p = (row, col)" by (cases p)
  ultimately have in_p: "in_matrix rows cols (row, col)" and mem: "(row, col) \<in> set (cells rows cols)"
    by (auto simp: set_cells)
  obtain i where i: "index row col [rows, cols] itemsize = Inr i" "0 \<le> i" "i < n"
    using index_bounds [OF valid in_p cap] by blast
  with vals mem len show "unpack_cell (\<lambda>row col. index row col [rows, cols] itemsize) store p =
      Inr (case p of (row, col) \<Rightarrow> val row col)"
    by (auto simp: p unpack_cell_def nd_get_def py_position_def)
qed

end


section \<open>The layouts of the source are codecs\<close>

definition matrix_layouts :: "string list" where
  "matrix_layouts = [''row_major'', ''l0c'', ''zn'', ''zz'', ''l0a'', ''nz'', ''l0b'']"

text \<open>The fractal width, the bound of the other coordinate and which coordinate is split.\<close>

definition layout_fractal :: "string \<Rightarrow> int \<Rightarrow> int \<Rightarrow> int \<Rightarrow> (int \<times> int \<times> bool)" where
  "layout_fractal layout rows cols e =
     (if layout = ''row_major'' then (1, cols, True)
      else if layout = ''l0c'' then (16, round_up rows 16, False)
      else if layout = ''zn'' then (e, round_up rows 16, False)
      else if layout \<in> {''zz'', ''l0a''} then (16, round_up cols e, True)
      else (e, round_up cols 16, True))"

lemma physical_index_fractal:
  assumes "valid_matrix rows cols itemsize" "in_matrix rows cols (row, col)"
    "py_lower (py_strip layout) \<in> set matrix_layouts"
    "layout_fractal (py_lower (py_strip layout)) rows cols (BYTE_PER_C0 div itemsize) = (a, s, by_row)"
  shows "physical_index layout row col [rows, cols] itemsize =
      Inr (if by_row then fractal_index a s row col else fractal_index a s col row)"
    and "storage_elements layout [rows, cols] itemsize =
      Inr (s * round_up (if by_row then rows else cols) a)"
    and "0 < a" and "(if by_row then col else row) < s"
proof -
  let ?e = "BYTE_PER_C0 div itemsize"
  have e: "0 < ?e" "BYTE_PER_FRACTAL div itemsize = 16 * ?e"
    using assms(1) elements_per_c0_pos elements_per_fractal by (auto simp: valid_matrix_def)
  have ok: "validate_layout [rows, cols] itemsize = Inr (rows, cols, ?e)"
    using assms(1) by (auto simp: validate_layout_def valid_matrix_def)
  have coord: "0 \<le> row \<and> row < rows \<and> 0 \<le> col \<and> col < cols" using assms(2) by (simp add: in_matrix_def)
  have up: "row < round_up rows 16" "col < round_up cols 16" "col < round_up cols ?e"
    using coord le_round_up [of 16 rows] le_round_up [of 16 cols] le_round_up [of ?e cols] e(1) by linarith+
  have one: "round_up rows 1 = rows" by (simp add: round_up_def ceil_div_def)
  note cases = assms(3,4) [unfolded matrix_layouts_def layout_fractal_def, simplified]
  show "physical_index layout row col [rows, cols] itemsize =
      Inr (if by_row then fractal_index a s row col else fractal_index a s col row)"
    using cases coord ok
    by (auto simp: physical_index_def Let_def e(2) row_major_fractal l0c_fractal zn_fractal zz_fractal
        nz_fractal)
  show "storage_elements layout [rows, cols] itemsize = Inr (s * round_up (if by_row then rows else cols) a)"
    using cases ok one by (auto simp: storage_elements_def Let_def C0_NUM_PER_FRACTAL_def)
  show "0 < a" "(if by_row then col else row) < s"
    using cases up e(1) coord by auto
qed

lemma storage_elements_total:
  assumes "valid_matrix rows cols itemsize" "py_lower (py_strip layout) \<in> set matrix_layouts"
  shows "\<exists>n. storage_elements layout [rows, cols] itemsize = Inr n"
  using assms by (auto simp: storage_elements_def validate_layout_def valid_matrix_def matrix_layouts_def Let_def)

lemma layout_codec:
  assumes "py_lower (py_strip layout) \<in> set matrix_layouts"
  shows "matrix_codec (storage_elements layout) (physical_index layout)"
proof (unfold_locales, goal_cases)
  case (1 rows cols itemsize)
  then show ?case using assms by (rule storage_elements_total)
next
  case (2 rows cols itemsize row col n)
  obtain a s by_row where
    f: "layout_fractal (py_lower (py_strip layout)) rows cols (BYTE_PER_C0 div itemsize) = (a, s, by_row)"
    by (rule prod_cases3)
  note facts = physical_index_fractal [OF 2(1,2) assms f]
  show ?case
    using facts 2(2,3) fractal_index_bounds [OF facts(3), of row rows col s]
      fractal_index_bounds [OF facts(3), of col cols row s]
    by (cases by_row) (auto simp: in_matrix_def)
next
  case (3 rows cols itemsize row col row' col' i)
  obtain a s by_row where
    f: "layout_fractal (py_lower (py_strip layout)) rows cols (BYTE_PER_C0 div itemsize) = (a, s, by_row)"
    by (rule prod_cases3)
  note facts = physical_index_fractal [OF 3(1,2) assms f]
  note facts' = physical_index_fractal [OF 3(1,3) assms f]
  show ?case
    using facts facts' 3(2-5) fractal_index_inject [OF facts(3), of col s col' row row']
      fractal_index_inject [OF facts(3), of row s row' col col']
    by (cases by_row) (auto simp: in_matrix_def)
qed

interpretation row_major: matrix_codec "storage_elements ''row_major''" "physical_index ''row_major''"
  by (rule layout_codec) code_simp

interpretation l0c: matrix_codec "storage_elements ''l0c''" "physical_index ''l0c''"
  by (rule layout_codec) code_simp

interpretation zN: matrix_codec "storage_elements ''zn''" "physical_index ''zn''"
  by (rule layout_codec) code_simp

interpretation zZ: matrix_codec "storage_elements ''zz''" "physical_index ''zz''"
  by (rule layout_codec) code_simp

interpretation l0a: matrix_codec "storage_elements ''l0a''" "physical_index ''l0a''"
  by (rule layout_codec) code_simp

interpretation nZ: matrix_codec "storage_elements ''nz''" "physical_index ''nz''"
  by (rule layout_codec) code_simp

interpretation l0b: matrix_codec "storage_elements ''l0b''" "physical_index ''l0b''"
  by (rule layout_codec) code_simp

lemma cells_flat:
  assumes "0 \<le> rows" "0 \<le> cols" "int (length xs) = rows * cols"
  shows "map (\<lambda>(row, col). xs ! nat (row * cols + col)) (cells rows cols) = xs"
  using assms
proof (induction "nat rows" arbitrary: rows xs)
  case 0
  then have "rows = 0" by simp
  with 0 show ?case by (simp add: cells_def)
next
  case (Suc n)
  let ?c = "nat cols"
  have rows: "rows = 1 + (rows - 1)" "n = nat (rows - 1)" "0 \<le> rows - 1" using Suc by auto
  have len: "int (length xs) = cols + (rows - 1) * cols" using Suc.prems by (simp add: algebra_simps)
  have fits: "?c \<le> length xs"
    using len rows(3) Suc.prems by (metis le_add_same_cancel1 mult_nonneg_nonneg nat_le_iff)
  have upto: "[0..rows - 1] = 0 # map ((+) 1) [0..(rows - 1) - 1]"
    using rows(3) by (intro nth_equalityI) (auto simp: nth_Cons split: nat.splits)
  have first: "map (\<lambda>col. xs ! nat (0 * cols + col)) [0..cols - 1] = take ?c xs"
  proof (rule nth_equalityI)
    have "cols \<le> int (length xs)" using len rows(3) Suc.prems by simp
    then show "length (map (\<lambda>col. xs ! nat (0 * cols + col)) [0..cols - 1]) = length (take ?c xs)"
      using Suc.prems by auto
  qed (use Suc.prems in auto)
  have shift: "xs ! nat ((1 + row) * cols + col) = drop ?c xs ! nat (row * cols + col)"
    if "(row, col) \<in> set (cells (rows - 1) cols)" for row col
  proof -
    from that have rc: "0 \<le> row * cols + col" by (auto simp: set_cells in_matrix_def)
    have "(1 + row) * cols + col = cols + (row * cols + col)" by (simp add: distrib_right)
    then have "nat ((1 + row) * cols + col) = ?c + nat (row * cols + col)"
      using nat_add_distrib [OF Suc.prems(2) rc] by (simp only:)
    with fits show ?thesis by simp
  qed
  have "int (length (drop ?c xs)) = (rows - 1) * cols"
    using len fits Suc.prems(2) by (simp add: of_nat_diff)
  then have rest: "map (\<lambda>(row, col). drop ?c xs ! nat (row * cols + col)) (cells (rows - 1) cols) = drop ?c xs"
    by (intro Suc.hyps(1) rows(2,3) Suc.prems(2))
  have "map (\<lambda>(row, col). xs ! nat (row * cols + col)) (cells rows cols) =
      map (\<lambda>col. xs ! nat (0 * cols + col)) [0..cols - 1] @
      map (\<lambda>(row, col). xs ! nat ((1 + row) * cols + col)) (cells (rows - 1) cols)"
    unfolding cells_def upto by (simp add: comp_def product_concat_map map_concat)
  also have "map (\<lambda>(row, col). xs ! nat ((1 + row) * cols + col)) (cells (rows - 1) cols) =
      map (\<lambda>(row, col). drop ?c xs ! nat (row * cols + col)) (cells (rows - 1) cols)"
    by (rule map_cong) (auto simp: shift)
  also note rest
  finally show ?case by (simp add: first [simplified])
qed

lemma pack_unpack:
  assumes "nd_wf matrix" "nd_shape matrix = [rows, cols]" "valid_matrix rows cols (nd_itemsize matrix)"
    and layout: "py_lower (py_strip layout) \<in> set matrix_layouts"
  shows "\<exists>packed. pack_matrix matrix layout = Inr packed \<and> unpack_matrix packed layout [rows, cols] = Inr matrix"
proof -
  note codec = layout_codec [OF layout]
  obtain n where n: "storage_elements layout [rows, cols] (nd_itemsize matrix) = Inr n"
    using matrix_codec.capacity_total [OF codec assms(3)] by blast
  let ?val = "\<lambda>row col. nd_flat matrix ! nat (row * cols + col)"
  obtain result where r: "for_each (pack_cell (\<lambda>row col. physical_index layout row col [rows, cols] (nd_itemsize matrix))
        matrix cols) (replicate (nat n) 0) (cells rows cols) = Inr result" "length result = nat n"
    "\<forall>(row, col) \<in> set (cells rows cols). \<forall>i. physical_index layout row col [rows, cols] (nd_itemsize matrix) = Inr i \<longrightarrow>
        result ! nat i = ?val row col"
    using matrix_codec.pack_cells [OF codec assms(3) n, of "cells rows cols" "replicate (nat n) 0" matrix]
    by (auto simp: set_cells distinct_cells)
  have flat: "map (\<lambda>(row, col). ?val row col) (cells rows cols) = nd_flat matrix"
    using assms(1-3) by (intro cells_flat) (auto simp: nd_wf_def valid_matrix_def)
  have "unpack_matrix \<lparr>nd_shape = [n], nd_itemsize = nd_itemsize matrix, nd_flat = result\<rparr> layout [rows, cols] =
      Inr \<lparr>nd_shape = [rows, cols], nd_itemsize = nd_itemsize matrix, nd_flat = nd_flat matrix\<rparr>"
    using matrix_codec.unpack_cells [OF codec assms(3) n r(2,3)] n r(2)
    by (simp add: unpack_matrix_def flat)
  moreover have "pack_matrix matrix layout = Inr \<lparr>nd_shape = [n], nd_itemsize = nd_itemsize matrix, nd_flat = result\<rparr>"
    using n r(1) assms(2) by (simp add: pack_matrix_def)
  ultimately show ?thesis using assms(2) by simp
qed

section \<open>Properties\<close>

text \<open>
  C17: In every supported layout the physical index of a coordinate of a valid matrix exists and is
  below the padded capacity that \<open>storage_elements\<close> reports, and different coordinates have
  different physical indices.
\<close>

theorem physical_index_codec:
  assumes "valid_matrix rows cols itemsize" and "py_lower (py_strip layout) \<in> set matrix_layouts"
    and "in_matrix rows cols (row, col)" and "in_matrix rows cols (row', col')"
    and "(row, col) \<noteq> (row', col')"
  shows "\<exists>n i j. storage_elements layout [rows, cols] itemsize = Inr n \<and>
    physical_index layout row col [rows, cols] itemsize = Inr i \<and>
    physical_index layout row' col' [rows, cols] itemsize = Inr j \<and>
    0 \<le> i \<and> i < n \<and> 0 \<le> j \<and> j < n \<and> i \<noteq> j"
proof -
  note codec = layout_codec [OF assms(2)]
  obtain n where n: "storage_elements layout [rows, cols] itemsize = Inr n"
    using matrix_codec.capacity_total [OF codec assms(1)] by blast
  obtain i where i: "physical_index layout row col [rows, cols] itemsize = Inr i" "0 \<le> i" "i < n"
    using matrix_codec.index_bounds [OF codec assms(1,3) n] by blast
  obtain j where j: "physical_index layout row' col' [rows, cols] itemsize = Inr j" "0 \<le> j" "j < n"
    using matrix_codec.index_bounds [OF codec assms(1,4) n] by blast
  have "i \<noteq> j"
    using matrix_codec.index_inject [OF codec assms(1,3,4) i(1)] j(1) assms(5) by blast
  with n i j show ?thesis by blast
qed

theorem physical_index_codec_witness:
  "\<exists>n i j. storage_elements '' zN '' [20, 40] 2 = Inr n \<and>
    physical_index '' zN '' 17 3 [20, 40] 2 = Inr i \<and>
    physical_index '' zN '' 1 35 [20, 40] 2 = Inr j \<and>
    0 \<le> i \<and> i < n \<and> 0 \<le> j \<and> j < n \<and> i \<noteq> j"
proof (rule physical_index_codec)
  show "valid_matrix 20 40 2" by code_simp
  show "py_lower (py_strip '' zN '') \<in> set matrix_layouts" by code_simp
  show "in_matrix 20 40 (17, 3)" "in_matrix 20 40 (1, 35)" by code_simp+
qed simp

text \<open>
  C16: Packing a matrix into any supported layout and unpacking the storage gives the matrix back:
  padding never overwrites an element and every offset read is inside the storage.
\<close>

theorem pack_unpack_roundtrip:
  assumes "nd_wf matrix" and "nd_shape matrix = [rows, cols]"
    and "valid_matrix rows cols (nd_itemsize matrix)"
    and "py_lower (py_strip layout) \<in> set matrix_layouts"
  shows "\<exists>packed. pack_matrix matrix layout = Inr packed \<and>
    unpack_matrix packed layout [rows, cols] = Inr matrix"
  using assms by (rule pack_unpack)

theorem pack_unpack_roundtrip_witness:
  "\<exists>packed. pack_matrix \<lparr>nd_shape = [2, 3], nd_itemsize = 4, nd_flat = [1 :: int, 2, 3, 4, 5, 6]\<rparr> ''l0b'' = Inr packed \<and>
    unpack_matrix packed ''l0b'' [2, 3] = Inr \<lparr>nd_shape = [2, 3], nd_itemsize = 4, nd_flat = [1, 2, 3, 4, 5, 6]\<rparr>"
proof (rule pack_unpack_roundtrip)
  show "valid_matrix 2 3 (nd_itemsize \<lparr>nd_shape = [2, 3], nd_itemsize = 4, nd_flat = [1 :: int, 2, 3, 4, 5, 6]\<rparr>)"
    by (simp add: valid_matrix_def BYTE_PER_C0_def)
  show "py_lower (py_strip ''l0b'') \<in> set matrix_layouts" by code_simp
qed (simp_all add: nd_wf_def)

text \<open>
  C18: For element sizes of one, two and four bytes the simulator's zN and nZ offsets are those of
  the compiler's \<open>make_zn_layout\<close> and \<open>make_nz_layout\<close>.
\<close>

theorem layouts_agree_with_compiler:
  assumes "itemsize \<in> {1, 2, 4}" and "in_matrix rows cols (row, col)" and "\<And>v. simplify v = v"
  shows "make_zn_layout simplify (8 * itemsize) [rows, cols] [row, col] =
      map_sum id (\<lambda>i. [i]) (physical_index ''zn'' row col [rows, cols] itemsize) \<and>
    make_nz_layout simplify (8 * itemsize) [rows, cols] [row, col] =
      map_sum id (\<lambda>i. [i]) (physical_index ''nz'' row col [rows, cols] itemsize)"
proof -
  have names: "py_lower (py_strip ''zn'') = ''zn''" "py_lower (py_strip ''nz'') = ''nz''" by code_simp+
  from assms(1) consider "itemsize = 1" | "itemsize = 2" | "itemsize = 4" by auto
  then show ?thesis
    using assms(2)
    by cases (simp_all add: assms(3) make_zn_layout_def make_nz_layout_def split_args_def ele_num_per_c0_def
        ele_num_per_fractal_def physical_index_def validate_layout_def layout_constants in_matrix_def
        zn_index_def nz_index_def Let_def names)
qed

theorem layouts_agree_with_compiler_witness:
  "make_zn_layout (\<lambda>v. v) (8 * 2) [32, 48] [17, 21] =
      map_sum id (\<lambda>i. [i]) (physical_index ''zn'' 17 21 [32, 48] 2) \<and>
    make_nz_layout (\<lambda>v. v) (8 * 2) [32, 48] [17, 21] =
      map_sum id (\<lambda>i. [i]) (physical_index ''nz'' 17 21 [32, 48] 2)"
  by (rule layouts_agree_with_compiler) (auto simp: in_matrix_def)

text \<open>
  C19: For an element of eight bytes they do not agree: the compiler computes
  \<open>BYTE_PER_C0 // bits * 8\<close>, which is zero for 64 bits, and divides by it, while the simulator
  maps every coordinate.
\<close>

theorem layouts_disagree_for_64_bits:
  assumes "in_matrix rows cols (row, col)"
  shows "make_zn_layout simplify 64 [rows, cols] [row, col] = Inl (ZeroDivisionError ''division by zero'') \<and>
    make_nz_layout simplify 64 [rows, cols] [row, col] = Inl (ZeroDivisionError ''division by zero'') \<and>
    (\<exists>i j. physical_index ''zn'' row col [rows, cols] 8 = Inr i \<and> physical_index ''nz'' row col [rows, cols] 8 = Inr j)"
proof -
  have names: "py_lower (py_strip ''zn'') = ''zn''" "py_lower (py_strip ''nz'') = ''nz''" by code_simp+
  show ?thesis
    using assms
    by (simp add: make_zn_layout_def make_nz_layout_def split_args_def ele_num_per_c0_def
        physical_index_def validate_layout_def layout_constants in_matrix_def Let_def names)
qed

theorem layouts_disagree_for_64_bits_witness:
  "make_zn_layout (\<lambda>v. v) 64 [4, 4] [1, 2] = Inl (ZeroDivisionError ''division by zero'') \<and>
    make_nz_layout (\<lambda>v. v) 64 [4, 4] [1, 2] = Inl (ZeroDivisionError ''division by zero'') \<and>
    (\<exists>i j. physical_index ''zn'' 1 2 [4, 4] 8 = Inr i \<and> physical_index ''nz'' 1 2 [4, 4] 8 = Inr j)"
  by (rule layouts_disagree_for_64_bits) (simp add: in_matrix_def)

end
