(* ===== verification/Sim_Timing.thy ===== *)
theory Sim_Timing
  imports Sim_Program
begin

text \<open>
  The timing part of \<^verbatim>\<open>tilelang/simulator/profile.py\<close>: the validated cost table and the cost of a
  bridged task.  The estimator of \<^verbatim>\<open>pypto_timing.py\<close> is an argument here,
  as a function from operation, pipe and metadata to an optional cycle count.
\<close>

section \<open>Timing profiles\<close>

record timing_profile =
  tp_platform :: string
  tp_operation_cycles :: "(string, int) dict"
  tp_fallback_cycles :: int
  tp_calibration :: string
  tp_estimator :: string

fun normalize_cycles :: "(string, int) dict \<Rightarrow> (string, int) dict \<Rightarrow> (string, int) dict res" where
  "normalize_cycles normalized [] = Inr normalized"
| "normalize_cycles normalized ((name, cycles) # rest) =
     (if name = [] then Inl (SimulatorConfigError ''operation name must not be empty'')
      else if cycles \<le> 0 then Inl (SimulatorConfigError ''operation cycle count must be positive'')
      else normalize_cycles (dict_set name cycles normalized) rest)"

definition timing_estimators :: "string list" where
  "timing_estimators = [''fixed'', ''pto-fallback'', ''pypto-fast'', ''measured-linear'']"

text \<open>
  \<open>overrides\<close> tells whether the class of the object replaces \<open>estimate_task\<close>, which only a
  measured profile does.
\<close>

definition TimingProfile ::
  "bool \<Rightarrow> string \<Rightarrow> (string, int) dict \<Rightarrow> int \<Rightarrow> string \<Rightarrow> string \<Rightarrow> timing_profile res" where
  "TimingProfile overrides platform operation_cycles fallback_cycles calibration estimator =
     (case get_device_profile platform of
        Inl e \<Rightarrow> Inl e
      | Inr _ \<Rightarrow>
        if fallback_cycles \<le> 0 then Inl (SimulatorConfigError ''fallback_cycles must be positive'')
        else case normalize_cycles [] operation_cycles of
          Inl e \<Rightarrow> Inl e
        | Inr normalized \<Rightarrow> (case normalize_platform platform of
            Inl e \<Rightarrow> Inl e
          | Inr p \<Rightarrow>
            if estimator \<notin> set timing_estimators
            then Inl (SimulatorConfigError ''timing estimator must be one of: fixed, pto-fallback, pypto-fast, measured-linear'')
            else if estimator = ''measured-linear'' \<and> \<not> overrides
            then Inl (SimulatorConfigError ''measured-linear requires a measured calibration profile'')
            else Inr \<lparr>tp_platform = p, tp_operation_cycles = normalized,
                   tp_fallback_cycles = fallback_cycles, tp_calibration = calibration,
                   tp_estimator = estimator\<rparr>))"

definition estimate_cycles :: "timing_profile \<Rightarrow> string \<Rightarrow> int" where
  "estimate_cycles tp op = dict_get (tp_operation_cycles tp) op (tp_fallback_cycles tp)"

section \<open>Costs of a task\<close>

definition dtype_bytes :: "(string, int) dict" where
  "dtype_bytes =
    [(''float16'', 2), (''half'', 2), (''bfloat16'', 2), (''float32'', 4), (''float'', 4),
     (''int8'', 1), (''uint8'', 1), (''int16'', 2), (''uint16'', 2), (''int32'', 4), (''uint32'', 4)]"

text \<open>\<open>str(getattr(value, "dtype", missing))\<close>; only a region carries a \<open>dtype\<close>.\<close>

fun dtype_text :: "string \<Rightarrow> pyval \<Rightarrow> string" where
  "dtype_text missing (PRegion r) = br_dtype r"
| "dtype_text missing _ = missing"

fun concrete_extent :: "rt_int \<Rightarrow> int option" where
  "concrete_extent (RInt n) = (if 0 \<le> n then Some n else None)"
| "concrete_extent (RBool b) = Some (py_bool b)"
| "concrete_extent _ = None"

text \<open>The product of a shape whose extents are all concrete and non-negative.\<close>

fun shape_elements :: "rt_int list \<Rightarrow> int option" where
  "shape_elements [] = Some 1"
| "shape_elements (extent # rest) =
     (case (concrete_extent extent, shape_elements rest) of
        (Some n, Some m) \<Rightarrow> Some (n * m) | _ \<Rightarrow> None)"

fun region_elements :: "pyval \<Rightarrow> int option" where
  "region_elements (PRegion r) = shape_elements (br_shape r)"
| "region_elements _ = None"

definition first_some :: "'a option \<Rightarrow> 'a option \<Rightarrow> 'a option" where
  "first_some x y = (case x of None \<Rightarrow> y | Some v \<Rightarrow> Some v)"

definition timing_elements :: "metadata \<Rightarrow> int option" where
  "timing_elements md =
     (let itemsize = (\<lambda>key. map_of dtype_bytes (py_lower (dtype_text ''None'' (md_get md key))));
          from_bytes =
            (case py_int (md_get md ''transfer_bytes'') of
               None \<Rightarrow> None
             | Some transfer_bytes \<Rightarrow>
                 if 0 \<le> transfer_bytes
                 then map_option (\<lambda>size. transfer_bytes div size)
                        (first_some (itemsize ''src'') (itemsize ''dst''))
                 else None)
      in first_some from_bytes
           (first_some (region_elements (md_get md ''dst'')) (region_elements (md_get md ''src''))))"

definition timing_ceil_div :: "int \<Rightarrow> int \<Rightarrow> int" where
  "timing_ceil_div v divisor = (v + divisor - 1) div divisor"

definition positive_int :: "pyval \<Rightarrow> int option" where
  "positive_int v = (case py_int v of None \<Rightarrow> None | Some n \<Rightarrow> if 0 < n then Some n else None)"

definition pto_mma_cycles :: "metadata \<Rightarrow> int option" where
  "pto_mma_cycles md =
     (case md_get md ''mma'' of
        PMap details \<Rightarrow>
          (case (positive_int (md_get details ''rows''), positive_int (md_get details ''inner''),
                 positive_int (md_get details ''cols'')) of
             (Some rows, Some inner, Some cols) \<Rightarrow>
               (let dtype = py_lower (dtype_text [] (md_get md ''lhs''));
                    cost = (if dtype \<in> {''float32'', ''float''} then Some (4, 2)
                            else if dtype \<in> {''float16'', ''half''} then Some (2, 1) else None)
                in case cost of
                     None \<Rightarrow> None
                   | Some (element_bytes, repeat_cycles) \<Rightarrow>
                       (let k_tile = 32 div element_bytes;
                            repeats = timing_ceil_div rows 16 * timing_ceil_div inner k_tile
                                      * timing_ceil_div cols 16
                        in Some (6 + repeat_cycles * repeats)))
           | _ \<Rightarrow> None)
      | _ \<Rightarrow> None)"

definition bookkeeping_operations :: "string list" where
  "bookkeeping_operations =
    [''set_flag'', ''wait_flag'', ''auto_set_flag'', ''auto_wait_flag'', ''set_cross_flag'',
     ''wait_cross_flag'', ''auto_set_cross_flag'', ''auto_wait_cross_flag'', ''pipe_barrier'',
     ''barrier_all'']"

definition pto_fallback_cycles :: "timing_profile \<Rightarrow> string \<Rightarrow> string \<Rightarrow> metadata \<Rightarrow> int" where
  "pto_fallback_cycles tp op pipe_text md =
     (let elements = timing_elements md;
          normalized_pipe = py_lower (py_strip pipe_text);
          normalized_operation = py_lower (py_strip op)
      in if normalized_operation \<in> set bookkeeping_operations then 1
         else case (if normalized_pipe = ''m'' then pto_mma_cycles md else None) of
           Some mma_cycles \<Rightarrow> mma_cycles
         | None \<Rightarrow>
             (case elements of
                None \<Rightarrow> tp_fallback_cycles tp
              | Some n \<Rightarrow>
                  if normalized_pipe = ''m'' then 4 + n div 16
                  else if normalized_pipe \<in> {''mte2'', ''mte3'', ''fix''} then 3 + n * 2 div 64
                  else if normalized_pipe = ''mte1'' then 1 + n div 64
                  else if normalized_pipe = ''s'' then 1
                  else 2 + n div 32))"

definition estimate_task ::
  "(string \<Rightarrow> string \<Rightarrow> metadata \<Rightarrow> int option) \<Rightarrow> timing_profile \<Rightarrow> string \<Rightarrow> string \<Rightarrow> metadata \<Rightarrow> int" where
  "estimate_task pypto tp op pipe_text md =
     (case map_of (tp_operation_cycles tp) op of
        Some configured \<Rightarrow> configured
      | None \<Rightarrow>
          if tp_estimator tp = ''pypto-fast'' then
            (if op \<in> set bookkeeping_operations \<union> {''sync_all''} then 1
             else case pypto op pipe_text md of
                    None \<Rightarrow> tp_fallback_cycles tp
                  | Some cycles \<Rightarrow> max 1 cycles)
          else if tp_estimator tp \<noteq> ''pto-fallback'' then tp_fallback_cycles tp
          else pto_fallback_cycles tp op pipe_text md)"

text \<open>\<open>default_timing_profile\<close>; the measured A2 profile is an argument.\<close>

definition default_timing_profile :: "timing_profile \<Rightarrow> string \<Rightarrow> timing_profile res" where
  "default_timing_profile default_a2 platform =
     (case normalize_platform platform of
        Inl e \<Rightarrow> Inl e
      | Inr p \<Rightarrow>
          if p = ''A2'' then Inr default_a2
          else TimingProfile False p [] 1 ''pypto-fast-derived-uncalibrated-49587f3'' ''pypto-fast'')"

definition pto_fallback_timing_profile :: "string \<Rightarrow> timing_profile res" where
  "pto_fallback_timing_profile platform =
     (case normalize_platform platform of
        Inl e \<Rightarrow> Inl e
      | Inr p \<Rightarrow> TimingProfile False p [] 1 ''pto-perf-sim-derived-fallback'' ''pto-fallback'')"

section \<open>Every cost is positive\<close>

definition costs_positive :: "(string, int) dict \<Rightarrow> bool" where
  "costs_positive costs \<longleftrightarrow> (\<forall>op cycles. map_of costs op = Some cycles \<longrightarrow> op \<noteq> [] \<and> 0 < cycles)"

definition timing_wf :: "timing_profile \<Rightarrow> bool" where
  "timing_wf tp \<longleftrightarrow> tp_platform tp \<in> {''A2'', ''A3''} \<and> 0 < tp_fallback_cycles tp \<and>
     costs_positive (tp_operation_cycles tp)"

lemma costs_positive_set:
  "costs_positive costs \<Longrightarrow> op \<noteq> [] \<Longrightarrow> 0 < cycles \<Longrightarrow> costs_positive (dict_set op cycles costs)"
  by (simp add: costs_positive_def)

lemma normalize_cycles_positive:
  "normalize_cycles acc entries = Inr normalized \<Longrightarrow> costs_positive acc \<Longrightarrow> costs_positive normalized"
  by (induction acc entries rule: normalize_cycles.induct)
    (auto simp: costs_positive_set not_le split: if_split_asm)

lemma TimingProfile_wf: "TimingProfile overrides platform costs fallback calibration estimator = Inr tp \<Longrightarrow> timing_wf tp"
proof -
  assume "TimingProfile overrides platform costs fallback calibration estimator = Inr tp"
  then obtain p normalized where "normalize_platform platform = Inr p" "0 < fallback"
    "normalize_cycles [] costs = Inr normalized" "tp_platform tp = p" "tp_fallback_cycles tp = fallback"
    "tp_operation_cycles tp = normalized"
    unfolding TimingProfile_def by (auto split: sum.splits if_split_asm)
  then show ?thesis
    using normalize_cycles_positive [of "[]" costs] normalize_platform_Inr [of platform]
    by (auto simp: timing_wf_def costs_positive_def [of "[]"])
qed

lemma concrete_extent_nonneg: "concrete_extent e = Some n \<Longrightarrow> 0 \<le> n"
  by (cases e) (auto simp: py_bool_def split: if_splits)

lemma shape_elements_nonneg: "shape_elements shape = Some n \<Longrightarrow> 0 \<le> n"
  by (induction shape arbitrary: n rule: shape_elements.induct)
    (auto split: option.splits dest: concrete_extent_nonneg)

lemma dtype_bytes_positive: "map_of dtype_bytes d = Some n \<Longrightarrow> 0 < n"
  by (auto simp: dtype_bytes_def split: if_splits)

lemma timing_elements_nonneg: "timing_elements md = Some n \<Longrightarrow> 0 \<le> n"
proof -
  have region: "region_elements v = Some m \<Longrightarrow> 0 \<le> m" for v m
    by (cases v) (auto dest: shape_elements_nonneg)
  assume "timing_elements md = Some n"
  then show ?thesis
    by (auto simp: timing_elements_def first_some_def Let_def dest: dtype_bytes_positive region
        intro!: pos_imp_zdiv_nonneg_iff [THEN iffD2] split: option.splits if_splits)
qed

lemma timing_ceil_div_pos: "0 < v \<Longrightarrow> 0 < d \<Longrightarrow> 0 < timing_ceil_div v d"
  by (simp add: timing_ceil_div_def pos_imp_zdiv_pos_iff)

lemma pto_mma_cycles_pos: "pto_mma_cycles md = Some n \<Longrightarrow> 0 < n"
  by (auto simp: pto_mma_cycles_def positive_int_def Let_def timing_ceil_div_pos
      intro!: add_pos_pos mult_pos_pos split: pyval.splits option.splits if_splits)

lemma pto_fallback_cycles_pos: "timing_wf tp \<Longrightarrow> 0 < pto_fallback_cycles tp op pipe_text md"
  by (auto simp: pto_fallback_cycles_def timing_wf_def Let_def pos_imp_zdiv_nonneg_iff
      dest: pto_mma_cycles_pos timing_elements_nonneg intro!: add_pos_nonneg split: option.split if_split)



end
