(* ===== verification/Sim_Hazard.thy ===== *)
theory Sim_Hazard
  imports Sim_Program
begin

text \<open>
  \<^verbatim>\<open>tilelang/simulator/hazard.py\<close>: the reporter that ignores, records or raises a diagnostic.  A
  report changes the reporter and may raise after it has, so it returns the new reporter beside
  the outcome.  \<open>hr_warnings\<close> is what \<open>warnings.warn\<close> was called with.
\<close>

record hazard_diagnostic =
  hd_kind :: string
  hd_message :: string
  hd_buffer :: "string option"
  hd_core_id :: "int option"
  hd_start :: "int option"
  hd_end :: "int option"
  hd_metadata :: metadata

record hazard_reporter =
  hr_mode :: string
  hr_diagnostics :: "hazard_diagnostic list"
  hr_warnings :: "string list"

definition hazard_modes :: "string list" where
  "hazard_modes = [''off'', ''warn'', ''error'']"

definition HazardReporter :: "string \<Rightarrow> hazard_reporter res" where
  "HazardReporter mode =
     (if mode \<notin> set hazard_modes then Inl (ValueError ''hazard mode must be one of: off, warn, error'')
      else Inr \<lparr>hr_mode = mode, hr_diagnostics = [], hr_warnings = []\<rparr>)"

text \<open>\<open>error_type\<close> is the exception class to raise, as the constructor of its error value.\<close>

definition report ::
  "hazard_reporter \<Rightarrow> hazard_diagnostic \<Rightarrow> (string \<Rightarrow> sim_error) \<Rightarrow> hazard_reporter \<times> unit res" where
  "report r diagnostic error_type =
     (if hr_mode r = ''off'' then (r, Inr ())
      else let r' = r\<lparr>hr_diagnostics := hr_diagnostics r @ [diagnostic]\<rparr>
           in if hr_mode r = ''warn''
              then (r'\<lparr>hr_warnings := hr_warnings r @ [hd_message diagnostic]\<rparr>, Inr ())
              else (r', Inl (error_type (hd_message diagnostic))))"

fun report_all ::
  "hazard_reporter \<Rightarrow> (hazard_diagnostic \<times> (string \<Rightarrow> sim_error)) list \<Rightarrow> hazard_reporter \<times> unit res" where
  "report_all r [] = (r, Inr ())"
| "report_all r ((d, error_type) # ds) =
     (case report r d error_type of
        (r', Inl e) \<Rightarrow> (r', Inl e)
      | (r', Inr _) \<Rightarrow> report_all r' ds)"

lemma report_all_warn:
  "hr_mode r = ''warn'' \<Longrightarrow> report_all r ds =
     (r\<lparr>hr_diagnostics := hr_diagnostics r @ map fst ds,
        hr_warnings := hr_warnings r @ map (hd_message \<circ> fst) ds\<rparr>, Inr ())"
  by (induction r ds rule: report_all.induct) (auto simp: report_def Let_def)

lemma report_all_off: "hr_mode r = ''off'' \<Longrightarrow> report_all r ds = (r, Inr ())"
  by (induction r ds rule: report_all.induct) (auto simp: report_def)

text \<open>
  A reporter built by the constructor keeps its policy through any sequence of reports: \<open>off\<close>
  records nothing and never raises, \<open>warn\<close> records every diagnostic in report order and never
  raises, and \<open>error\<close> raises at the first report, with its own message, having recorded it.
\<close>

theorem reporter_policy:
  assumes "HazardReporter mode = Inr r"
  shows "(mode = ''off'' \<longrightarrow> report_all r ds = (r, Inr ())) \<and>
    (mode = ''warn'' \<longrightarrow> (\<exists>r'. report_all r ds = (r', Inr ()) \<and> hr_diagnostics r' = map fst ds \<and>
        hr_warnings r' = map (hd_message \<circ> fst) ds)) \<and>
    (mode = ''error'' \<longrightarrow> (\<forall>d err rest. ds = (d, err) # rest \<longrightarrow>
        (\<exists>r'. report_all r ds = (r', Inl (err (hd_message d))) \<and> hr_diagnostics r' = [d])))"
  using assms
  by (auto simp: HazardReporter_def report_all_off report_all_warn report_def Let_def split: if_splits)

theorem reporter_policy_witness:
  "\<exists>r. HazardReporter ''warn'' = Inr r \<and>
    (\<exists>r'. report_all r [(\<lparr>hd_kind = ''overlap'', hd_message = ''m'', hd_buffer = Some ''a'', hd_core_id = None,
        hd_start = Some 0, hd_end = Some 8, hd_metadata = []\<rparr>, MemoryHazardError)] = (r', Inr ()) \<and>
      hr_warnings r' = [''m''])"
proof -
  have "HazardReporter ''warn'' = Inr \<lparr>hr_mode = ''warn'', hr_diagnostics = [], hr_warnings = []\<rparr>"
    by code_simp
  from reporter_policy [OF this, of "[(\<lparr>hd_kind = ''overlap'', hd_message = ''m'', hd_buffer = Some ''a'',
      hd_core_id = None, hd_start = Some 0, hd_end = Some 8, hd_metadata = []\<rparr>, MemoryHazardError)]"] this
  show ?thesis by fastforce
qed

end
