(* ===== verification/Sim_Config.thy ===== *)
theory Sim_Config
  imports Complex_Main Sim_Timing Sim_Hazard
begin

text \<open>
  \<^verbatim>\<open>tilelang/simulator/config.py\<close>: the validated settings of a run.  A field whose type the
  constructor tests is an \<open>int_like\<close> argument; the timeout is the rational value of the float.
\<close>

record simulator_config =
  sc_platform :: string
  sc_trace_path :: "string option"
  sc_hazard_check :: string
  sc_sync_only :: bool
  sc_dynamic_if :: string
  sc_deadlock_detect :: bool
  sc_deadlock_history_limit :: int
  sc_flag_balance_check :: string
  sc_flag_blocking :: bool
  sc_local_flag_depth :: int
  sc_cross_flag_depth :: int
  sc_execution_timeout_s :: rat
  sc_max_cycles :: "int option"
  sc_timing_profile :: timing_profile

text \<open>The arguments of the constructor before validation.\<close>

record config_args =
  ca_platform :: string
  ca_trace_path :: "string option"
  ca_hazard_check :: string
  ca_sync_only :: int_like
  ca_dynamic_if :: string
  ca_deadlock_detect :: int_like
  ca_deadlock_history_limit :: int_like
  ca_flag_balance_check :: string
  ca_flag_blocking :: int_like
  ca_local_flag_depth :: int_like
  ca_cross_flag_depth :: int_like
  ca_execution_timeout_s :: rat
  ca_max_cycles :: "int option"
  ca_timing_profile :: "timing_profile option"

definition default_args :: config_args where
  "default_args = \<lparr>ca_platform = ''A2'', ca_trace_path = None, ca_hazard_check = ''error'',
     ca_sync_only = BoolVal False, ca_dynamic_if = ''error'', ca_deadlock_detect = BoolVal True,
     ca_deadlock_history_limit = IntVal 8, ca_flag_balance_check = ''error'',
     ca_flag_blocking = BoolVal False, ca_local_flag_depth = IntVal 1, ca_cross_flag_depth = IntVal 15,
     ca_execution_timeout_s = 120, ca_max_cycles = None, ca_timing_profile = None\<rparr>"

fun require_bool :: "string \<Rightarrow> int_like \<Rightarrow> bool res" where
  "require_bool message (BoolVal b) = Inr b"
| "require_bool message _ = Inl (SimulatorConfigError message)"

fun require_positive_int :: "string \<Rightarrow> int_like \<Rightarrow> int res" where
  "require_positive_int message (IntVal n) =
     (if n \<le> 0 then Inl (SimulatorConfigError message) else Inr n)"
| "require_positive_int message _ = Inl (SimulatorConfigError message)"

definition dynamic_if_modes :: "string list" where
  "dynamic_if_modes = [''error'', ''then'', ''else'']"

text \<open>The checks after the flags have been read; \<open>default_a2\<close> is the measured A2 profile.\<close>

definition resolve_timing :: "timing_profile \<Rightarrow> timing_profile option \<Rightarrow> string \<Rightarrow> timing_profile res" where
  "resolve_timing default_a2 given platform =
     (case (case given of Some tp \<Rightarrow> Inr tp | None \<Rightarrow> default_timing_profile default_a2 platform) of
        Inl e \<Rightarrow> Inl e
      | Inr tp \<Rightarrow>
          if tp_platform tp \<noteq> platform
          then Inl (SimulatorConfigError ''timing profile platform does not match simulator platform'')
          else Inr tp)"

definition require :: "bool \<Rightarrow> string \<Rightarrow> unit res" where
  "require ok message = (if ok then Inr () else Inl (SimulatorConfigError message))"

definition SimulatorConfig :: "timing_profile \<Rightarrow> config_args \<Rightarrow> simulator_config res" where
  "SimulatorConfig default_a2 a =
     and_then (normalize_platform (ca_platform a)) (\<lambda>platform.
     and_then (require (ca_hazard_check a \<in> set hazard_modes) ''hazard_check must be one of: off, warn, error'') (\<lambda>_.
     and_then (require_bool ''sync_only must be a boolean'' (ca_sync_only a)) (\<lambda>sync_only.
     and_then (require (ca_dynamic_if a \<in> set dynamic_if_modes) ''dynamic_if must be one of: error, then, else'') (\<lambda>_.
     and_then (require_bool ''deadlock_detect must be a boolean'' (ca_deadlock_detect a)) (\<lambda>deadlock_detect.
     and_then (require_positive_int ''deadlock_history_limit must be a positive integer''
       (ca_deadlock_history_limit a)) (\<lambda>history_limit.
     and_then (require (ca_flag_balance_check a \<in> set hazard_modes)
       ''flag_balance_check must be one of: off, warn, error'') (\<lambda>_.
     and_then (require_bool ''flag_blocking must be a boolean'' (ca_flag_blocking a)) (\<lambda>flag_blocking.
     and_then (require_positive_int ''local_flag_depth must be a positive integer'' (ca_local_flag_depth a)) (\<lambda>local_depth.
     and_then (require_positive_int ''cross_flag_depth must be a positive integer'' (ca_cross_flag_depth a)) (\<lambda>cross_depth.
     and_then (require (0 < ca_execution_timeout_s a) ''execution_timeout_s must be positive'') (\<lambda>_.
     and_then (require (case ca_max_cycles a of None \<Rightarrow> True | Some n \<Rightarrow> 0 < n)
       ''max_cycles must be positive when specified'') (\<lambda>_.
     and_then (resolve_timing default_a2 (ca_timing_profile a) platform) (\<lambda>timing.
     Inr \<lparr>sc_platform = platform, sc_trace_path = ca_trace_path a, sc_hazard_check = ca_hazard_check a,
          sc_sync_only = sync_only, sc_dynamic_if = ca_dynamic_if a, sc_deadlock_detect = deadlock_detect,
          sc_deadlock_history_limit = history_limit, sc_flag_balance_check = ca_flag_balance_check a,
          sc_flag_blocking = flag_blocking, sc_local_flag_depth = local_depth,
          sc_cross_flag_depth = cross_depth, sc_execution_timeout_s = ca_execution_timeout_s a,
          sc_max_cycles = ca_max_cycles a, sc_timing_profile = timing\<rparr>)))))))))))))"

definition config_device_profile :: "simulator_config \<Rightarrow> device_profile res" where
  "config_device_profile c = get_device_profile (sc_platform c)"

definition config_wf :: "simulator_config \<Rightarrow> bool" where
  "config_wf c \<longleftrightarrow> sc_platform c \<in> {''A2'', ''A3''} \<and> sc_hazard_check c \<in> set hazard_modes \<and>
     sc_dynamic_if c \<in> set dynamic_if_modes \<and> 0 < sc_deadlock_history_limit c \<and>
     sc_flag_balance_check c \<in> set hazard_modes \<and> 0 < sc_local_flag_depth c \<and>
     0 < sc_cross_flag_depth c \<and> 0 < sc_execution_timeout_s c \<and>
     (\<forall>n. sc_max_cycles c = Some n \<longrightarrow> 0 < n) \<and> tp_platform (sc_timing_profile c) = sc_platform c"

lemma require_Inr [simp]: "require ok message = Inr u \<longleftrightarrow> ok"
  by (simp add: require_def)

lemma require_positive_int_Inr [simp]: "require_positive_int message v = Inr n \<longleftrightarrow> v = IntVal n \<and> 0 < n"
  by (cases v) auto

lemma require_bool_Inr [simp]: "require_bool message v = Inr b \<longleftrightarrow> v = BoolVal b"
  by (cases v) auto

lemma resolve_timing_Inr: "resolve_timing default_a2 given platform = Inr tp \<Longrightarrow> tp_platform tp = platform"
  by (auto simp: resolve_timing_def split: sum.splits if_splits)



end
