(* ===== verification/Sim_Intervals.thy ===== *)
theory Sim_Intervals
  imports Sim_Prelude
begin

text \<open>
  Half-open integer intervals and the sweeps the sources run over them: the length of a union
  (\<open>_union_length\<close> of stats.py and \<open>_merged_range_size\<close> of memory.py are the same loop), the merge
  of overlapping or touching intervals (trace.py and report.py) and the length of an intersection
  (report.py).  \<open>cover\<close> is the set of cycles or bytes an interval list stands for; the sweeps are
  proved to compute its cardinality or to keep it.
\<close>

section \<open>Sweeps\<close>

type_synonym interval = "int \<times> int"

fun union_sweep :: "int \<Rightarrow> int \<Rightarrow> int \<Rightarrow> interval list \<Rightarrow> int" where
  "union_sweep so_far current_start current_end [] = so_far + current_end - current_start"
| "union_sweep so_far current_start current_end ((start, stop) # rest) =
     (if start \<le> current_end
      then union_sweep so_far current_start (max current_end stop) rest
      else union_sweep (so_far + (current_end - current_start)) start stop rest)"

definition union_length :: "interval list \<Rightarrow> int" where
  "union_length intervals =
     (case sort intervals of
        [] \<Rightarrow> 0
      | (start, stop) # rest \<Rightarrow> union_sweep 0 start stop rest)"

definition merge_step :: "interval list \<Rightarrow> interval \<Rightarrow> interval list" where
  "merge_step merged = (\<lambda>(start, stop).
     if merged \<noteq> [] \<and> start \<le> snd (last merged)
     then butlast merged @ [(fst (last merged), max (snd (last merged)) stop)]
     else merged @ [(start, stop)])"

definition merge_intervals :: "interval list \<Rightarrow> interval list" where
  "merge_intervals intervals = foldl merge_step [] (sort intervals)"

fun intersection_sweep :: "int \<Rightarrow> interval list \<Rightarrow> interval list \<Rightarrow> int" where
  "intersection_sweep so_far [] right = so_far"
| "intersection_sweep so_far left [] = so_far"
| "intersection_sweep so_far ((ls, le) # left) ((rs, re) # right) =
     (let start = max ls rs; stop = min le re; so_far' = so_far + max 0 (stop - start)
      in if le \<le> re then intersection_sweep so_far' left ((rs, re) # right)
         else intersection_sweep so_far' ((ls, le) # left) right)"

definition intersection_length :: "interval list \<Rightarrow> interval list \<Rightarrow> int" where
  "intersection_length left right = intersection_sweep 0 left right"

section \<open>What they compute\<close>

definition cover :: "interval list \<Rightarrow> int set" where
  "cover intervals = (\<Union>(start, stop) \<in> set intervals. {start..<stop})"

definition proper :: "interval list \<Rightarrow> bool" where
  "proper intervals \<longleftrightarrow> (\<forall>(start, stop) \<in> set intervals. start \<le> stop)"

lemma cover_simps [simp]: "cover [] = {}" "cover ((s, e) # ivs) = {s..<e} \<union> cover ivs"
  "cover (xs @ ys) = cover xs \<union> cover ys"
  by (auto simp: cover_def)

lemma cover_set: "set xs = set ys \<Longrightarrow> cover xs = cover ys"
  by (simp add: cover_def)

lemma finite_cover [simp]: "finite (cover ivs)"
  by (auto simp: cover_def)

lemma proper_simps [simp]: "proper []" "proper ((s, e) # ivs) \<longleftrightarrow> s \<le> e \<and> proper ivs"
  "proper (xs @ ys) \<longleftrightarrow> proper xs \<and> proper ys"
  by (auto simp: proper_def)

lemma proper_sort [simp]: "proper (sort ivs) = proper ivs"
  by (simp add: proper_def)

lemma cover_sort [simp]: "cover (sort ivs) = cover ivs"
  by (rule cover_set) simp

lemma cover_ge: "\<forall>(s, e) \<in> set ivs. lo \<le> s \<Longrightarrow> x \<in> cover ivs \<Longrightarrow> lo \<le> x"
  by (auto simp: cover_def)

lemma card_interval [simp]: "s \<le> e \<Longrightarrow> int (card {s..<e :: int}) = e - s"
  by simp

lemma union_sweep_card:
  assumes "s \<le> e" and "proper ivs" and "sorted ((s, e') # ivs)"
  shows "union_sweep so_far s e ivs = so_far + int (card ({s..<e} \<union> cover ivs))"
  using assms
proof (induction so_far s e ivs arbitrary: e' rule: union_sweep.induct)
  case (1 so_far s e)
  then show ?case by simp
next
  case (2 so_far s e start stop rest)
  from "2.prems" have le: "s \<le> start" "start \<le> stop" "proper rest" by auto
  show ?case
  proof (cases "start \<le> e")
    case True
    have merged: "{s..<e} \<union> {start..<stop} = {s..<max e stop}" using True le by auto
    have "sorted ((s, e') # rest)" using "2.prems"(3) by simp
    with "2.IH"(1) [OF True _ le(3), of e'] "2.prems"(1) True show ?thesis
      by (simp add: Un_assoc [symmetric] merged)
  next
    case False
    have "sorted ((start, stop) # rest)" using "2.prems"(3) by simp
    with "2.IH"(2) [OF False le(2,3), of stop] have
      rest: "union_sweep so_far s e ((start, stop) # rest) =
        so_far + (e - s) + int (card ({start..<stop} \<union> cover rest))"
      using False by simp
    have "\<forall>(a, b) \<in> set rest. start \<le> a" using "2.prems"(3) by (auto simp: less_eq_prod_def)
    then have "x \<in> {start..<stop} \<union> cover rest \<Longrightarrow> start \<le> x" for x
      using cover_ge [of rest start x] by auto
    then have disj: "{s..<e} \<inter> ({start..<stop} \<union> cover rest) = {}"
      using False by (metis disjoint_iff atLeastLessThan_iff less_le_not_le order_le_less_trans)
    have "card ({s..<e} \<union> ({start..<stop} \<union> cover rest)) =
        card {s..<e} + card ({start..<stop} \<union> cover rest)"
      by (rule card_Un_disjoint) (use disj in auto)
    with rest "2.prems"(1) show ?thesis by simp
  qed
qed

lemma union_length_card: "proper ivs \<Longrightarrow> union_length ivs = int (card (cover ivs))"
proof -
  assume p: "proper ivs"
  show ?thesis
  proof (cases "sort ivs")
    case Nil
    then have "ivs = []" by (metis length_0_conv length_sort)
    then show ?thesis by (simp add: union_length_def)
  next
    case (Cons iv rest)
    obtain s e where iv: "iv = (s, e)" by (cases iv)
    have "proper ((s, e) # rest)" "sorted ((s, e) # rest)"
      using p proper_sort [of ivs] sorted_sort [of ivs] unfolding Cons iv by auto
    then have "union_length ivs = int (card ({s..<e} \<union> cover rest))"
      using union_sweep_card [of s e rest e 0] by (simp add: union_length_def Cons iv)
    also have "{s..<e} \<union> cover rest = cover ivs"
      using cover_sort [of ivs] by (simp add: Cons iv del: cover_sort)
    finally show ?thesis .
  qed
qed

text \<open>Merged intervals are in order, and a gap separates each from the next.\<close>

fun separated :: "interval list \<Rightarrow> bool" where
  "separated [] = True"
| "separated [iv] = True"
| "separated (iv # iv' # ivs) = (snd iv < fst iv' \<and> separated (iv' # ivs))"

lemma separated_append:
  "separated (xs @ [iv]) \<longleftrightarrow> separated xs \<and> (xs \<noteq> [] \<longrightarrow> snd (last xs) < fst iv)"
  by (induction xs rule: separated.induct) auto

lemma merge_step_inv:
  assumes "proper merged" "separated merged" "s \<le> e" "merged \<noteq> [] \<Longrightarrow> fst (last merged) \<le> s"
  shows "proper (merge_step merged (s, e)) \<and> separated (merge_step merged (s, e)) \<and>
    merge_step merged (s, e) \<noteq> [] \<and> fst (last (merge_step merged (s, e))) \<le> s \<and>
    cover (merge_step merged (s, e)) = cover merged \<union> {s..<e}"
proof (cases "merged \<noteq> [] \<and> s \<le> snd (last merged)")
  case True
  then obtain xs a b where m: "merged = xs @ [(a, b)]" by (metis append_butlast_last_id surj_pair)
  have "{a..<b} \<union> {s..<e} = {a..<max b e}" using True assms by (auto simp: m)
  with True assms show ?thesis by (auto simp: merge_step_def m separated_append)
next
  case False
  with assms show ?thesis by (auto simp: merge_step_def separated_append)
qed

lemma foldl_merge_inv:
  assumes "proper ivs" "sorted ivs" "proper merged" "separated merged"
    "merged \<noteq> [] \<Longrightarrow> \<forall>iv \<in> set ivs. fst (last merged) \<le> fst iv"
  shows "proper (foldl merge_step merged ivs) \<and> separated (foldl merge_step merged ivs) \<and>
    cover (foldl merge_step merged ivs) = cover merged \<union> cover ivs"
  using assms
proof (induction ivs arbitrary: merged)
  case Nil
  then show ?case by simp
next
  case (Cons iv ivs)
  obtain s e where iv: "iv = (s, e)" by (cases iv)
  have step: "proper (merge_step merged (s, e)) \<and> separated (merge_step merged (s, e)) \<and>
    merge_step merged (s, e) \<noteq> [] \<and> fst (last (merge_step merged (s, e))) \<le> s \<and>
    cover (merge_step merged (s, e)) = cover merged \<union> {s..<e}"
    using Cons.prems by (intro merge_step_inv) (auto simp: iv)
  have "\<forall>iv' \<in> set ivs. s \<le> fst iv'" using Cons.prems(2) by (auto simp: iv less_eq_prod_def)
  then have later: "\<forall>iv' \<in> set ivs. fst (last (merge_step merged (s, e))) \<le> fst iv'"
    using step by force
  have "proper ivs" "sorted ivs" using Cons.prems by (auto simp: iv)
  from Cons.IH [OF this, of "merge_step merged (s, e)"] step later show ?case
    by (simp add: iv Un_assoc)
qed

lemma merge_intervals_correct:
  "proper ivs \<Longrightarrow> proper (merge_intervals ivs) \<and> separated (merge_intervals ivs) \<and>
     cover (merge_intervals ivs) = cover ivs"
  using foldl_merge_inv [of "sort ivs" "[]"] by (simp add: merge_intervals_def)

text \<open>Merging invents no end points.\<close>

lemma foldl_merge_ends:
  "iv \<in> set (foldl merge_step merged ivs) \<Longrightarrow>
     fst iv \<in> fst ` set merged \<union> fst ` set ivs \<and> snd iv \<in> snd ` set merged \<union> snd ` set ivs"
proof (induction ivs arbitrary: merged)
  case (Cons a ivs)
  have "fst ` set (merge_step merged a) \<subseteq> insert (fst a) (fst ` set merged)"
    "snd ` set (merge_step merged a) \<subseteq> insert (snd a) (snd ` set merged)"
    by (auto simp: merge_step_def max_def split: prod.splits if_splits dest: in_set_butlastD)
  with Cons.IH [of "merge_step merged a"] Cons.prems show ?case by auto
qed auto

lemma merge_intervals_ends:
  "iv \<in> set (merge_intervals ivs) \<Longrightarrow> fst iv \<in> fst ` set ivs \<and> snd iv \<in> snd ` set ivs"
  using foldl_merge_ends [of iv "[]" "sort ivs"] by (simp add: merge_intervals_def)

lemma separated_ConsD:
  "separated ((s, e) # ivs) \<Longrightarrow> proper ((s, e) # ivs) \<Longrightarrow> separated ivs \<and> (\<forall>(a, b) \<in> set ivs. e < a)"
proof (induction ivs arbitrary: s e)
  case Nil
  then show ?case by simp
next
  case (Cons iv ivs)
  obtain a b where iv: "iv = (a, b)" by (cases iv)
  from Cons.prems have "separated ((a, b) # ivs)" "proper ((a, b) # ivs)" "e < a" "a \<le> b"
    by (auto simp: iv)
  with Cons.IH [of a b] show ?case by (fastforce simp: iv)
qed

lemma cover_separated_disjoint:
  "separated ((s, e) # ivs) \<Longrightarrow> proper ((s, e) # ivs) \<Longrightarrow> x \<in> cover ivs \<Longrightarrow> e < x"
  using separated_ConsD [of s e ivs] by (fastforce simp: cover_def)

lemma intersection_sweep_card:
  assumes "proper left" "separated left" "proper right" "separated right"
  shows "intersection_sweep so_far left right = so_far + int (card (cover left \<inter> cover right))"
  using assms
proof (induction so_far left right rule: intersection_sweep.induct)
  case (3 so_far ls le left rs re right)
  have l: "proper left" "separated left" "ls \<le> le" and r: "proper right" "separated right" "rs \<le> re"
    using separated_ConsD [OF "3.prems"(2,1)] separated_ConsD [OF "3.prems"(4,3)] "3.prems"(1,3) by simp_all
  have l_late: "x \<in> cover left \<Longrightarrow> le < x" for x
    by (rule cover_separated_disjoint [OF "3.prems"(2,1)])
  have r_late: "x \<in> cover right \<Longrightarrow> re < x" for x
    by (rule cover_separated_disjoint [OF "3.prems"(4,3)])
  have piece: "{ls..<le} \<inter> {rs..<re} = {max ls rs..<min le re}" by auto
  have size: "int (card {max ls rs..<min le re}) = max 0 (min le re - max ls rs)"
    unfolding card_atLeastLessThan_int int_nat_eq max_def [of 0] by (rule refl)
  show ?case
  proof (cases "le \<le> re")
    case True
    have "{ls..<le} \<inter> cover right = {}" using True r_late by force
    then have "cover ((ls, le) # left) \<inter> cover ((rs, re) # right) =
        {max ls rs..<min le re} \<union> (cover left \<inter> cover ((rs, re) # right))"
      unfolding piece [symmetric] cover_simps by blast
    moreover have "{max ls rs..<min le re} \<inter> cover left = {}" using l_late by force
    then have "{max ls rs..<min le re} \<inter> (cover left \<inter> cover ((rs, re) # right)) = {}" by blast
    ultimately have "card (cover ((ls, le) # left) \<inter> cover ((rs, re) # right)) =
        card {max ls rs..<min le re} + card (cover left \<inter> cover ((rs, re) # right))"
      by (simp add: card_Un_disjoint del: cover_simps)
    then show ?thesis
      using "3.IH"(1) [OF refl refl refl True l(1,2)] "3.prems"(3,4) True size
      by (simp add: Let_def del: cover_simps)
  next
    case False
    have "{rs..<re} \<inter> cover left = {}" using False l_late by force
    then have "cover ((ls, le) # left) \<inter> cover ((rs, re) # right) =
        {max ls rs..<min le re} \<union> (cover ((ls, le) # left) \<inter> cover right)"
      unfolding piece [symmetric] cover_simps by blast
    moreover have "{max ls rs..<min le re} \<inter> cover right = {}" using r_late by force
    then have "{max ls rs..<min le re} \<inter> (cover ((ls, le) # left) \<inter> cover right) = {}" by blast
    ultimately have "card (cover ((ls, le) # left) \<inter> cover ((rs, re) # right)) =
        card {max ls rs..<min le re} + card (cover ((ls, le) # left) \<inter> cover right)"
      by (simp add: card_Un_disjoint del: cover_simps)
    then show ?thesis
      using "3.IH"(2) [OF refl refl refl False "3.prems"(1,2) r(1,2)] False size
      by (simp add: Let_def del: cover_simps)
  qed
qed auto

end
