(* ===== verification/Sim_Views.thy ===== *)
theory Sim_Views
  imports Sim_Program Sim_Intervals
begin

text \<open>
  The address arithmetic of \<^verbatim>\<open>tilelang/simulator/memory.py\<close>: element widths, byte strides,
  half-open address ranges, and the ranges a strided view touches, in logical element order
  (\<open>address_ranges\<close>) and as a byte union (\<open>physical_address_ranges\<close>).
\<close>

section \<open>Element widths\<close>

definition is_digit :: "char \<Rightarrow> bool" where
  "is_digit c \<longleftrightarrow> (let n = (of_char c :: nat) in 48 \<le> n \<and> n \<le> 57)"

text \<open>The four spellings before the digits of \<open>_DTYPE_PATTERN\<close>.\<close>

definition dtype_stem :: "string \<Rightarrow> string option" where
  "dtype_stem s =
     (if py_startswith s ''uint'' then Some (drop 4 s)
      else if py_startswith s ''int'' then Some (drop 3 s)
      else if py_startswith s ''float'' then Some (drop 5 s)
      else if py_startswith s ''bfloat'' then Some (drop 6 s)
      else None)"

text \<open>A full match of the pattern, as the bit count and the lane count (1 when absent).\<close>

definition dtype_match :: "string \<Rightarrow> (int \<times> int) option" where
  "dtype_match s =
     (case dtype_stem s of
        None \<Rightarrow> None
      | Some rest \<Rightarrow>
          (let bits = takeWhile is_digit rest; suffix = dropWhile is_digit rest
           in if bits = [] then None
              else case suffix of
                [] \<Rightarrow> Some (int (decimal_value bits), 1)
              | c # lanes \<Rightarrow>
                  if c = CHR ''x'' \<and> lanes \<noteq> [] \<and> list_all is_digit lanes
                  then Some (int (decimal_value bits), int (decimal_value lanes)) else None))"

definition dtype_size_bytes :: "string \<Rightarrow> int res" where
  "dtype_size_bytes dtype =
     (let normalized = py_lower (py_strip dtype)
      in if normalized = ''bool'' then Inr 1
         else case dtype_match normalized of
           None \<Rightarrow> Inl (ProgramValidationError ''unsupported simulator dtype'')
         | Some (bits, lanes) \<Rightarrow>
             if bits \<le> 0 \<or> bits mod 8 \<noteq> 0
             then Inl (ProgramValidationError ''dtype must use a positive whole-byte width'')
             else Inr (bits div 8 * lanes))"

lemma dtype_size_nonneg: "dtype_size_bytes dtype = Inr n \<Longrightarrow> 0 \<le> n"
  by (auto simp: dtype_size_bytes_def dtype_match_def Let_def pos_imp_zdiv_nonneg_iff
      split: if_splits option.splits list.splits)

section \<open>Strides and ranges\<close>

fun strides_from :: "int \<Rightarrow> int list \<Rightarrow> int list" where
  "strides_from stride [] = []"
| "strides_from stride (extent # rest) = stride # strides_from (stride * extent) rest"

definition contiguous_strides_bytes :: "int list \<Rightarrow> int \<Rightarrow> int list" where
  "contiguous_strides_bytes shape itemsize = rev (strides_from itemsize (rev shape))"

definition AddressRange :: "int \<Rightarrow> int \<Rightarrow> interval res" where
  "AddressRange start stop =
     (if start < 0 \<or> stop < start then Inl (MemoryBoundsError ''invalid address range'')
      else Inr (start, stop))"

definition range_size :: "interval \<Rightarrow> int" where
  "range_size r = snd r - fst r"

definition overlaps :: "interval \<Rightarrow> interval \<Rightarrow> bool" where
  "overlaps a b \<longleftrightarrow> fst a < snd b \<and> fst b < snd a"

section \<open>Views\<close>

text \<open>
  An allocation and a view of it.  \<open>ma_id\<close> is the identity \<open>id(allocation)\<close>; the bytes live in the
  address space \<open>ma_space\<close> of the runtime.
\<close>

record memory_allocation =
  ma_id :: nat
  ma_spec :: buffer_spec
  ma_size_bytes :: int
  ma_address :: int
  ma_core_id :: "int option"
  ma_space :: "memory_scope \<times> int option"

record memory_view =
  mv_allocation :: memory_allocation
  mv_byte_offset :: int
  mv_shape :: "int list"
  mv_dtype :: string
  mv_strides_bytes :: "int list"

definition dot :: "int list \<Rightarrow> int list \<Rightarrow> int" where
  "dot indices strides = sum_list (map2 (*) indices strides)"

definition mv_start :: "memory_view \<Rightarrow> int" where
  "mv_start v = ma_address (mv_allocation v) + mv_byte_offset v"

definition byte_range :: "memory_view \<Rightarrow> interval res" where
  "byte_range v =
     (let start = mv_start v
      in if 0 \<in> set (mv_shape v) then AddressRange start start
         else let last = dot (map (\<lambda>extent. extent - 1) (mv_shape v)) (mv_strides_bytes v)
              in case dtype_size_bytes (mv_dtype v) of
                   Inl e \<Rightarrow> Inl e
                 | Inr itemsize \<Rightarrow> AddressRange start (start + last + itemsize))"

definition view_nbytes :: "memory_view \<Rightarrow> int res" where
  "view_nbytes v = map_sum id (\<lambda>itemsize. prod_list (mv_shape v) * itemsize) (dtype_size_bytes (mv_dtype v))"

text \<open>\<open>product(*(range(extent) for extent in shape))\<close>, in the order of the iterator.\<close>

definition index_tuples :: "int list \<Rightarrow> int list list" where
  "index_tuples shape = product_lists (map (\<lambda>extent. [0..extent - 1]) shape)"

text \<open>Append a range, or extend the last one when it ends where the new one starts.\<close>

definition join_range :: "interval list \<Rightarrow> interval \<Rightarrow> interval list" where
  "join_range ranges current =
     (if ranges \<noteq> [] \<and> snd (last ranges) = fst current
      then butlast ranges @ [(fst (last ranges), snd current)]
      else ranges @ [current])"

definition join_tuple :: "int \<Rightarrow> int \<Rightarrow> int list \<Rightarrow> interval list \<Rightarrow> int list \<Rightarrow> interval list res" where
  "join_tuple start width strides ranges indices =
     (let s = start + dot indices strides
      in case AddressRange s (s + width) of
           Inl e \<Rightarrow> Inl e
         | Inr current \<Rightarrow> Inr (join_range ranges current))"

definition address_ranges :: "memory_view \<Rightarrow> interval list res" where
  "address_ranges v =
     (if 0 \<in> set (mv_shape v) then Inr []
      else case dtype_size_bytes (mv_dtype v) of
        Inl e \<Rightarrow> Inl e
      | Inr itemsize \<Rightarrow>
          let start = mv_start v; shape = mv_shape v; strides = mv_strides_bytes v in
          if strides = contiguous_strides_bytes shape itemsize
          then map_sum id (\<lambda>r. [r]) (byte_range v)
          else if shape \<noteq> [] \<and> last strides = itemsize
          then for_each (join_tuple start (last shape * itemsize) (butlast strides)) []
                 (index_tuples (butlast shape))
          else for_each (join_tuple start itemsize strides) [] (index_tuples shape))"

text \<open>The scan of \<open>physical_address_ranges\<close>: extents in order of stride, each as wide as the block below.\<close>

fun dense_from :: "int \<Rightarrow> (int \<times> int) list \<Rightarrow> bool" where
  "dense_from expected_stride [] = True"
| "dense_from expected_stride ((extent, stride) # rest) =
     (if extent \<le> 1 then dense_from expected_stride rest
      else if stride \<noteq> expected_stride then False
      else dense_from (expected_stride * extent) rest)"

definition physical_address_ranges :: "memory_view \<Rightarrow> interval list res" where
  "physical_address_ranges v =
     (if 0 \<in> set (mv_shape v) then Inr []
      else case dtype_size_bytes (mv_dtype v) of
        Inl e \<Rightarrow> Inl e
      | Inr itemsize \<Rightarrow>
          if dense_from itemsize (sort_key snd (zip (mv_shape v) (mv_strides_bytes v)))
          then map_sum id (\<lambda>r. [r]) (byte_range v)
          else map_sum id merge_intervals (address_ranges v))"


section \<open>Reference order of the bytes of a view\<close>

definition range_bytes :: "interval list \<Rightarrow> int list" where
  "range_bytes ranges = concat (map (\<lambda>(start, stop). [start..stop - 1]) ranges)"

definition tuple_bytes :: "int \<Rightarrow> int \<Rightarrow> int list \<Rightarrow> int list list \<Rightarrow> int list" where
  "tuple_bytes start width strides tuples =
     concat (map (\<lambda>indices. [start + dot indices strides..start + dot indices strides + width - 1]) tuples)"

text \<open>Every element of the view in index order, each with its bytes in order.\<close>

definition element_bytes :: "memory_view \<Rightarrow> int \<Rightarrow> int list" where
  "element_bytes v itemsize = tuple_bytes (mv_start v) itemsize (mv_strides_bytes v) (index_tuples (mv_shape v))"

definition view_wf :: "memory_view \<Rightarrow> bool" where
  "view_wf v \<longleftrightarrow> length (mv_strides_bytes v) = length (mv_shape v) \<and> 0 \<le> mv_start v \<and>
     (\<forall>n \<in> set (mv_shape v). 0 \<le> n) \<and> (\<forall>n \<in> set (mv_strides_bytes v). 0 \<le> n)"

lemma dot_simps [simp]: "dot [] ss = 0" "dot is [] = 0" "dot (i # is) (s # ss) = i * s + dot is ss"
  by (simp_all add: dot_def)

lemma dot_append: "length is = length ss \<Longrightarrow> dot (is @ [i]) (ss @ [s]) = dot is ss + i * s"
  by (simp add: dot_def)

lemma index_tuples_simps [simp]:
  "index_tuples [] = [[]]"
  "index_tuples (e # es) = concat (map (\<lambda>i. map ((#) i) (index_tuples es)) [0..e - 1])"
  by (simp_all add: index_tuples_def)

lemma index_tuples_length: "idx \<in> set (index_tuples shape) \<Longrightarrow> length idx = length shape"
  by (induction shape arbitrary: idx) auto

lemma index_tuples_bounds:
  "idx \<in> set (index_tuples shape) \<longleftrightarrow> list_all2 (\<lambda>i e. 0 \<le> i \<and> i < e) idx shape"
proof (induction shape arbitrary: idx)
  case Nil
  then show ?case by auto
next
  case (Cons e es)
  show ?case by (cases idx) (auto simp: Cons.IH image_iff)
qed

lemma concat_map_concat: "concat (map f (concat xss)) = concat (map (\<lambda>xs. concat (map f xs)) xss)"
  by (induction xss) auto

lemma concat_concat: "concat (concat xsss) = concat (map concat xsss)"
  by (induction xsss) auto

lemma index_tuples_append:
  "index_tuples (es @ [n]) = concat (map (\<lambda>idx. map (\<lambda>i. idx @ [i]) [0..n - 1]) (index_tuples es))"
  by (induction es) (simp_all add: map_concat comp_def concat_concat)

lemma index_tuples_zero: "0 \<in> set shape \<Longrightarrow> index_tuples shape = []"
  by (induction shape) auto

lemma upto_join: "a \<le> b \<Longrightarrow> b \<le> c \<Longrightarrow> [a..b - 1] @ [b..c - 1] = [a..c - (1 :: int)]"
  by (cases "b = c") (simp_all add: upto_split1 [of a b "c - 1"])

lemma row_bytes:
  assumes "0 \<le> n" "0 \<le> w"
  shows "concat (map (\<lambda>i. [s + i * w..s + i * w + w - 1]) [0..n - 1]) = [s..s + n * w - 1]"
  using assms(1)
proof (induction n rule: int_ge_induct)
  case base
  then show ?case by simp
next
  case (step n)
  then have "[0..n + 1 - 1] = [0..n - 1] @ [n]" using upto_rec2 [of 0 n] by simp
  with step show ?case
    using upto_join [of s "s + n * w" "s + n * w + w"] assms(2) by (simp add: algebra_simps)
qed

lemma join_range_bytes:
  assumes "proper rs" "s \<le> e"
  shows "proper (join_range rs (s, e))" "range_bytes (join_range rs (s, e)) = range_bytes rs @ [s..e - 1]"
proof -
  have "proper (join_range rs (s, e)) \<and> range_bytes (join_range rs (s, e)) = range_bytes rs @ [s..e - 1]"
  proof (cases "rs \<noteq> [] \<and> snd (last rs) = s")
    case True
    then obtain xs a where rs: "rs = xs @ [(a, s)]" by (metis append_butlast_last_id prod.collapse)
    with assms upto_join [of a s e] show ?thesis by (auto simp: join_range_def range_bytes_def)
  next
    case False
    with assms show ?thesis by (auto simp: join_range_def range_bytes_def)
  qed
  then show "proper (join_range rs (s, e))" "range_bytes (join_range rs (s, e)) = range_bytes rs @ [s..e - 1]"
    by auto
qed

definition within :: "int \<Rightarrow> int \<Rightarrow> interval list \<Rightarrow> bool" where
  "within lo hi rs \<longleftrightarrow> (\<forall>(s, e) \<in> set rs. lo \<le> s \<and> e \<le> hi)"

lemma within_join_range:
  "within lo hi rs \<Longrightarrow> lo \<le> fst r \<Longrightarrow> snd r \<le> hi \<Longrightarrow> within lo hi (join_range rs r)"
  by (auto simp: within_def join_range_def split: prod.splits dest!: in_set_butlastD)
    (metis case_prodD last_in_set prod.collapse)

lemma join_tuples:
  assumes "\<forall>idx \<in> set tuples. lo \<le> start + dot idx strides \<and> start + dot idx strides + w \<le> hi"
    and "0 \<le> lo" "0 \<le> w" "proper rs" "within lo hi rs"
  shows "\<exists>rs'. for_each (join_tuple start w strides) rs tuples = Inr rs' \<and> proper rs' \<and> within lo hi rs' \<and>
    range_bytes rs' = range_bytes rs @ tuple_bytes start w strides tuples"
  using assms
proof (induction tuples arbitrary: rs)
  case Nil
  then show ?case by (simp add: tuple_bytes_def)
next
  case (Cons idx tuples)
  let ?s = "start + dot idx strides"
  let ?rs = "join_range rs (?s, ?s + w)"
  have "join_tuple start w strides rs idx = Inr ?rs"
    using Cons.prems by (simp add: join_tuple_def AddressRange_def Let_def)
  moreover have "proper ?rs" "range_bytes ?rs = range_bytes rs @ [?s..?s + w - 1]"
    using join_range_bytes [OF Cons.prems(4), of ?s "?s + w"] Cons.prems(3) by auto
  moreover have "within lo hi ?rs" using Cons.prems by (intro within_join_range) auto
  ultimately show ?case using Cons.IH [of ?rs] Cons.prems by (auto simp: tuple_bytes_def)
qed


section \<open>Views enumerate their elements\<close>

lemma strides_from_append: "strides_from w (xs @ [e]) = strides_from w xs @ [w * prod_list xs]"
  by (induction w xs rule: strides_from.induct) (simp_all add: algebra_simps)

lemma prod_list_rev: "prod_list (rev xs) = prod_list (xs :: int list)"
  by (induction xs) simp_all

lemma contiguous_strides_simps [simp]:
  "contiguous_strides_bytes [] w = []"
  "contiguous_strides_bytes (e # es) w = (w * prod_list es) # contiguous_strides_bytes es w"
  by (simp_all add: contiguous_strides_bytes_def strides_from_append prod_list_rev)

lemma prod_list_nonneg: "\<forall>n \<in> set ns. 0 \<le> (n :: int) \<Longrightarrow> 0 \<le> prod_list ns"
  by (induction ns) auto

lemma tuple_bytes_contiguous:
  assumes "\<forall>n \<in> set shape. 0 \<le> n" "0 \<le> w"
  shows "tuple_bytes start w (contiguous_strides_bytes shape w) (index_tuples shape) =
    [start..start + prod_list shape * w - 1]"
  using assms
proof (induction shape arbitrary: start)
  case Nil
  then show ?case by (simp add: tuple_bytes_def)
next
  case (Cons e es)
  let ?W = "prod_list es * w"
  have "tuple_bytes start w (contiguous_strides_bytes (e # es) w) (index_tuples (e # es)) =
      concat (map (\<lambda>i. tuple_bytes (start + i * ?W) w (contiguous_strides_bytes es w) (index_tuples es)) [0..e - 1])"
    by (simp add: tuple_bytes_def concat_map_concat comp_def algebra_simps)
  also have "\<dots> = concat (map (\<lambda>i. [start + i * ?W..start + i * ?W + ?W - 1]) [0..e - 1])"
    using Cons by simp
  also have "\<dots> = [start..start + e * ?W - 1]"
    using Cons.prems prod_list_nonneg [of es] by (intro row_bytes) auto
  finally show ?case by (simp add: algebra_simps)
qed

lemma dot_last_contiguous:
  "dot (map (\<lambda>e. e - 1) shape) (contiguous_strides_bytes shape w) + w = prod_list shape * w"
  by (induction shape) (simp_all add: algebra_simps)

lemma tuple_bytes_rows:
  assumes "length strides = length shape" "0 \<le> n" "0 \<le> w"
  shows "tuple_bytes start w (strides @ [w]) (index_tuples (shape @ [n])) =
    tuple_bytes start (n * w) strides (index_tuples shape)"
proof -
  have "concat (map (\<lambda>i. [start + dot (idx @ [i]) (strides @ [w])..start + dot (idx @ [i]) (strides @ [w]) + w - 1]) [0..n - 1]) =
      [start + dot idx strides..start + dot idx strides + n * w - 1]"
    if "idx \<in> set (index_tuples shape)" for idx
    using row_bytes [OF assms(2,3), of "start + dot idx strides"] index_tuples_length [OF that] assms(1)
    by (simp add: dot_append algebra_simps)
  then show ?thesis
    by (simp add: tuple_bytes_def index_tuples_append concat_map_concat comp_def cong: map_cong)
qed

lemma dot_mono:
  "list_all2 (\<lambda>i e. 0 \<le> i \<and> i < e) idx shape \<Longrightarrow> \<forall>n \<in> set strides. 0 \<le> n \<Longrightarrow>
     0 \<le> dot idx strides \<and> dot idx strides \<le> dot (map (\<lambda>e. e - 1) shape) strides"
proof (induction idx shape arbitrary: strides rule: list_all2_induct)
  case Nil
  then show ?case by simp
next
  case (Cons i idx e shape)
  then show ?case
  proof (cases strides)
    case (Cons s ss)
    then have "0 \<le> s" using Cons.prems by simp
    moreover have "i * s \<le> (e - 1) * s" using Cons.hyps \<open>0 \<le> s\<close> by (intro mult_right_mono) auto
    ultimately show ?thesis using Cons.IH [of ss] Cons.prems Cons.hyps by (auto simp: Cons intro: add_mono)
  qed simp
qed

text \<open>
  The ranges of a view, joined or not, list the bytes of its elements in index order, and stay
  inside the bounding range.
\<close>

lemma address_ranges_elements:
  assumes wf: "view_wf v" and item: "dtype_size_bytes (mv_dtype v) = Inr w"
  shows "\<exists>rs. address_ranges v = Inr rs \<and> proper rs \<and> range_bytes rs = element_bytes v w \<and>
    (\<forall>s e. byte_range v = Inr (s, e) \<longrightarrow> within (mv_start v) e rs)"
proof (cases "0 \<in> set (mv_shape v)")
  case True
  then show ?thesis
    by (simp add: address_ranges_def element_bytes_def index_tuples_zero tuple_bytes_def range_bytes_def within_def)
next
  case False
  let ?start = "mv_start v" and ?shape = "mv_shape v" and ?strides = "mv_strides_bytes v"
  let ?hi = "?start + dot (map (\<lambda>e. e - 1) ?shape) ?strides + w"
  have w: "0 \<le> w" using item by (rule dtype_size_nonneg)
  have len: "length ?strides = length ?shape" and start: "0 \<le> ?start"
    and dims: "\<forall>n \<in> set ?shape. 0 \<le> n" "\<forall>n \<in> set ?strides. 0 \<le> n"
    using wf by (auto simp: view_wf_def)
  have pos: "\<forall>n \<in> set ?shape. 0 < n" using False dims(1) by (metis le_less)
  have last: "0 \<le> dot (map (\<lambda>e. e - 1) ?shape) ?strides"
  proof -
    have "list_all2 (\<lambda>i e. 0 \<le> i \<and> i < e) (map (\<lambda>e. e - 1) ?shape) ?shape"
      unfolding list_all2_map1 list_all2_same using pos by auto
    from dot_mono [OF this dims(2)] show ?thesis by simp
  qed
  have range: "byte_range v = Inr (?start, ?hi)"
    using False item start last w by (simp add: byte_range_def AddressRange_def Let_def)
  have bound: "?start \<le> ?start + dot idx ?strides \<and> ?start + dot idx ?strides + w \<le> ?hi"
    if "idx \<in> set (index_tuples ?shape)" for idx
    using dot_mono [of idx ?shape ?strides] that dims(2) by (simp add: index_tuples_bounds)
  consider (dense) "?strides = contiguous_strides_bytes ?shape w"
    | (rows) "?strides \<noteq> contiguous_strides_bytes ?shape w" "?shape \<noteq> []" "last ?strides = w"
    | (elements) "?strides \<noteq> contiguous_strides_bytes ?shape w" "\<not> (?shape \<noteq> [] \<and> last ?strides = w)"
    by blast
  then show ?thesis
  proof cases
    case dense
    have hi: "?hi = ?start + prod_list ?shape * w" using dot_last_contiguous [of ?shape w] dense by simp
    have "range_bytes [(?start, ?hi)] = [?start..?hi - 1]" by (simp add: range_bytes_def)
    also have "\<dots> = [?start..?start + prod_list ?shape * w - 1]" unfolding hi by (rule refl)
    also have "\<dots> = element_bytes v w"
      using tuple_bytes_contiguous [OF dims(1) w, of ?start] dense by (simp add: element_bytes_def)
    finally have "range_bytes [(?start, ?hi)] = element_bytes v w" .
    moreover have "address_ranges v = Inr [(?start, ?hi)]"
      using False item range dense by (simp add: address_ranges_def Let_def)
    ultimately show ?thesis using range last w by (simp add: within_def)
  next
    case rows
    obtain es n where shape: "?shape = es @ [n]" using rows(2) by (metis append_butlast_last_id)
    obtain ss where strides: "?strides = ss @ [w]"
      using rows len by (metis append_butlast_last_id length_0_conv)
    have n: "0 \<le> n" and lens: "length ss = length es" using dims(1) len by (auto simp: shape strides)
    have row: "?start \<le> ?start + dot idx ss \<and> ?start + dot idx ss + n * w \<le> ?hi"
      if "idx \<in> set (index_tuples es)" for idx
    proof -
      have "0 \<le> dot idx ss \<and> dot idx ss \<le> dot (map (\<lambda>e. e - 1) es) ss"
        using dot_mono [of idx es ss] that dims(2) by (simp add: index_tuples_bounds strides)
      then show ?thesis using lens by (simp add: shape strides dot_append algebra_simps)
    qed
    have "address_ranges v = for_each (join_tuple ?start (n * w) ss) [] (index_tuples es)"
      using False item rows by (simp add: address_ranges_def Let_def shape strides)
    moreover have "element_bytes v w = tuple_bytes ?start (n * w) ss (index_tuples es)"
      using tuple_bytes_rows [OF lens n w, of ?start] by (simp add: element_bytes_def shape strides)
    ultimately show ?thesis
      using join_tuples [of "index_tuples es" ?start ?start ss "n * w" ?hi "[]"] row start n w range
      by (auto simp: range_bytes_def within_def)
  next
    case elements
    have "address_ranges v = for_each (join_tuple ?start w ?strides) [] (index_tuples ?shape)"
      using False item elements by (auto simp: address_ranges_def Let_def)
    then show ?thesis
      using join_tuples [of "index_tuples ?shape" ?start ?start ?strides w ?hi "[]"] bound start w range
      by (auto simp: range_bytes_def within_def element_bytes_def)
  qed
qed


section \<open>The byte union of a view\<close>

text \<open>The offsets of a list of extents with strides, as a set: their order does not matter.\<close>

fun offsets :: "(int \<times> int) list \<Rightarrow> int set" where
  "offsets [] = {0}"
| "offsets ((extent, stride) # rest) = (\<Union>i \<in> {0..<extent}. (\<lambda>o'. i * stride + o') ` offsets rest)"

definition last_offset :: "(int \<times> int) list \<Rightarrow> int" where
  "last_offset dims = (\<Sum>(extent, stride) \<leftarrow> dims. (extent - 1) * stride)"

lemma offsets_swap: "offsets (p # q # dims) = offsets (q # p # dims)"
proof -
  obtain a b c d where pq: "p = (a, b)" "q = (c, d)" by (cases p, cases q)
  have "offsets ((a, b) # (c, d) # dims) \<subseteq> offsets ((c, d) # (a, b) # dims)" for a b c d
  proof
    fix x assume "x \<in> offsets ((a, b) # (c, d) # dims)"
    then obtain i j y where "i \<in> {0..<a}" "j \<in> {0..<c}" "y \<in> offsets dims" "x = i * b + (j * d + y)"
      by auto
    then have "i * b + y \<in> offsets ((a, b) # dims)" "x = j * d + (i * b + y)" "j \<in> {0..<c}" by auto
    then show "x \<in> offsets ((c, d) # (a, b) # dims)" by (auto simp del: offsets.simps simp: offsets.simps(2) [of c d])
  qed
  then show ?thesis unfolding pq by blast
qed

lemma offsets_Cons_cong: "offsets xs = offsets ys \<Longrightarrow> offsets (p # xs) = offsets (p # ys)"
  by (cases p) simp

lemma offsets_insort: "offsets (insort_key f p dims) = offsets (p # dims)"
proof (induction dims)
  case Nil
  then show ?case by simp
next
  case (Cons q dims)
  show ?case
  proof (cases "f p \<le> f q")
    case True
    then show ?thesis by simp
  next
    case False
    then have "offsets (insort_key f p (q # dims)) = offsets (q # insort_key f p dims)" by simp
    also have "\<dots> = offsets (q # p # dims)" using Cons by (rule offsets_Cons_cong)
    finally show ?thesis using offsets_swap by simp
  qed
qed

lemma offsets_sort: "offsets (sort_key f dims) = offsets dims"
  by (induction dims) (simp_all add: sort_key_def offsets_insort del: offsets.simps, metis offsets_Cons_cong)

lemma last_offset_sort: "last_offset (sort_key f dims) = last_offset dims"
proof -
  have "last_offset (insort_key f p dims) = last_offset (p # dims)" for p dims
    by (induction dims) (auto simp: last_offset_def)
  then show ?thesis by (induction dims) (auto simp: sort_key_def last_offset_def)
qed

lemma offsets_index_tuples:
  "length strides = length shape \<Longrightarrow> offsets (zip shape strides) = (\<lambda>idx. dot idx strides) ` set (index_tuples shape)"
proof (induction shape arbitrary: strides)
  case Nil
  then show ?case by simp
next
  case (Cons e es)
  then obtain s ss where strides: "strides = s # ss" "length ss = length es" by (cases strides) auto
  with Cons.IH [of ss] show ?case by (force simp: image_image)
qed

lemma dense_offsets:
  assumes "dense_from w dims" "\<forall>(extent, stride) \<in> set dims. 0 < extent" "0 \<le> w"
  shows "(\<Union>o' \<in> offsets dims. {o'..<o' + w}) = {0..<last_offset dims + w}"
  using assms
proof (induction w dims rule: dense_from.induct)
  case (1 w)
  then show ?case by (simp add: last_offset_def)
next
  case (2 w extent stride rest)
  show ?case
  proof (cases "extent \<le> 1")
    case True
    with "2.prems"(2) have e: "extent = 1" by auto
    have "{0..<1 :: int} = {0}" by auto
    with 2 True e show ?thesis by (simp add: last_offset_def)
  next
    case False
    with "2.prems"(1) have s: "stride = w" and dense: "dense_from (w * extent) rest"
      by (auto split: if_splits)
    have block: "(\<Union>i \<in> {0..<extent}. {i * w + o'..<i * w + o' + w}) = {o'..<o' + w * extent}" for o'
    proof -
      have up: "set [a..b - 1] = {a..<b}" for a b :: int by auto
      have "set (concat (map (\<lambda>i. [o' + i * w..o' + i * w + w - 1]) [0..extent - 1])) = set [o'..o' + extent * w - 1]"
        using row_bytes [of extent w o'] False "2.prems"(3) by simp
      then have "(\<Union>i \<in> {0..<extent}. {o' + i * w..<o' + i * w + w}) = {o'..<o' + extent * w}"
        by (simp only: set_concat set_map image_image up)
      then show ?thesis by (simp add: add.commute mult.commute)
    qed
    have "(\<Union>o' \<in> offsets ((extent, stride) # rest). {o'..<o' + w}) =
        (\<Union>o' \<in> offsets rest. \<Union>i \<in> {0..<extent}. {i * w + o'..<i * w + o' + w})"
      by (auto simp: s)
    also have "\<dots> = (\<Union>o' \<in> offsets rest. {o'..<o' + w * extent})" by (simp only: block)
    also have "\<dots> = {0..<last_offset rest + w * extent}"
      using "2.IH"(2) False s dense "2.prems" by simp
    finally show ?thesis by (simp add: last_offset_def s algebra_simps)
  qed
qed

lemma cover_range_bytes: "cover rs = set (range_bytes rs)"
  by (auto simp: cover_def range_bytes_def)

lemma element_bytes_offsets:
  assumes "length (mv_strides_bytes v) = length (mv_shape v)"
  shows "set (element_bytes v w) =
    (\<Union>o' \<in> offsets (zip (mv_shape v) (mv_strides_bytes v)). {mv_start v + o'..<mv_start v + o' + w})"
  unfolding offsets_index_tuples [OF assms] by (auto simp: element_bytes_def tuple_bytes_def)

lemma last_offset_dot:
  "length strides = length shape \<Longrightarrow> last_offset (zip shape strides) = dot (map (\<lambda>e. e - 1) shape) strides"
  by (induction shape strides rule: list_induct2') (auto simp: last_offset_def)

lemma shift_blocks:
  assumes "(\<Union>o' \<in> D. {o'..<o' + w}) = {0..<n :: int}"
  shows "(\<Union>o' \<in> D. {s + o'..<s + o' + w}) = {s..<s + n}"
proof -
  have "x \<in> (\<Union>o' \<in> D. {s + o'..<s + o' + w}) \<longleftrightarrow> x - s \<in> (\<Union>o' \<in> D. {o'..<o' + w})" for x
    by (auto simp: algebra_simps)
  then have "x \<in> (\<Union>o' \<in> D. {s + o'..<s + o' + w}) \<longleftrightarrow> x \<in> {s..<s + n}" for x
    unfolding assms by (simp add: algebra_simps)
  then show ?thesis by (rule set_eqI)
qed

lemma physical_ranges_elements:
  assumes wf: "view_wf v" and item: "dtype_size_bytes (mv_dtype v) = Inr w"
  shows "\<exists>rs. physical_address_ranges v = Inr rs \<and> proper rs \<and> cover rs = set (element_bytes v w)"
proof (cases "0 \<in> set (mv_shape v)")
  case True
  then show ?thesis
    by (simp add: physical_address_ranges_def element_bytes_def index_tuples_zero tuple_bytes_def)
next
  case False
  let ?dims = "zip (mv_shape v) (mv_strides_bytes v)"
  have len: "length (mv_strides_bytes v) = length (mv_shape v)" and start: "0 \<le> mv_start v"
    and dims: "\<forall>n \<in> set (mv_shape v). 0 < n"
    using wf False by (auto simp: view_wf_def le_less)
  have w: "0 \<le> w" using item by (rule dtype_size_nonneg)
  show ?thesis
  proof (cases "dense_from w (sort_key snd ?dims)")
    case True
    have "\<forall>(extent, stride) \<in> set (sort_key snd ?dims). 0 < extent"
      using dims by (auto dest: set_zip_leftD)
    from dense_offsets [OF True this w]
    have dense: "(\<Union>o' \<in> offsets ?dims. {o'..<o' + w}) = {0..<last_offset ?dims + w}"
      by (simp add: offsets_sort last_offset_sort)
    have last: "last_offset ?dims = dot (map (\<lambda>e. e - 1) (mv_shape v)) (mv_strides_bytes v)"
      using len by (rule last_offset_dot)
    have "0 \<le> (extent - 1) * stride" if "(extent, stride) \<in> set ?dims" for extent stride
      using set_zip_leftD [OF that] set_zip_rightD [OF that] dims wf
      by (auto simp: view_wf_def intro!: mult_nonneg_nonneg)
    then have nonneg: "0 \<le> last_offset ?dims" by (auto simp: last_offset_def intro!: sum_list_nonneg)
    have range: "byte_range v = Inr (mv_start v, mv_start v + (last_offset ?dims + w))"
      using False item start w nonneg by (simp add: byte_range_def AddressRange_def Let_def last)
    then have "physical_address_ranges v = Inr [(mv_start v, mv_start v + (last_offset ?dims + w))]"
      using False item True by (simp add: physical_address_ranges_def)
    moreover have "set (element_bytes v w) = {mv_start v..<mv_start v + (last_offset ?dims + w)}"
      unfolding element_bytes_offsets [OF len] using dense by (rule shift_blocks)
    ultimately show ?thesis using nonneg w by simp
  next
    case sparse: False
    obtain rs where rs: "address_ranges v = Inr rs" "proper rs" "range_bytes rs = element_bytes v w"
      using address_ranges_elements [OF wf item] by blast
    then have "physical_address_ranges v = Inr (merge_intervals rs)"
      using False item sparse by (simp add: physical_address_ranges_def)
    then show ?thesis using merge_intervals_correct [OF rs(2)] rs(3) by (simp add: cover_range_bytes)
  qed
qed

section \<open>Properties\<close>

text \<open>
  C23: \<open>address_ranges\<close> of a valid strided view lists exactly the bytes of the view's elements in
  logical index order, whichever of its three paths computes it (dense, contiguous rows, single
  elements), so reading and writing the ranges in order transfers the elements in order.
\<close>

theorem address_ranges_enumerate_elements:
  assumes "view_wf v" and "dtype_size_bytes (mv_dtype v) = Inr w"
  shows "\<exists>rs. address_ranges v = Inr rs \<and> range_bytes rs = element_bytes v w"
  using address_ranges_elements [OF assms] by blast

definition sample_spec :: buffer_spec where
  "sample_spec = \<lparr>bs_name = ''a'', bs_scope = UB, bs_shape = [RInt 64], bs_dtype = ''float16'', bs_size_bytes = None,
     bs_address = Some 32, bs_lifetime = None, bs_metadata = []\<rparr>"

definition sample_view :: memory_view where
  "sample_view = \<lparr>mv_allocation = \<lparr>ma_id = 0, ma_spec = sample_spec, ma_size_bytes = 128, ma_address = 32,
       ma_core_id = Some 0, ma_space = (UB, Some 0)\<rparr>,
     mv_byte_offset = 4, mv_shape = [2, 3], mv_dtype = ''float16'', mv_strides_bytes = [2, 16]\<rparr>"

lemma float16_size: "dtype_size_bytes ''float16'' = Inr 2"
  by code_simp

theorem address_ranges_enumerate_elements_witness:
  "\<exists>rs. address_ranges sample_view = Inr rs \<and> range_bytes rs = element_bytes sample_view 2"
  by (rule address_ranges_enumerate_elements)
    (simp_all add: view_wf_def sample_view_def mv_start_def float16_size)



end
