(* ===== verification/Sim_Record.thy ===== *)
theory Sim_Record
  imports Sim_Program
begin

text \<open>
  \<open>ExecutionRecord\<close> of \<^verbatim>\<open>tilelang/simulator/trace.py\<close>: one scheduled interval.
\<close>

record exec_record =
  er_task_id :: string
  er_operation :: string
  er_core_id :: int
  er_lane :: lane
  er_pipe :: pipe
  er_start_cycle :: int
  er_end_cycle :: int
  er_category :: string
  er_stall_reason :: "string option"
  er_metadata :: metadata

text \<open>\<open>__post_init__\<close>; the callers pass enums, so the conversion of their values is not needed.\<close>

definition ExecutionRecord :: "exec_record \<Rightarrow> exec_record res" where
  "ExecutionRecord r =
     (if er_task_id r = [] \<or> er_operation r = []
      then Inl (ProgramValidationError ''execution record identifiers must not be empty'')
      else if er_core_id r < 0 \<or> er_start_cycle r < 0
      then Inl (ProgramValidationError ''execution record core and cycles must not be negative'')
      else if er_end_cycle r < er_start_cycle r
      then Inl (ProgramValidationError ''execution record end_cycle precedes start_cycle'')
      else Inr r)"

text \<open>\<open>d.update(other)\<close> and \<open>d.setdefault(k, v)\<close>.\<close>

definition dict_update :: "('k, 'v) dict \<Rightarrow> ('k, 'v) dict \<Rightarrow> ('k, 'v) dict" where
  "dict_update d other = foldl (\<lambda>acc (k, v). dict_set k v acc) d other"

definition dict_setdefault :: "'k \<Rightarrow> 'v \<Rightarrow> ('k, 'v) dict \<Rightarrow> ('k, 'v) dict" where
  "dict_setdefault k v d = (case map_of d k of None \<Rightarrow> dict_set k v d | Some _ \<Rightarrow> d)"

definition merged_metadata :: "task \<Rightarrow> metadata \<Rightarrow> metadata" where
  "merged_metadata t extra =
     (let merged = dict_update (task_metadata t) extra
      in case stage t of None \<Rightarrow> merged | Some n \<Rightarrow> dict_setdefault ''stage'' (PInt n) merged)"

text \<open>An empty \<open>metadata\<close> argument and \<open>None\<close> both leave the task's metadata as it is.\<close>

definition from_task :: "task \<Rightarrow> int \<Rightarrow> int \<Rightarrow> string \<Rightarrow> string option \<Rightarrow> metadata \<Rightarrow> exec_record res" where
  "from_task t start_cycle end_cycle category stall_reason extra =
     ExecutionRecord \<lparr>er_task_id = task_id t, er_operation = operation t, er_core_id = core_id t,
       er_lane = task_lane t, er_pipe = task_pipe t, er_start_cycle = start_cycle,
       er_end_cycle = end_cycle, er_category = category, er_stall_reason = stall_reason,
       er_metadata = merged_metadata t extra\<rparr>"

definition er_duration_cycles :: "exec_record \<Rightarrow> int" where
  "er_duration_cycles r = er_end_cycle r - er_start_cycle r"

definition er_resource :: "exec_record \<Rightarrow> string" where
  "er_resource r = lane_value (er_lane r) @ ''/'' @ pipe_value (er_pipe r)"

definition record_wf :: "exec_record \<Rightarrow> bool" where
  "record_wf r \<longleftrightarrow> er_task_id r \<noteq> [] \<and> er_operation r \<noteq> [] \<and> 0 \<le> er_core_id r \<and>
     0 \<le> er_start_cycle r \<and> er_start_cycle r \<le> er_end_cycle r"

lemma ExecutionRecord_Inr [simp]: "ExecutionRecord r = Inr r' \<longleftrightarrow> r' = r \<and> record_wf r"
  by (auto simp: ExecutionRecord_def record_wf_def)

lemma map_of_dict_update: "map_of (dict_update d other) = map_of d ++ map_of (rev other)"
proof (induction other arbitrary: d)
  case Nil
  then show ?case by (simp add: dict_update_def)
next
  case (Cons p other)
  obtain k v where p: "p = (k, v)" by (cases p)
  have "dict_update d (p # other) = dict_update (dict_set k v d) other"
    by (simp add: dict_update_def p)
  with Cons show ?case by (simp add: p map_add_def fun_eq_iff split: option.splits)
qed

lemma from_task_Inr:
  "task_wf t \<Longrightarrow> 0 \<le> s \<Longrightarrow> s \<le> e \<Longrightarrow> \<exists>r. from_task t s e category reason extra = Inr r \<and> record_wf r \<and>
     er_task_id r = task_id t \<and> er_core_id r = core_id t \<and> er_lane r = task_lane t \<and>
     er_pipe r = task_pipe t \<and> er_start_cycle r = s \<and> er_end_cycle r = e \<and> er_category r = category \<and>
     er_operation r = operation t"
  by (simp add: from_task_def record_wf_def task_wf_def)

lemma from_task_InrD:
  "from_task t s e category reason extra = Inr r \<Longrightarrow> record_wf r \<and>
     er_task_id r = task_id t \<and> er_core_id r = core_id t \<and> er_lane r = task_lane t \<and>
     er_pipe r = task_pipe t \<and> er_start_cycle r = s \<and> er_end_cycle r = e \<and> er_category r = category \<and>
     er_operation r = operation t \<and> er_stall_reason r = reason \<and> er_metadata r = merged_metadata t extra"
  by (auto simp: from_task_def)

end
