(* ===== verification/Sim_Memory.thy ===== *)
theory Sim_Memory
  imports Sim_Views Sim_Hazard Sim_Record "HOL-Library.Word"
begin

text \<open>
  The rest of \<^verbatim>\<open>tilelang/simulator/memory.py\<close>: byte-addressed address spaces with initialization
  tracking, named allocations and the runtime that owns them.  The mutable objects of the code are
  one record, the runtime: allocations refer to their address space by its key, and the shared
  hazard reporter is a field.  An operation that may report returns the new runtime beside its
  outcome, since a report is recorded before it raises.
\<close>

section \<open>Address spaces\<close>

type_synonym byte = "8 word"

record address_space =
  as_data :: "byte list"
  as_initialized :: "bool list"

definition empty_space :: address_space where
  "empty_space = \<lparr>as_data = [], as_initialized = []\<rparr>"

definition ensure_size :: "address_space \<Rightarrow> int \<Rightarrow> address_space" where
  "ensure_size space size_bytes =
     (let missing = size_bytes - int (length (as_data space))
      in if 0 < missing
         then \<lparr>as_data = as_data space @ replicate (nat missing) 255,
               as_initialized = as_initialized space @ replicate (nat missing) False\<rparr>
         else space)"

text \<open>\<open>xs[start:stop]\<close> and \<open>xs[start:stop] = ys\<close> for non-negative bounds.\<close>

definition slice_get :: "'b list \<Rightarrow> interval \<Rightarrow> 'b list" where
  "slice_get xs r = take (nat (snd r - fst r)) (drop (nat (fst r)) xs)"

definition slice_put :: "'b list \<Rightarrow> interval \<Rightarrow> 'b list \<Rightarrow> 'b list" where
  "slice_put xs r ys = take (nat (fst r)) xs @ ys @ drop (nat (max (fst r) (snd r))) xs"

section \<open>Runtime\<close>

type_synonym space_key = "memory_scope \<times> int option"
type_synonym allocation_key = "memory_scope \<times> int option \<times> string"

record memory_runtime =
  mr_core_ids :: "int list"
  mr_vector1_owner_offset :: int
  mr_local_owner_ids :: "int list"
  mr_reporter :: hazard_reporter
  mr_local_capacities :: "(memory_scope, int) dict"
  mr_allocations :: "(allocation_key, memory_allocation) dict"
  mr_next_address :: "(space_key, int) dict"
  mr_address_spaces :: "(space_key, address_space) dict"
  mr_next_id :: nat

definition A2_A3_LOCAL_CAPACITIES :: "(memory_scope, int) dict" where
  "A2_A3_LOCAL_CAPACITIES =
    [(L1, 524032), (L0A, 65536), (L0B, 65536), (L0C, 131072), (UB, 192 * 1024), (BT, 1024)]"

definition shared_scopes :: "memory_scope list" where
  "shared_scopes = [GM, WORKSPACE]"

text \<open>An empty \<open>local_capacities\<close> mapping and \<open>None\<close> both select the default table.\<close>

definition MemoryRuntime :: "int list \<Rightarrow> string \<Rightarrow> (memory_scope, int) dict \<Rightarrow> memory_runtime res" where
  "MemoryRuntime core_ids hazard_check local_capacities =
     (let ids = sort (remdups core_ids)
      in if (\<exists>c \<in> set ids. c < 0) then Inl (ProgramValidationError ''core IDs must not be negative'')
         else let offset = (if ids \<noteq> [] then Max (set ids) + 1 else 1)
         in case HazardReporter hazard_check of
              Inl e \<Rightarrow> Inl e
            | Inr reporter \<Rightarrow>
                Inr \<lparr>mr_core_ids = ids, mr_vector1_owner_offset = offset,
                  mr_local_owner_ids = ids @ map (\<lambda>c. offset + c) ids, mr_reporter = reporter,
                  mr_local_capacities =
                    (if local_capacities = [] then A2_A3_LOCAL_CAPACITIES else local_capacities),
                  mr_allocations = [], mr_next_address = [], mr_address_spaces = [], mr_next_id = 0\<rparr>)"

definition normalize_owner :: "memory_runtime \<Rightarrow> memory_scope \<Rightarrow> int option \<Rightarrow> int option res" where
  "normalize_owner rt scope core =
     (if scope \<in> set shared_scopes then Inr None
      else case core of
        None \<Rightarrow> Inl (ProgramValidationError ''core_id is required for local scope'')
      | Some c \<Rightarrow>
          if c < 0 then Inl (ProgramValidationError ''core_id must not be negative'')
          else if c \<notin> set (mr_local_owner_ids rt)
          then Inl (ProgramValidationError ''core_id is not part of this runtime'')
          else Inr (Some c))"

definition vector1_owner :: "memory_runtime \<Rightarrow> int \<Rightarrow> int res" where
  "vector1_owner rt core =
     (if core \<notin> set (mr_core_ids rt) then Inl (ProgramValidationError ''core_id is not part of this runtime'')
      else Inr (mr_vector1_owner_offset rt + core))"

fun concrete_shape :: "rt_int list \<Rightarrow> int list res" where
  "concrete_shape shape =
     (case map_res (\<lambda>e. case e of RInt n \<Rightarrow> Inr n | RBool b \<Rightarrow> Inr (py_bool b)
                        | _ \<Rightarrow> Inl (ProgramValidationError ''memory allocation/view shape must be concrete''))
             shape of
        Inl e \<Rightarrow> Inl e
      | Inr extents \<Rightarrow>
          if (\<exists>n \<in> set extents. n < 0)
          then Inl (ProgramValidationError ''memory allocation/view shape has a negative extent'')
          else Inr extents)"

definition buffer_size_bytes :: "buffer_spec \<Rightarrow> int res" where
  "buffer_size_bytes spec =
     (case bs_size_bytes spec of
        Some n \<Rightarrow> Inr n
      | None \<Rightarrow>
          (case dtype_size_bytes (bs_dtype spec) of
             Inl e \<Rightarrow> Inl e
           | Inr size_bytes \<Rightarrow>
               map_sum id (\<lambda>extents. size_bytes * prod_list extents) (concrete_shape (bs_shape spec))))"

text \<open>\<open>alias_of\<close> names a buffer only when it is text.\<close>

definition alias_is :: "buffer_spec \<Rightarrow> string \<Rightarrow> bool" where
  "alias_is spec name \<longleftrightarrow> md_get (bs_metadata spec) ''alias_of'' = PStr name"

definition overlap_is_declared_reuse :: "buffer_spec \<Rightarrow> buffer_spec \<Rightarrow> bool" where
  "overlap_is_declared_reuse left right =
     (if py_truth (md_get (bs_metadata left) ''planned_address'')
          \<and> py_truth (md_get (bs_metadata right) ''planned_address'')
      then True
      else if alias_is left (bs_name right) \<or> alias_is right (bs_name left) then True
      else case (bs_lifetime left, bs_lifetime right) of
        (Some (left_start, left_end), Some (right_start, right_end)) \<Rightarrow>
          left_end \<le> right_start \<or> right_end \<le> left_start
      | _ \<Rightarrow> False)"

definition allocation_range :: "memory_allocation \<Rightarrow> interval" where
  "allocation_range a = (ma_address a, ma_address a + ma_size_bytes a)"

definition overlap_diagnostic :: "buffer_spec \<Rightarrow> int option \<Rightarrow> interval \<Rightarrow> hazard_diagnostic" where
  "overlap_diagnostic spec owner interval =
     \<lparr>hd_kind = ''overlapping-allocation'', hd_message = ''allocation overlaps'',
      hd_buffer = Some (bs_name spec), hd_core_id = owner, hd_start = Some (fst interval),
      hd_end = Some (snd interval), hd_metadata = []\<rparr>"

text \<open>The existing allocations the new one clashes with, in dictionary order.\<close>

definition clashing :: "memory_runtime \<Rightarrow> buffer_spec \<Rightarrow> int option \<Rightarrow> interval \<Rightarrow> memory_allocation list" where
  "clashing rt spec owner interval =
     map snd (filter (\<lambda>((scope, existing_owner, _), existing).
        scope = bs_scope spec \<and> existing_owner = owner \<and> overlaps interval (allocation_range existing) \<and>
        \<not> overlap_is_declared_reuse spec (ma_spec existing)) (mr_allocations rt))"

definition allocate ::
  "memory_runtime \<Rightarrow> buffer_spec \<Rightarrow> int option \<Rightarrow> int option \<Rightarrow> memory_runtime \<times> memory_allocation res" where
  "allocate rt spec core address =
     (case normalize_owner rt (bs_scope spec) core of
        Inl e \<Rightarrow> (rt, Inl e)
      | Inr owner \<Rightarrow>
        let key = (bs_scope spec, owner, bs_name spec); space = (bs_scope spec, owner) in
        if map_of (mr_allocations rt) key \<noteq> None
        then (rt, Inl (ProgramValidationError ''duplicate simulator allocation''))
        else case buffer_size_bytes spec of
          Inl e \<Rightarrow> (rt, Inl e)
        | Inr size_bytes \<Rightarrow>
          if address \<noteq> None \<and> bs_address spec \<noteq> None \<and> address \<noteq> bs_address spec
          then (rt, Inl (ProgramValidationError ''allocation address disagrees with BufferSpec address''))
          else
            let explicit_address = (case address of None \<Rightarrow> bs_address spec | Some a \<Rightarrow> Some a);
                base = (case explicit_address of None \<Rightarrow> dict_get (mr_next_address rt) space 0 | Some a \<Rightarrow> a)
            in case AddressRange base (base + size_bytes) of
                 Inl e \<Rightarrow> (rt, Inl e)
               | Inr interval \<Rightarrow>
                 if (case map_of (mr_local_capacities rt) (bs_scope spec) of
                       None \<Rightarrow> False | Some capacity \<Rightarrow> capacity < snd interval)
                 then (rt, Inl (MemoryCapacityError ''capacity exceeded''))
                 else case report_all (mr_reporter rt)
                        (map (\<lambda>_. (overlap_diagnostic spec owner interval, MemoryHazardError))
                           (clashing rt spec owner interval)) of
                   (reporter, Inl e) \<Rightarrow> (rt\<lparr>mr_reporter := reporter\<rparr>, Inl e)
                 | (reporter, Inr _) \<Rightarrow>
                   let backing = dict_get (mr_address_spaces rt) space empty_space;
                       allocation = \<lparr>ma_id = mr_next_id rt, ma_spec = spec, ma_size_bytes = size_bytes,
                         ma_address = base, ma_core_id = owner, ma_space = space\<rparr>
                   in (rt\<lparr>mr_reporter := reporter,
                          mr_allocations := dict_set key allocation (mr_allocations rt),
                          mr_next_address := dict_set space
                            (max (dict_get (mr_next_address rt) space 0) (snd interval)) (mr_next_address rt),
                          mr_address_spaces := dict_set space (ensure_size backing (base + size_bytes))
                            (mr_address_spaces rt),
                          mr_next_id := mr_next_id rt + 1\<rparr>, Inr allocation))"

definition resolve_extent :: "bindings \<Rightarrow> rt_int \<Rightarrow> rt_int res" where
  "resolve_extent bindings v =
     (case v of
        RAffine _ \<Rightarrow> map_sum id RInt (evaluate_runtime_int v bindings)
      | RSymbolic _ _ \<Rightarrow> map_sum id RInt (evaluate_runtime_int v bindings)
      | RInt n \<Rightarrow> Inr (RInt n)
      | _ \<Rightarrow> Inl (ProgramValidationError ''memory allocation extent is not executable''))"

text \<open>\<open>replace(spec, shape=...)\<close> runs the checks of \<open>BufferSpec\<close> again.\<close>

definition respecify :: "buffer_spec \<Rightarrow> rt_int list \<Rightarrow> buffer_spec res" where
  "respecify spec shape =
     BufferSpec (bs_name spec) (ScopeEnum (bs_scope spec)) shape (bs_dtype spec) (bs_size_bytes spec)
       (bs_address spec) (map_option (\<lambda>(a, b). [IntVal a, IntVal b]) (bs_lifetime spec)) (bs_metadata spec)"

definition allocate_unit ::
  "memory_runtime \<Rightarrow> buffer_spec \<times> int option \<Rightarrow> memory_runtime res" where
  "allocate_unit rt = (\<lambda>(spec, core).
     case allocate rt spec core None of (rt', Inl e) \<Rightarrow> Inl e | (rt', Inr _) \<Rightarrow> Inr rt')"

definition instantiate_buffer :: "bindings \<Rightarrow> memory_runtime \<Rightarrow> buffer_spec \<Rightarrow> memory_runtime res" where
  "instantiate_buffer bindings rt spec =
     (case map_res (resolve_extent bindings) (bs_shape spec) of
        Inl e \<Rightarrow> Inl e
      | Inr shape \<Rightarrow> (case respecify spec shape of
          Inl e \<Rightarrow> Inl e
        | Inr resolved \<Rightarrow>
            if bs_scope spec \<in> set shared_scopes then allocate_unit rt (resolved, None)
            else for_each allocate_unit rt (map (\<lambda>c. (resolved, Some c)) (mr_local_owner_ids rt))))"

definition from_program :: "kernel_program \<Rightarrow> string \<Rightarrow> bindings \<Rightarrow> memory_runtime res" where
  "from_program p hazard_check bindings =
     (case MemoryRuntime (map cp_core_id (kp_cores p)) hazard_check [] of
        Inl e \<Rightarrow> Inl e
      | Inr rt \<Rightarrow> for_each (instantiate_buffer bindings) rt (kp_buffers p))"

definition get_allocation :: "memory_runtime \<Rightarrow> string \<Rightarrow> memory_scope \<Rightarrow> int option \<Rightarrow> memory_allocation res" where
  "get_allocation rt name scope core =
     (case normalize_owner rt scope core of
        Inl e \<Rightarrow> Inl e
      | Inr owner \<Rightarrow> (case map_of (mr_allocations rt) (scope, owner, name) of
          None \<Rightarrow> Inl (MemoryAccessError ''unknown simulator allocation'')
        | Some a \<Rightarrow> Inr a))"

definition memory_alias :: "memory_runtime \<Rightarrow> string \<Rightarrow> string \<Rightarrow> memory_scope \<Rightarrow> int option \<Rightarrow> memory_runtime res" where
  "memory_alias rt name target scope core =
     (case normalize_owner rt scope core of
        Inl e \<Rightarrow> Inl e
      | Inr owner \<Rightarrow>
          (case (map_of (mr_allocations rt) (scope, owner, name), map_of (mr_allocations rt) (scope, owner, target)) of
             (Some destination, Some source) \<Rightarrow>
               if ma_size_bytes source < ma_size_bytes destination
               then Inl (MemoryBoundsError ''alias requires more bytes than the target has'')
               else Inr (rt\<lparr>mr_allocations := dict_set (scope, owner, name) source (mr_allocations rt)\<rparr>)
           | _ \<Rightarrow> Inl (MemoryAccessError ''cannot alias'')))"


section \<open>Access\<close>

datatype target = TView memory_view | TRange interval

definition space_of :: "memory_runtime \<Rightarrow> memory_allocation \<Rightarrow> address_space" where
  "space_of rt a = dict_get (mr_address_spaces rt) (ma_space a) empty_space"

definition set_space :: "memory_runtime \<Rightarrow> memory_allocation \<Rightarrow> address_space \<Rightarrow> memory_runtime" where
  "set_space rt a space = rt\<lparr>mr_address_spaces := dict_set (ma_space a) space (mr_address_spaces rt)\<rparr>"

text \<open>\<open>MemoryAllocation.view\<close>; an absent or empty \<open>dtype\<close> is the one of the specification.\<close>

definition make_view ::
  "memory_allocation \<Rightarrow> int \<Rightarrow> rt_int list option \<Rightarrow> string option \<Rightarrow> int list option \<Rightarrow> memory_view res" where
  "make_view a byte_offset shape dtype strides_bytes =
     (let view_dtype = (case dtype of Some d \<Rightarrow> if d = [] then bs_dtype (ma_spec a) else d | None \<Rightarrow> bs_dtype (ma_spec a))
      in case concrete_shape (case shape of Some s \<Rightarrow> s | None \<Rightarrow> bs_shape (ma_spec a)) of
           Inl e \<Rightarrow> Inl e
         | Inr view_shape \<Rightarrow>
           (case (case strides_bytes of
                    None \<Rightarrow> map_sum id (contiguous_strides_bytes view_shape) (dtype_size_bytes view_dtype)
                  | Some s \<Rightarrow> Inr s) of
              Inl e \<Rightarrow> Inl e
            | Inr strides \<Rightarrow>
              if length strides \<noteq> length view_shape
              then Inl (MemoryBoundsError ''view shape and strides must have the same rank'')
              else if byte_offset < 0 \<or> (\<exists>s \<in> set strides. s < 0)
              then Inl (MemoryBoundsError ''negative view offsets and strides are unsupported'')
              else
                let v = \<lparr>mv_allocation = a, mv_byte_offset = byte_offset, mv_shape = view_shape,
                         mv_dtype = view_dtype, mv_strides_bytes = strides\<rparr>
                in case byte_range v of
                     Inl e \<Rightarrow> Inl e
                   | Inr (start, stop) \<Rightarrow>
                       if ma_address a + ma_size_bytes a < stop
                       then Inl (MemoryBoundsError ''view reaches past the allocation size'')
                       else Inr v))"

definition check_range :: "memory_allocation \<Rightarrow> interval \<Rightarrow> interval res" where
  "check_range a absolute =
     (if fst absolute < ma_address a \<or> ma_address a + ma_size_bytes a < snd absolute
      then Inl (MemoryBoundsError ''access escapes buffer'') else Inr absolute)"

definition resolve_ranges :: "memory_allocation \<Rightarrow> target \<Rightarrow> interval list res" where
  "resolve_ranges a t =
     (case (case t of TView v \<Rightarrow> address_ranges v | TRange r \<Rightarrow> Inr [r]) of
        Inl e \<Rightarrow> Inl e
      | Inr ranges \<Rightarrow> map_res (check_range a) ranges)"

definition resolve_physical_ranges :: "memory_allocation \<Rightarrow> target \<Rightarrow> interval list res" where
  "resolve_physical_ranges a t =
     (case (case t of TView v \<Rightarrow> physical_address_ranges v | TRange r \<Rightarrow> Inr [r]) of
        Inl e \<Rightarrow> Inl e
      | Inr ranges \<Rightarrow> map_res (check_range a) ranges)"

text \<open>\<open>find\<close> and \<open>rfind\<close> of a zero byte between two positions.\<close>

definition unset_positions :: "bool list \<Rightarrow> interval \<Rightarrow> int list" where
  "unset_positions initialized r =
     filter (\<lambda>i. \<not> initialized ! nat i) [fst r..min (snd r) (int (length initialized)) - 1]"

definition find_unset :: "bool list \<Rightarrow> interval \<Rightarrow> interval option" where
  "find_unset initialized r =
     (case unset_positions initialized r of
        [] \<Rightarrow> None
      | first # rest \<Rightarrow> Some (first, last (first # rest) + 1))"

definition missing_ranges :: "bool list \<Rightarrow> interval list \<Rightarrow> interval list" where
  "missing_ranges initialized ranges = List.map_filter (find_unset initialized) ranges"

definition read_diagnostic :: "memory_allocation \<Rightarrow> int \<Rightarrow> int \<Rightarrow> hazard_diagnostic" where
  "read_diagnostic a first stop =
     \<lparr>hd_kind = ''read-before-write'', hd_message = ''read-before-write in buffer'',
      hd_buffer = Some (bs_name (ma_spec a)), hd_core_id = ma_core_id a, hd_start = Some first,
      hd_end = Some stop, hd_metadata = []\<rparr>"

definition check_initialized_ranges ::
  "memory_runtime \<Rightarrow> memory_allocation \<Rightarrow> interval list \<Rightarrow> memory_runtime \<times> bool res" where
  "check_initialized_ranges rt a ranges =
     (case missing_ranges (as_initialized (space_of rt a)) ranges of
        [] \<Rightarrow> (rt, Inr True)
      | m # ms \<Rightarrow>
          (case report (mr_reporter rt) (read_diagnostic a (fst m) (snd (last (m # ms)))) UninitializedMemoryError of
             (reporter, Inl e) \<Rightarrow> (rt\<lparr>mr_reporter := reporter\<rparr>, Inl e)
           | (reporter, Inr _) \<Rightarrow> (rt\<lparr>mr_reporter := reporter\<rparr>, Inr False)))"

definition read_target :: "memory_runtime \<Rightarrow> memory_allocation \<Rightarrow> target \<Rightarrow> memory_runtime \<times> byte list res" where
  "read_target rt a t =
     (case resolve_ranges a t of
        Inl e \<Rightarrow> (rt, Inl e)
      | Inr ranges \<Rightarrow>
          (case check_initialized_ranges rt a ranges of
             (rt', Inl e) \<Rightarrow> (rt', Inl e)
           | (rt', Inr _) \<Rightarrow> (rt', Inr (concat (map (slice_get (as_data (space_of rt' a))) ranges)))))"

definition check_initialized ::
  "memory_runtime \<Rightarrow> memory_allocation \<Rightarrow> target \<Rightarrow> memory_runtime \<times> bool res" where
  "check_initialized rt a t =
     (case resolve_physical_ranges a t of
        Inl e \<Rightarrow> (rt, Inl e)
      | Inr ranges \<Rightarrow> check_initialized_ranges rt a ranges)"

definition mark_initialized :: "memory_runtime \<Rightarrow> memory_allocation \<Rightarrow> target \<Rightarrow> bool \<Rightarrow> memory_runtime res" where
  "mark_initialized rt a t initialized =
     (case resolve_physical_ranges a t of
        Inl e \<Rightarrow> Inl e
      | Inr ranges \<Rightarrow>
          (let space = space_of rt a
           in Inr (set_space rt a (space\<lparr>as_initialized :=
                foldl (\<lambda>bits r. slice_put bits r (replicate (nat (range_size r)) initialized))
                  (as_initialized space) ranges\<rparr>))))"

fun write_ranges :: "address_space \<Rightarrow> interval list \<Rightarrow> byte list \<Rightarrow> address_space" where
  "write_ranges space [] payload = space"
| "write_ranges space (r # rs) payload =
     (let n = nat (range_size r)
      in write_ranges (space\<lparr>as_data := slice_put (as_data space) r (take n payload),
                             as_initialized := slice_put (as_initialized space) r (replicate n True)\<rparr>)
           rs (drop n payload))"

definition write_target :: "memory_runtime \<Rightarrow> memory_allocation \<Rightarrow> target \<Rightarrow> byte list \<Rightarrow> memory_runtime res" where
  "write_target rt a t payload =
     (case resolve_ranges a t of
        Inl e \<Rightarrow> Inl e
      | Inr ranges \<Rightarrow>
          if int (length payload) \<noteq> (\<Sum>r \<leftarrow> ranges. range_size r)
          then Inl (MemoryBoundsError ''write to buffer expects another number of bytes'')
          else Inr (set_space rt a (write_ranges (space_of rt a) ranges payload)))"

definition is_initialized :: "memory_runtime \<Rightarrow> memory_allocation \<Rightarrow> target option \<Rightarrow> bool res" where
  "is_initialized rt a t =
     (case (case t of None \<Rightarrow> Inr [allocation_range a] | Some t \<Rightarrow> resolve_physical_ranges a t) of
        Inl e \<Rightarrow> Inl e
      | Inr ranges \<Rightarrow> Inr (list_all (\<lambda>r. list_all (\<lambda>b. b) (slice_get (as_initialized (space_of rt a)) r)) ranges))"

definition local_memory_high_watermark_bytes :: "memory_runtime \<Rightarrow> (string, int) dict" where
  "local_memory_high_watermark_bytes rt =
     foldl (\<lambda>usage ((scope, owner), backing).
        if scope \<in> set shared_scopes \<or> owner = None then usage
        else dict_set (scope_value scope)
               (max (dict_get usage (scope_value scope) 0) (int (length (as_data backing)))) usage)
       [] (mr_address_spaces rt)"

section \<open>Live local memory over time\<close>

fun buffer_regions :: "pyval \<Rightarrow> buffer_region list"
and regions_of_list :: "pyval list \<Rightarrow> buffer_region list"
and regions_of_items :: "(string \<times> pyval) list \<Rightarrow> buffer_region list" where
  "buffer_regions (PRegion r) = [r]"
| "buffer_regions (PMap items) = regions_of_items items"
| "buffer_regions (PSeq values) = regions_of_list values"
| "buffer_regions _ = []"
| "regions_of_list [] = []"
| "regions_of_list (v # vs) = buffer_regions v @ regions_of_list vs"
| "regions_of_items [] = []"
| "regions_of_items ((k, v) # rest) = buffer_regions v @ regions_of_items rest"

type_synonym lifetimes = "(nat, memory_allocation \<times> int \<times> int) dict"

definition extend_lifetime ::
  "memory_runtime \<Rightarrow> exec_record \<Rightarrow> int \<Rightarrow> lifetimes \<Rightarrow> buffer_region \<Rightarrow> lifetimes res" where
  "extend_lifetime rt record owner lifetimes region =
     (if br_scope region \<in> set shared_scopes then Inr lifetimes
      else case get_allocation rt (br_buffer region) (br_scope region) (Some owner) of
        Inl e \<Rightarrow> Inl e
      | Inr a \<Rightarrow>
          (case map_of lifetimes (ma_id a) of
             None \<Rightarrow> Inr (dict_set (ma_id a) (a, er_start_cycle record, er_end_cycle record) lifetimes)
           | Some (_, start, stop) \<Rightarrow>
               Inr (dict_set (ma_id a) (a, min start (er_start_cycle record), max stop (er_end_cycle record)) lifetimes)))"

definition record_lifetimes :: "memory_runtime \<Rightarrow> lifetimes \<Rightarrow> exec_record \<Rightarrow> lifetimes res" where
  "record_lifetimes rt lifetimes record =
     (if er_category record \<noteq> ''operation'' then Inr lifetimes
      else case (if er_lane record = VECTOR_1 then vector1_owner rt (er_core_id record)
                 else Inr (er_core_id record)) of
        Inl e \<Rightarrow> Inl e
      | Inr owner \<Rightarrow>
          for_each (extend_lifetime rt record owner) lifetimes (buffer_regions (PMap (er_metadata record))))"

type_synonym memory_transitions = "(int, (bool \<times> memory_allocation) list) dict"

definition add_transition :: "int \<Rightarrow> bool \<times> memory_allocation \<Rightarrow> memory_transitions \<Rightarrow> memory_transitions" where
  "add_transition cycle entry transitions =
     dict_set cycle (dict_get transitions cycle [] @ [entry]) transitions"

definition lifetime_transitions :: "lifetimes \<Rightarrow> memory_transitions" where
  "lifetime_transitions lifetimes =
     foldl (\<lambda>transitions (_, a, start, stop).
        add_transition stop (False, a) (add_transition start (True, a) transitions)) [] lifetimes"

text \<open>Leaving allocations are removed before entering ones are added.\<close>

definition step_active ::
  "(nat, memory_allocation) dict \<Rightarrow> (bool \<times> memory_allocation) list \<Rightarrow> (nat, memory_allocation) dict" where
  "step_active active entries =
     (let removed = foldl (\<lambda>d (entering, a). if entering then d else AList.delete (ma_id a) d) active entries
      in foldl (\<lambda>d (entering, a). if entering then dict_set (ma_id a) a d else d) removed entries)"

definition merged_range_size :: "interval list \<Rightarrow> int" where
  "merged_range_size ranges = union_length ranges"

definition live_by_scope :: "(nat, memory_allocation) dict \<Rightarrow> (string, int) dict" where
  "live_by_scope active =
     (let ranges = foldl (\<lambda>d (_, a). let key = (bs_scope (ma_spec a), ma_core_id a)
                                    in dict_set key (dict_get d key [] @ [allocation_range a]) d) [] active
      in foldl (\<lambda>d ((scope, _), intervals).
           dict_set (scope_value scope) (max (dict_get d (scope_value scope) 0) (merged_range_size intervals)) d)
           [] ranges)"

fun live_timeline ::
  "memory_transitions \<Rightarrow> (nat, memory_allocation) dict \<Rightarrow> int list \<Rightarrow> (int \<times> (string, int) dict) list" where
  "live_timeline transitions active [] = []"
| "live_timeline transitions active (cycle # cycles) =
     (let active' = step_active active (dict_get transitions cycle [])
      in (cycle, live_by_scope active') # live_timeline transitions active' cycles)"

definition local_memory_live_bytes ::
  "memory_runtime \<Rightarrow> exec_record list \<Rightarrow> (int \<times> (string, int) dict) list res" where
  "local_memory_live_bytes rt records =
     (case for_each (record_lifetimes rt) [] records of
        Inl e \<Rightarrow> Inl e
      | Inr lifetimes \<Rightarrow>
          (let transitions = lifetime_transitions lifetimes
           in Inr (live_timeline transitions [] (sort (map fst transitions)))))"

section \<open>Stores addressed by ranges\<close>

text \<open>
  What the access paths need of a byte store: a load inside the store returns what the last store
  to the same range wrote, a store leaves disjoint ranges and the size alone.
\<close>

definition in_store :: "nat \<Rightarrow> interval \<Rightarrow> bool" where
  "in_store n r \<longleftrightarrow> 0 \<le> fst r \<and> fst r \<le> snd r \<and> snd r \<le> int n"

definition disjoint_ranges :: "interval \<Rightarrow> interval \<Rightarrow> bool" where
  "disjoint_ranges a b \<longleftrightarrow> {fst a..<snd a} \<inter> {fst b..<snd b} = {}"

fun disjoint_list :: "interval list \<Rightarrow> bool" where
  "disjoint_list [] = True"
| "disjoint_list (r # rs) = ((\<forall>r' \<in> set rs. disjoint_ranges r r') \<and> disjoint_list rs)"

lemma disjoint_ranges_sym: "disjoint_ranges a b = disjoint_ranges b a"
  by (auto simp: disjoint_ranges_def)

locale ranged_store =
  fixes len :: "'s \<Rightarrow> nat"
    and load :: "'s \<Rightarrow> interval \<Rightarrow> 'b list"
    and store :: "'s \<Rightarrow> interval \<Rightarrow> 'b list \<Rightarrow> 's"
  assumes len_store: "in_store (len s) r \<Longrightarrow> length bs = nat (range_size r) \<Longrightarrow> len (store s r bs) = len s"
    and load_store: "in_store (len s) r \<Longrightarrow> length bs = nat (range_size r) \<Longrightarrow> load (store s r bs) r = bs"
    and load_other: "in_store (len s) r \<Longrightarrow> in_store (len s) r' \<Longrightarrow> length bs = nat (range_size r) \<Longrightarrow>
      disjoint_ranges r r' \<Longrightarrow> load (store s r bs) r' = load s r'"
begin

text \<open>Storing a list of payloads one after the other.\<close>

fun store_all :: "'s \<Rightarrow> (interval \<times> 'b list) list \<Rightarrow> 's" where
  "store_all s [] = s"
| "store_all s ((r, bs) # rest) = store_all (store s r bs) rest"

lemma store_all_frame:
  assumes "\<forall>(r, bs) \<in> set chunks. in_store (len s) r \<and> length bs = nat (range_size r) \<and> disjoint_ranges r r'"
    and "in_store (len s) r'"
  shows "len (store_all s chunks) = len s \<and> load (store_all s chunks) r' = load s r'"
  using assms by (induction s chunks rule: store_all.induct) (auto simp: len_store load_other)

lemma store_all_load:
  assumes "\<forall>(r, bs) \<in> set chunks. in_store (len s) r \<and> length bs = nat (range_size r)"
    and "disjoint_list (map fst chunks)"
  shows "map (load (store_all s chunks)) (map fst chunks) = map snd chunks"
  using assms
proof (induction s chunks rule: store_all.induct)
  case (1 s)
  then show ?case by simp
next
  case (2 s r bs rest)
  have r: "in_store (len s) r" "length bs = nat (range_size r)" using "2.prems"(1) by auto
  have "\<forall>(r', bs') \<in> set rest. disjoint_ranges r' r"
    using "2.prems"(2) by (force simp: disjoint_ranges_sym)
  then have "load (store_all (store s r bs) rest) r = load (store s r bs) r"
    using store_all_frame [of rest "store s r bs" r] "2.prems"(1) r by (auto simp: len_store)
  then show ?case using "2.IH" "2.prems" r by (auto simp: len_store load_store)
qed

end

lemma nat_int_minus: "nat (int b - int a) = b - a"
  by arith

lemma in_storeE:
  assumes "in_store n r"
  obtains a b where "r = (int a, int b)" "a \<le> b" "b \<le> n"
proof
  show "r = (int (nat (fst r)), int (nat (snd r)))" "nat (fst r) \<le> nat (snd r)" "nat (snd r) \<le> n"
    using assms by (auto simp: in_store_def prod_eq_iff)
qed

lemma slice_put_length: "in_store (length xs) r \<Longrightarrow> length ys = nat (range_size r) \<Longrightarrow> length (slice_put xs r ys) = length xs"
  by (auto simp: slice_put_def in_store_def range_size_def nat_diff_distrib max_def)

lemma slice_put_nth:
  assumes "in_store (length xs) r" "length ys = nat (range_size r)" "i < length xs"
  shows "slice_put xs r ys ! i = (if fst r \<le> int i \<and> int i < snd r then ys ! (i - nat (fst r)) else xs ! i)"
proof -
  obtain a b where r: "r = (int a, int b)" "a \<le> b" "b \<le> length xs" using assms(1) by (rule in_storeE)
  with assms show ?thesis by (auto simp: slice_put_def range_size_def nth_append max_def nat_int_minus)
qed

lemma slice_get_nth: "in_store (length xs) r \<Longrightarrow> i < nat (range_size r) \<Longrightarrow> slice_get xs r ! i = xs ! (nat (fst r) + i)"
  by (erule in_storeE) (simp add: slice_get_def range_size_def)

lemma slice_get_length: "in_store (length xs) r \<Longrightarrow> length (slice_get xs r) = nat (range_size r)"
  by (auto simp: slice_get_def in_store_def range_size_def nat_diff_distrib)

interpretation slices: ranged_store length slice_get slice_put
proof (unfold_locales, goal_cases)
  case (1 s r bs)
  then show ?case by (rule slice_put_length)
next
  case (2 s r bs)
  show ?case
  proof (rule nth_equalityI)
    show "length (slice_get (slice_put s r bs) r) = length bs"
      using 2 slice_get_length [of "slice_put s r bs" r] by (simp add: slice_put_length)
    fix i assume "i < length (slice_get (slice_put s r bs) r)"
    then have i: "i < nat (range_size r)" using 2 by (simp add: slice_put_length slice_get_length)
    obtain a b where "r = (int a, int b)" "a \<le> b" "b \<le> length s" using 2(1) by (rule in_storeE)
    with 2 i show "slice_get (slice_put s r bs) r ! i = bs ! i"
      by (simp add: slice_get_nth slice_put_nth slice_put_length range_size_def nat_int_minus, linarith)
  qed
next
  case (3 s r r' bs)
  show ?case
  proof (rule nth_equalityI)
    show "length (slice_get (slice_put s r bs) r') = length (slice_get s r')"
      using 3 by (simp add: slice_get_length slice_put_length)
    fix i assume "i < length (slice_get (slice_put s r bs) r')"
    then have i: "i < nat (range_size r')" using 3 by (simp add: slice_get_length slice_put_length)
    let ?x = "fst r' + int i"
    have "?x \<in> {fst r'..<snd r'}" using i 3 by (auto simp: range_size_def in_store_def)
    with 3(4) have "\<not> (fst r \<le> ?x \<and> ?x < snd r)" by (auto simp: disjoint_ranges_def)
    obtain a b where "r' = (int a, int b)" "a \<le> b" "b \<le> length s" using 3(2) by (rule in_storeE)
    with 3 i \<open>\<not> (fst r \<le> ?x \<and> ?x < snd r)\<close> show "slice_get (slice_put s r bs) r' ! i = slice_get s r' ! i"
      by (auto simp: slice_get_nth slice_put_length slice_put_nth range_size_def)
  qed
qed

end
