(* ===== verification/Sim_Memory_Props.thy ===== *)
theory Sim_Memory_Props
  imports Sim_Memory
begin

text \<open>
  Properties of the memory runtime: views never escape their allocation, a write is read back and
  changes nothing else, a read of bytes never written is reported, allocation keeps the invariant
  of the runtime and never overlaps by itself.
\<close>

section \<open>Views stay inside their allocation\<close>

lemma make_view_Inr:
  assumes "make_view a byte_offset shape dtype strides = Inr v" and "0 \<le> ma_address a"
  shows "mv_allocation v = a \<and> view_wf v \<and> ma_address a \<le> mv_start v \<and>
    (\<exists>start stop. byte_range v = Inr (start, stop) \<and> stop \<le> ma_address a + ma_size_bytes a)"
proof -
  from assms(1) have "mv_allocation v = a" "0 \<le> mv_byte_offset v"
    "length (mv_strides_bytes v) = length (mv_shape v)" "\<forall>n \<in> set (mv_strides_bytes v). 0 \<le> n"
    "\<forall>n \<in> set (mv_shape v). 0 \<le> n"
    "\<exists>start stop. byte_range v = Inr (start, stop) \<and> stop \<le> ma_address a + ma_size_bytes a"
    by (auto simp: make_view_def Let_def not_less split: sum.splits if_split_asm prod.splits option.splits)
  with assms(2) show ?thesis by (simp add: view_wf_def mv_start_def)
qed

lemma map_res_check_range:
  "within (ma_address a) (ma_address a + ma_size_bytes a) rs \<Longrightarrow> map_res (check_range a) rs = Inr rs"
  by (induction rs) (auto simp: check_range_def within_def)

lemma within_mono: "within lo hi rs \<Longrightarrow> lo' \<le> lo \<Longrightarrow> hi \<le> hi' \<Longrightarrow> within lo' hi' rs"
  by (fastforce simp: within_def)

lemma view_ranges_resolve:
  assumes "make_view a byte_offset shape dtype strides = Inr v" "0 \<le> ma_address a"
  shows "\<exists>rs. address_ranges v = Inr rs \<and> resolve_ranges a (TView v) = Inr rs \<and> proper rs \<and>
    within (ma_address a) (ma_address a + ma_size_bytes a) rs"
proof (cases "0 \<in> set (mv_shape v)")
  case True
  then show ?thesis by (simp add: address_ranges_def resolve_ranges_def within_def)
next
  case False
  note v = make_view_Inr [OF assms]
  then obtain start stop where range: "byte_range v = Inr (start, stop)" "stop \<le> ma_address a + ma_size_bytes a"
    by blast
  with False obtain w where "dtype_size_bytes (mv_dtype v) = Inr w"
    by (auto simp: byte_range_def Let_def split: sum.splits)
  with address_ranges_elements v obtain rs where rs: "address_ranges v = Inr rs" "proper rs"
    "within (mv_start v) stop rs"
    using range(1) by blast
  then have "within (ma_address a) (ma_address a + ma_size_bytes a) rs"
    using v range(2) by (blast intro: within_mono)
  with rs show ?thesis by (simp add: resolve_ranges_def map_res_check_range)
qed

section \<open>Writing and reading\<close>

fun chunks :: "interval list \<Rightarrow> 'b list \<Rightarrow> 'b list list" where
  "chunks [] payload = []"
| "chunks (r # rs) payload = take (nat (range_size r)) payload # chunks rs (drop (nat (range_size r)) payload)"

lemma length_chunks [simp]: "length (chunks rs payload) = length rs"
  by (induction rs payload rule: chunks.induct) auto

lemma chunk_lengths:
  "proper rs \<Longrightarrow> int (length payload) = (\<Sum>r \<leftarrow> rs. range_size r) \<Longrightarrow> (r, c) \<in> set (zip rs (chunks rs payload)) \<Longrightarrow>
     length c = nat (range_size r)"
proof (induction rs payload rule: chunks.induct)
  case (2 q rs payload)
  have "0 \<le> (\<Sum>r \<leftarrow> rs. range_size r)" using 2(2) by (intro sum_list_nonneg) (auto simp: proper_def range_size_def)
  moreover have "0 \<le> range_size q" using 2(2) by (auto simp: proper_def range_size_def split: prod.splits)
  ultimately have "nat (range_size q) \<le> length payload" using 2(3) by simp
  with 2 \<open>0 \<le> range_size q\<close> show ?case by (auto simp: proper_def)
qed simp

lemma concat_chunks:
  "proper rs \<Longrightarrow> int (length payload) = (\<Sum>r \<leftarrow> rs. range_size r) \<Longrightarrow> concat (chunks rs payload) = payload"
proof (induction rs payload rule: chunks.induct)
  case (2 q rs payload)
  have "0 \<le> (\<Sum>r \<leftarrow> rs. range_size r)" using 2(2) by (intro sum_list_nonneg) (auto simp: proper_def range_size_def)
  moreover have "0 \<le> range_size q" using 2(2) by (auto simp: proper_def range_size_def split: prod.splits)
  ultimately have "nat (range_size q) \<le> length payload" using 2(3) by simp
  with 2 \<open>0 \<le> range_size q\<close> show ?case by (auto simp: proper_def)
qed simp

lemma write_ranges_data: "as_data (write_ranges space rs payload) = slices.store_all (as_data space) (zip rs (chunks rs payload))"
  by (induction space rs payload rule: write_ranges.induct) (simp_all add: Let_def)

lemma write_ranges_initialized:
  "as_initialized (write_ranges space rs payload) =
     slices.store_all (as_initialized space) (map (\<lambda>r. (r, replicate (nat (range_size r)) True)) rs)"
  by (induction space rs payload rule: write_ranges.induct) (simp_all add: Let_def)

text \<open>Ranges that list no byte twice are pairwise disjoint.\<close>

lemma distinct_range_bytes: "distinct (range_bytes rs) \<Longrightarrow> disjoint_list rs"
proof (induction rs)
  case (Cons r rs)
  have "range_bytes (r # rs) = [fst r..snd r - 1] @ range_bytes rs"
    by (simp add: range_bytes_def split: prod.splits)
  then have d: "set [fst r..snd r - 1] \<inter> set (range_bytes rs) = {}" "distinct (range_bytes rs)"
    using Cons.prems by (simp_all only: distinct_append)
  have up: "set [fst r..snd r - 1] = {fst r..<snd r}" by auto
  have "{fst r'..<snd r'} \<subseteq> set (range_bytes rs)" if "r' \<in> set rs" for r'
    using that by (force simp: range_bytes_def split: prod.splits)
  with d(1) have "\<forall>r' \<in> set rs. disjoint_ranges r r'" unfolding disjoint_ranges_def up by blast
  with Cons.IH [OF d(2)] show ?case by simp
qed simp

definition space_wf :: "address_space \<Rightarrow> bool" where
  "space_wf space \<longleftrightarrow> length (as_initialized space) = length (as_data space)"

lemma slices_len: "\<forall>(r, bs) \<in> set cs. in_store (length xs) r \<and> length bs = nat (range_size r) \<Longrightarrow> length (slices.store_all xs cs) = length xs"
  by (induction xs cs rule: slices.store_all.induct) (auto simp: slice_put_length)

lemma in_store_within: "within lo hi rs \<Longrightarrow> proper rs \<Longrightarrow> 0 \<le> lo \<Longrightarrow> hi \<le> int n \<Longrightarrow> r \<in> set rs \<Longrightarrow> in_store n r"
  by (cases r) (auto simp: within_def proper_def in_store_def)

lemma write_ranges_read:
  assumes wf: "space_wf space" and rs: "within lo hi rs" "proper rs" "0 \<le> lo" "hi \<le> int (length (as_data space))"
    and len: "int (length payload) = (\<Sum>r \<leftarrow> rs. range_size r)" and dist: "distinct (range_bytes rs)"
  shows "concat (map (slice_get (as_data (write_ranges space rs payload))) rs) = payload"
    and "\<forall>r \<in> set rs. slice_get (as_initialized (write_ranges space rs payload)) r = replicate (nat (range_size r)) True"
proof -
  have store: "r \<in> set rs \<Longrightarrow> in_store (length (as_data space)) r" for r
    using in_store_within [OF rs(1-4)] by blast
  have disj: "disjoint_list rs" using dist by (rule distinct_range_bytes)
  have "map (slice_get (slices.store_all (as_data space) (zip rs (chunks rs payload)))) rs = chunks rs payload"
  proof -
    have "\<forall>(r, c) \<in> set (zip rs (chunks rs payload)). in_store (length (as_data space)) r \<and> length c = nat (range_size r)"
      using store chunk_lengths [OF rs(2) len] by (auto dest: set_zip_leftD)
    from slices.store_all_load [OF this] disj show ?thesis by simp
  qed
  then show "concat (map (slice_get (as_data (write_ranges space rs payload))) rs) = payload"
    by (simp add: write_ranges_data concat_chunks [OF rs(2) len])
  let ?marks = "map (\<lambda>r. (r, replicate (nat (range_size r)) True)) rs"
  have "map (slice_get (slices.store_all (as_initialized space) ?marks)) (map fst ?marks) = map snd ?marks"
    using store wf disj by (intro slices.store_all_load) (auto simp: space_wf_def comp_def)
  then show "\<forall>r \<in> set rs. slice_get (as_initialized (write_ranges space rs payload)) r = replicate (nat (range_size r)) True"
    by (simp add: write_ranges_initialized comp_def map_eq_conv)
qed


lemma unset_positions_iff:
  assumes "in_store (length bits) r"
  shows "unset_positions bits r = [] \<longleftrightarrow> list_all (\<lambda>b. b) (slice_get bits r)"
proof -
  obtain a b where r: "r = (int a, int b)" "a \<le> b" "b \<le> length bits" using assms by (rule in_storeE)
  have "unset_positions bits r = [] \<longleftrightarrow> (\<forall>i. int a \<le> i \<and> i < int b \<longrightarrow> bits ! nat i)"
    using r by (auto simp: unset_positions_def filter_empty_conv)
  also have "\<dots> \<longleftrightarrow> (\<forall>i < b - a. bits ! (a + i))"
  proof (intro iffI allI impI)
    fix i assume "\<forall>i. int a \<le> i \<and> i < int b \<longrightarrow> bits ! nat i" "i < b - a"
    then have "bits ! nat (int (a + i))" by (metis add_left_mono le_add1 of_nat_less_iff of_nat_mono less_diff_conv add.commute)
    then show "bits ! (a + i)" by (simp only: nat_int)
  next
    fix i assume "\<forall>i < b - a. bits ! (a + i)" "int a \<le> i \<and> i < int b"
    then have "nat i - a < b - a" "a + (nat i - a) = nat i" by auto
    with \<open>\<forall>i < b - a. bits ! (a + i)\<close> show "bits ! nat i" by metis
  qed
  also have "\<dots> \<longleftrightarrow> list_all (\<lambda>b. b) (slice_get bits r)"
    using r by (auto simp: list_all_length slice_get_def nat_int_minus)
  finally show ?thesis .
qed

lemma missing_ranges_Nil:
  "\<forall>r \<in> set rs. in_store (length bits) r \<Longrightarrow>
     missing_ranges bits rs = [] \<longleftrightarrow> (\<forall>r \<in> set rs. list_all (\<lambda>b. b) (slice_get bits r))"
proof (induction rs)
  case (Cons r rs)
  have "find_unset bits r = None \<longleftrightarrow> list_all (\<lambda>b. b) (slice_get bits r)"
    using unset_positions_iff [of bits r] Cons.prems by (auto simp: find_unset_def split: list.splits)
  with Cons show ?case by (cases "find_unset bits r") (auto simp: missing_ranges_def map_filter_simps)
qed (simp add: missing_ranges_def map_filter_simps)

definition alloc_ok :: "memory_runtime \<Rightarrow> memory_allocation \<Rightarrow> bool" where
  "alloc_ok rt a \<longleftrightarrow> 0 \<le> ma_address a \<and> 0 \<le> ma_size_bytes a \<and> space_wf (space_of rt a) \<and>
     ma_address a + ma_size_bytes a \<le> int (length (as_data (space_of rt a)))"

lemma length_range_bytes: "proper rs \<Longrightarrow> int (length (range_bytes rs)) = (\<Sum>r \<leftarrow> rs. range_size r)"
  by (induction rs) (auto simp: range_bytes_def range_size_def)

lemma length_index_tuples: "\<forall>n \<in> set shape. 0 \<le> n \<Longrightarrow> int (length (index_tuples shape)) = prod_list shape"
  by (induction shape) (simp_all add: length_concat comp_def sum_list_triv)

lemma length_element_bytes:
  assumes "view_wf v" "dtype_size_bytes (mv_dtype v) = Inr w"
  shows "int (length (element_bytes v w)) = prod_list (mv_shape v) * w"
proof -
  have "0 \<le> w" using assms(2) by (rule dtype_size_nonneg)
  then have "int (length (element_bytes v w)) = int (length (index_tuples (mv_shape v))) * w"
    by (simp add: element_bytes_def tuple_bytes_def length_concat comp_def sum_list_triv)
  with assms(1) show ?thesis by (simp add: length_index_tuples view_wf_def)
qed

text \<open>What a valid view of an allocation resolves to.\<close>

lemma view_target:
  assumes view: "make_view a byte_offset shape dtype strides = Inr v" and ok: "alloc_ok rt a"
    and item: "dtype_size_bytes (mv_dtype v) = Inr w"
  shows "\<exists>rs. resolve_ranges a (TView v) = Inr rs \<and> proper rs \<and> range_bytes rs = element_bytes v w \<and>
    within (ma_address a) (ma_address a + ma_size_bytes a) rs \<and>
    (\<forall>r \<in> set rs. in_store (length (as_data (space_of rt a))) r) \<and>
    (\<Sum>r \<leftarrow> rs. range_size r) = prod_list (mv_shape v) * w"
proof -
  have addr: "0 \<le> ma_address a" using ok by (simp add: alloc_ok_def)
  obtain rs where rs: "address_ranges v = Inr rs" "resolve_ranges a (TView v) = Inr rs" "proper rs"
    "within (ma_address a) (ma_address a + ma_size_bytes a) rs"
    using view_ranges_resolve [OF view addr] by blast
  have wf: "view_wf v" using make_view_Inr [OF view addr] by blast
  have bytes: "range_bytes rs = element_bytes v w"
    using address_ranges_elements [OF wf item] rs(1) by auto
  moreover have "\<forall>r \<in> set rs. in_store (length (as_data (space_of rt a))) r"
    using in_store_within [OF rs(4,3) addr] ok by (auto simp: alloc_ok_def)
  moreover have "(\<Sum>r \<leftarrow> rs. range_size r) = prod_list (mv_shape v) * w"
    using length_range_bytes [OF rs(3)] length_element_bytes [OF wf item] bytes by simp
  ultimately show ?thesis using rs by blast
qed

lemma space_of_set [simp]: "space_of (set_space rt a space) a = space"
  by (simp add: space_of_def set_space_def dict_get_set)

lemma write_read:
  assumes view: "make_view a byte_offset shape dtype strides = Inr v" and ok: "alloc_ok rt a"
    and nbytes: "view_nbytes v = Inr (int (length payload))"
    and dist: "\<And>w. dtype_size_bytes (mv_dtype v) = Inr w \<Longrightarrow> distinct (element_bytes v w)"
  shows "\<exists>rt'. write_target rt a (TView v) payload = Inr rt' \<and> read_target rt' a (TView v) = (rt', Inr payload)"
proof -
  obtain w where w: "dtype_size_bytes (mv_dtype v) = Inr w" "int (length payload) = prod_list (mv_shape v) * w"
    using nbytes by (cases "dtype_size_bytes (mv_dtype v)") (auto simp: view_nbytes_def)
  obtain rs where rs: "resolve_ranges a (TView v) = Inr rs" "proper rs" "range_bytes rs = element_bytes v w"
    "within (ma_address a) (ma_address a + ma_size_bytes a) rs"
    "\<forall>r \<in> set rs. in_store (length (as_data (space_of rt a))) r"
    "(\<Sum>r \<leftarrow> rs. range_size r) = prod_list (mv_shape v) * w"
    using view_target [OF view ok w(1)] by blast
  let ?space = "write_ranges (space_of rt a) rs payload"
  let ?rt = "set_space rt a ?space"
  have okay: "space_wf (space_of rt a)" "0 \<le> ma_address a"
    "ma_address a + ma_size_bytes a \<le> int (length (as_data (space_of rt a)))"
    using ok by (auto simp: alloc_ok_def)
  have len: "int (length payload) = (\<Sum>r \<leftarrow> rs. range_size r)" using w(2) rs(6) by simp
  have d: "distinct (range_bytes rs)" using dist [OF w(1)] rs(3) by simp
  note again = write_ranges_read [OF okay(1) rs(4,2) okay(2,3) len d]
  have "length (as_initialized ?space) = length (as_data (space_of rt a))"
    unfolding write_ranges_initialized using slices_len [of "map (\<lambda>r. (r, replicate (nat (range_size r)) True)) rs"
      "as_initialized (space_of rt a)"] okay(1) rs(5) by (simp add: space_wf_def)
  then have "missing_ranges (as_initialized ?space) rs = []"
    using rs(5) again(2) by (subst missing_ranges_Nil) (auto simp: list_all_iff)
  then have "read_target ?rt a (TView v) = (?rt, Inr payload)"
    by (simp add: read_target_def rs(1) check_initialized_ranges_def again(1))
  moreover have "write_target rt a (TView v) payload = Inr ?rt"
    by (simp add: write_target_def rs(1) len)
  ultimately show ?thesis by blast
qed


lemma within_merge: "within lo hi ivs \<Longrightarrow> within lo hi merged \<Longrightarrow> within lo hi (foldl merge_step merged ivs)"
proof (induction ivs arbitrary: merged)
  case (Cons iv ivs)
  obtain s e where iv: "iv = (s, e)" by (cases iv)
  have "within lo hi (merge_step merged (s, e))"
  proof (cases "merged \<noteq> [] \<and> s \<le> snd (last merged)")
    case True
    then obtain xs a b where "merged = xs @ [(a, b)]" by (metis append_butlast_last_id surj_pair)
    with True Cons.prems show ?thesis by (auto simp: merge_step_def within_def iv)
  next
    case False
    with Cons.prems show ?thesis by (auto simp: merge_step_def within_def iv)
  qed
  with Cons.IH Cons.prems(1) show ?case by (simp add: iv within_def)
qed simp

lemma view_physical_resolve:
  assumes "make_view a byte_offset shape dtype strides = Inr v" "0 \<le> ma_address a"
  shows "\<exists>rs. physical_address_ranges v = Inr rs \<and> resolve_physical_ranges a (TView v) = Inr rs"
proof -
  note v = make_view_Inr [OF assms]
  obtain rs where rs: "address_ranges v = Inr rs" "within (ma_address a) (ma_address a + ma_size_bytes a) rs"
    using view_ranges_resolve [OF assms] by blast
  obtain start stop where range: "byte_range v = Inr (start, stop)" "stop \<le> ma_address a + ma_size_bytes a"
    using v by blast
  have "start = mv_start v"
    using range(1) by (auto simp: byte_range_def AddressRange_def Let_def split: if_splits sum.splits)
  then have single: "within (ma_address a) (ma_address a + ma_size_bytes a) [(start, stop)]"
    using v range(2) by (simp add: within_def)
  have "within (ma_address a) (ma_address a + ma_size_bytes a) (merge_intervals rs)"
    unfolding merge_intervals_def using rs(2) by (intro within_merge) (auto simp: within_def)
  moreover have "physical_address_ranges v \<in> {Inr [], Inr [(start, stop)], Inr (merge_intervals rs)}"
  proof (cases "0 \<in> set (mv_shape v)")
    case True
    then show ?thesis by (simp add: physical_address_ranges_def)
  next
    case False
    then obtain w where "dtype_size_bytes (mv_dtype v) = Inr w"
      using range(1) by (auto simp: byte_range_def Let_def split: sum.splits)
    with False rs range show ?thesis by (simp add: physical_address_ranges_def)
  qed
  moreover have "within (ma_address a) (ma_address a + ma_size_bytes a) []" by (simp add: within_def)
  ultimately obtain prs where "physical_address_ranges v = Inr prs"
    "within (ma_address a) (ma_address a + ma_size_bytes a) prs"
    using single by blast
  then show ?thesis by (simp add: resolve_physical_ranges_def map_res_check_range)
qed

lemma slice_get_map: "in_store (length xs) r \<Longrightarrow> slice_get xs r = map (\<lambda>x. xs ! nat x) [fst r..snd r - 1]"
  by (erule in_storeE) (auto simp: slice_get_def nat_int_minus nat_add_distrib intro!: nth_equalityI)

lemma concat_slices:
  "\<forall>r \<in> set rs. in_store (length xs) r \<Longrightarrow> concat (map (slice_get xs) rs) = map (\<lambda>x. xs ! nat x) (range_bytes rs)"
  by (induction rs) (auto simp: range_bytes_def slice_get_map)

lemma write_ranges_frame:
  assumes "\<forall>r \<in> set rs. in_store (length (as_data space)) r" "proper rs" "space_wf space"
    "int (length payload) = (\<Sum>r \<leftarrow> rs. range_size r)"
  shows "length (as_data (write_ranges space rs payload)) = length (as_data space) \<and>
    space_wf (write_ranges space rs payload) \<and>
    (\<forall>i < length (as_data space). int i \<notin> cover rs \<longrightarrow>
       as_data (write_ranges space rs payload) ! i = as_data space ! i \<and>
       as_initialized (write_ranges space rs payload) ! i = as_initialized space ! i)"
  using assms
proof (induction space rs payload rule: write_ranges.induct)
  case (1 space payload)
  then show ?case by simp
next
  case (2 space r rs payload)
  let ?n = "nat (range_size r)"
  let ?space = "space\<lparr>as_data := slice_put (as_data space) r (take ?n payload),
    as_initialized := slice_put (as_initialized space) r (replicate ?n True)\<rparr>"
  have r: "in_store (length (as_data space)) r" "0 \<le> range_size r"
    using "2.prems"(1,2) by (auto simp: in_store_def range_size_def)
  have "0 \<le> (\<Sum>r \<leftarrow> rs. range_size r)"
    using "2.prems"(1) by (intro sum_list_nonneg) (auto simp: in_store_def range_size_def)
  then have n: "length (take ?n payload) = ?n" "int (length (drop ?n payload)) = (\<Sum>r \<leftarrow> rs. range_size r)"
    using "2.prems"(4) r(2) by simp_all
  have init: "length (as_initialized space) = length (as_data space)" using "2.prems"(3) by (simp add: space_wf_def)
  have "length (as_data ?space) = length (as_data space)" "space_wf ?space"
    using r(1) n(1) init by (simp_all add: space_wf_def slice_put_length)
  moreover have "proper rs" using "2.prems"(2) by (cases r) simp
  ultimately have ih: "length (as_data (write_ranges ?space rs (drop ?n payload))) = length (as_data space)"
    "space_wf (write_ranges ?space rs (drop ?n payload))"
    "\<forall>i < length (as_data space). int i \<notin> cover rs \<longrightarrow>
       as_data (write_ranges ?space rs (drop ?n payload)) ! i = as_data ?space ! i \<and>
       as_initialized (write_ranges ?space rs (drop ?n payload)) ! i = as_initialized ?space ! i"
    using "2.IH" [OF refl] "2.prems"(1) n(2) by auto
  have "as_data ?space ! i = as_data space ! i \<and> as_initialized ?space ! i = as_initialized space ! i"
    if "i < length (as_data space)" "int i \<notin> {fst r..<snd r}" for i
    using that r(1) n(1) init by (auto simp: slice_put_nth)
  moreover have "cover (r # rs) = {fst r..<snd r} \<union> cover rs" by (cases r) simp
  ultimately show ?case using ih by (simp add: Let_def)
qed

section \<open>Allocation\<close>

definition allocation_in :: "memory_runtime \<Rightarrow> allocation_key \<Rightarrow> memory_allocation \<Rightarrow> bool" where
  "allocation_in rt key a \<longleftrightarrow> ma_space a = (fst key, fst (snd key)) \<and> alloc_ok rt a \<and>
     ma_address a + ma_size_bytes a \<le> dict_get (mr_next_address rt) (ma_space a) 0 \<and>
     (\<forall>capacity. map_of (mr_local_capacities rt) (fst key) = Some capacity \<longrightarrow>
        ma_address a + ma_size_bytes a \<le> capacity)"

definition runtime_wf :: "memory_runtime \<Rightarrow> bool" where
  "runtime_wf rt \<longleftrightarrow> (\<forall>space. 0 \<le> dict_get (mr_next_address rt) space 0) \<and>
     (\<forall>key space. map_of (mr_address_spaces rt) key = Some space \<longrightarrow> space_wf space) \<and>
     distinct (map fst (mr_allocations rt)) \<and>
     (\<forall>key a. map_of (mr_allocations rt) key = Some a \<longrightarrow> allocation_in rt key a)"

lemma ensure_size_props:
  "space_wf space \<Longrightarrow> space_wf (ensure_size space n)"
  "length (as_data space) \<le> length (as_data (ensure_size space n))"
  "n \<le> int (length (as_data (ensure_size space n)))"
  by (auto simp: ensure_size_def space_wf_def Let_def)

text \<open>A successful call took every branch that continues.\<close>

lemma allocate_Inr:
  assumes "allocate rt spec core address = (rt', Inr a)"
  shows "\<exists>owner size_bytes base reporter. normalize_owner rt (bs_scope spec) core = Inr owner \<and>
    map_of (mr_allocations rt) (bs_scope spec, owner, bs_name spec) = None \<and> buffer_size_bytes spec = Inr size_bytes \<and>
    base = (case (case address of None \<Rightarrow> bs_address spec | Some x \<Rightarrow> Some x) of
              None \<Rightarrow> dict_get (mr_next_address rt) (bs_scope spec, owner) 0 | Some x \<Rightarrow> x) \<and>
    0 \<le> base \<and> 0 \<le> size_bytes \<and>
    (\<forall>capacity. map_of (mr_local_capacities rt) (bs_scope spec) = Some capacity \<longrightarrow> base + size_bytes \<le> capacity) \<and>
    a = \<lparr>ma_id = mr_next_id rt, ma_spec = spec, ma_size_bytes = size_bytes, ma_address = base,
         ma_core_id = owner, ma_space = (bs_scope spec, owner)\<rparr> \<and>
    rt' = rt\<lparr>mr_reporter := reporter,
      mr_allocations := dict_set (bs_scope spec, owner, bs_name spec) a (mr_allocations rt),
      mr_next_address := dict_set (bs_scope spec, owner)
        (max (dict_get (mr_next_address rt) (bs_scope spec, owner) 0) (base + size_bytes)) (mr_next_address rt),
      mr_address_spaces := dict_set (bs_scope spec, owner)
        (ensure_size (dict_get (mr_address_spaces rt) (bs_scope spec, owner) empty_space) (base + size_bytes))
        (mr_address_spaces rt),
      mr_next_id := mr_next_id rt + 1\<rparr>"
  using assms unfolding allocate_def
  by (auto simp: Let_def AddressRange_def not_less split: sum.splits if_split_asm option.splits prod.splits)

lemma runtime_space_wf: "runtime_wf rt \<Longrightarrow> space_wf (dict_get (mr_address_spaces rt) key empty_space)"
proof (cases "map_of (mr_address_spaces rt) key")
  case None
  then show ?thesis by (simp add: dict_get_def empty_space_def space_wf_def)
next
  case (Some space)
  moreover assume "runtime_wf rt"
  ultimately have "space_wf space" unfolding runtime_wf_def by blast
  with Some show ?thesis by (simp add: dict_get_def)
qed

lemma allocate_wf:
  assumes wf: "runtime_wf rt" and call: "allocate rt spec core address = (rt', Inr a)"
  shows "runtime_wf rt'"
proof -
  obtain owner size_bytes base reporter where
    base: "0 \<le> base" "0 \<le> size_bytes"
      "\<forall>capacity. map_of (mr_local_capacities rt) (bs_scope spec) = Some capacity \<longrightarrow> base + size_bytes \<le> capacity"
    and a: "a = \<lparr>ma_id = mr_next_id rt, ma_spec = spec, ma_size_bytes = size_bytes, ma_address = base,
         ma_core_id = owner, ma_space = (bs_scope spec, owner)\<rparr>"
    and rt': "rt' = rt\<lparr>mr_reporter := reporter,
      mr_allocations := dict_set (bs_scope spec, owner, bs_name spec) a (mr_allocations rt),
      mr_next_address := dict_set (bs_scope spec, owner)
        (max (dict_get (mr_next_address rt) (bs_scope spec, owner) 0) (base + size_bytes)) (mr_next_address rt),
      mr_address_spaces := dict_set (bs_scope spec, owner)
        (ensure_size (dict_get (mr_address_spaces rt) (bs_scope spec, owner) empty_space) (base + size_bytes))
        (mr_address_spaces rt),
      mr_next_id := mr_next_id rt + 1\<rparr>"
    using allocate_Inr [OF call] by blast
  have spaces: "space_wf (ensure_size (dict_get (mr_address_spaces rt) (bs_scope spec, owner) empty_space) n)" for n
    using runtime_space_wf [OF wf] by (rule ensure_size_props)
  have kept: "alloc_ok rt' b" if "alloc_ok rt b" for b
    using that spaces ensure_size_props(2) [of "dict_get (mr_address_spaces rt) (bs_scope spec, owner) empty_space" "base + size_bytes"]
    by (auto simp: alloc_ok_def space_of_def rt' dict_get_set)
  have new: "alloc_ok rt' a"
    using base spaces ensure_size_props(3) [where n = "base + size_bytes"]
    by (auto simp: alloc_ok_def space_of_def rt' dict_get_set a)
  have grows: "dict_get (mr_next_address rt) key 0 \<le> dict_get (mr_next_address rt') key 0" for key
    by (simp add: rt' dict_get_set)
  have "allocation_in rt' key b" if "map_of (mr_allocations rt') key = Some b" for key b
  proof (cases "key = (bs_scope spec, owner, bs_name spec)")
    case True
    with that have "b = a" by (simp add: rt')
    with True new base show ?thesis by (simp add: allocation_in_def a rt' dict_get_set)
  next
    case False
    with that have "map_of (mr_allocations rt) key = Some b" by (simp add: rt')
    then have "allocation_in rt key b" using wf unfolding runtime_wf_def by blast
    with kept order_trans [OF _ grows] show ?thesis by (auto simp: allocation_in_def) (auto simp: rt')
  qed
  moreover have "0 \<le> dict_get (mr_next_address rt') key 0" for key
    using wf grows [of key] by (meson order_trans runtime_wf_def)
  moreover have "space_wf space" if "map_of (mr_address_spaces rt') key = Some space" for key space
  proof (cases "key = (bs_scope spec, owner)")
    case True
    with that spaces show ?thesis by (auto simp: rt')
  next
    case False
    with that have "map_of (mr_address_spaces rt) key = Some space" by (simp add: rt')
    then show ?thesis using wf unfolding runtime_wf_def by blast
  qed
  moreover have "distinct (map fst (mr_allocations rt'))"
    using wf by (simp add: rt' runtime_wf_def)
  ultimately show ?thesis by (simp add: runtime_wf_def)
qed

lemma clashing_fresh:
  assumes "runtime_wf rt"
  shows "clashing rt spec owner (dict_get (mr_next_address rt) (bs_scope spec, owner) 0, stop) = []"
proof -
  have "\<not> overlaps (dict_get (mr_next_address rt) (bs_scope spec, owner) 0, stop) (allocation_range b)"
    if "((bs_scope spec, owner, name), b) \<in> set (mr_allocations rt)" for name b
  proof -
    have "map_of (mr_allocations rt) (bs_scope spec, owner, name) = Some b"
      using that assms by (simp add: runtime_wf_def)
    then have "allocation_in rt (bs_scope spec, owner, name) b" using assms by (simp add: runtime_wf_def)
    then show ?thesis by (auto simp: allocation_in_def overlaps_def allocation_range_def)
  qed
  then show ?thesis by (auto simp: clashing_def filter_empty_conv)
qed

section \<open>Properties\<close>


definition sample_allocation :: memory_allocation where
  "sample_allocation = \<lparr>ma_id = 0, ma_spec = sample_spec, ma_size_bytes = 128, ma_address = 32,
     ma_core_id = Some 0, ma_space = (UB, Some 0)\<rparr>"

lemma sample_make_view: "make_view sample_allocation 4 (Some [RInt 2, RInt 3]) None (Some [2, 16]) = Inr sample_view"
  by (simp add: make_view_def sample_allocation_def sample_view_def sample_spec_def byte_range_def mv_start_def
      AddressRange_def float16_size Let_def)


text \<open>
  C26: Writing a payload of the view's size to a view whose elements do not overlap succeeds, and
  reading the view back returns the payload without reporting a hazard.
\<close>

theorem write_read_roundtrip:
  assumes "make_view a byte_offset shape dtype strides = Inr v" and "alloc_ok rt a"
    and "view_nbytes v = Inr (int (length payload))"
    and "\<And>w. dtype_size_bytes (mv_dtype v) = Inr w \<Longrightarrow> distinct (element_bytes v w)"
  shows "\<exists>rt'. write_target rt a (TView v) payload = Inr rt' \<and> read_target rt' a (TView v) = (rt', Inr payload)"
  using assms by (rule write_read)

definition sample_runtime :: memory_runtime where
  "sample_runtime = \<lparr>mr_core_ids = [0], mr_vector1_owner_offset = 1, mr_local_owner_ids = [0, 1],
     mr_reporter = \<lparr>hr_mode = ''error'', hr_diagnostics = [], hr_warnings = []\<rparr>,
     mr_local_capacities = A2_A3_LOCAL_CAPACITIES,
     mr_allocations = [((UB, Some 0, ''a''), sample_allocation)], mr_next_address = [((UB, Some 0), 160)],
     mr_address_spaces = [((UB, Some 0), \<lparr>as_data = replicate 160 255, as_initialized = replicate 160 False\<rparr>)],
     mr_next_id = 1\<rparr>"

lemma sample_alloc_ok: "alloc_ok sample_runtime sample_allocation"
  by (simp add: alloc_ok_def sample_runtime_def sample_allocation_def space_of_def dict_get_def space_wf_def)

theorem write_read_roundtrip_witness:
  "\<exists>rt'. write_target sample_runtime sample_allocation (TView sample_view) [1, 2, 3, 4, 5, 6, 7, 8, 9, 10, 11, 12] = Inr rt' \<and>
     read_target rt' sample_allocation (TView sample_view) = (rt', Inr [1, 2, 3, 4, 5, 6, 7, 8, 9, 10, 11, 12])"
proof (rule write_read_roundtrip [OF sample_make_view sample_alloc_ok])
  show "view_nbytes sample_view = Inr (int (length [1 :: byte, 2, 3, 4, 5, 6, 7, 8, 9, 10, 11, 12]))"
    by (simp add: view_nbytes_def sample_view_def float16_size)
  fix w assume "dtype_size_bytes (mv_dtype sample_view) = Inr w"
  then have "w = 2" by (simp add: sample_view_def float16_size)
  then show "distinct (element_bytes sample_view w)"
    by (simp add: element_bytes_def sample_view_def tuple_bytes_def mv_start_def upto.simps)
qed

text \<open>
  C27: A write changes no byte and no initialization mark outside the bytes of the view's elements,
  keeps the size of the address space and leaves every other address space as it was.
\<close>

theorem write_frame:
  assumes "make_view a byte_offset shape dtype strides = Inr v" and "alloc_ok rt a"
    and "dtype_size_bytes (mv_dtype v) = Inr w" and "write_target rt a (TView v) payload = Inr rt'"
    and "0 \<le> x" and "x < int (length (as_data (space_of rt a)))" and "x \<notin> set (element_bytes v w)"
  shows "as_data (space_of rt' a) ! nat x = as_data (space_of rt a) ! nat x \<and>
    as_initialized (space_of rt' a) ! nat x = as_initialized (space_of rt a) ! nat x \<and>
    length (as_data (space_of rt' a)) = length (as_data (space_of rt a)) \<and>
    (\<forall>key. key \<noteq> ma_space a \<longrightarrow> map_of (mr_address_spaces rt') key = map_of (mr_address_spaces rt) key)"
proof -
  obtain rs where rs: "resolve_ranges a (TView v) = Inr rs" "proper rs" "range_bytes rs = element_bytes v w"
    "\<forall>r \<in> set rs. in_store (length (as_data (space_of rt a))) r"
    using view_target [OF assms(1-3)] by blast
  have rt': "rt' = set_space rt a (write_ranges (space_of rt a) rs payload)"
    and len: "int (length payload) = (\<Sum>r \<leftarrow> rs. range_size r)"
    using assms(4) rs(1) by (auto simp: write_target_def split: if_splits)
  have wf: "space_wf (space_of rt a)" using assms(2) by (simp add: alloc_ok_def)
  have "int (nat x) \<notin> cover rs" "nat x < length (as_data (space_of rt a))"
    using assms(5-7) rs(3) by (auto simp: cover_range_bytes)
  with write_ranges_frame [OF rs(4,2) wf len] show ?thesis
    by (auto simp: rt') (simp add: set_space_def)
qed

theorem write_frame_witness:
  "\<exists>rt'. write_target sample_runtime sample_allocation (TView sample_view) [1, 2, 3, 4, 5, 6, 7, 8, 9, 10, 11, 12] = Inr rt' \<and>
     as_data (space_of rt' sample_allocation) ! nat 40 = as_data (space_of sample_runtime sample_allocation) ! nat 40"
proof -
  let ?p = "[1, 2, 3, 4, 5, 6, 7, 8, 9, 10, 11, 12] :: byte list"
  have item: "dtype_size_bytes (mv_dtype sample_view) = Inr 2" by (simp add: sample_view_def float16_size)
  obtain rs where rs: "resolve_ranges sample_allocation (TView sample_view) = Inr rs"
    "(\<Sum>r \<leftarrow> rs. range_size r) = prod_list (mv_shape sample_view) * 2"
    using view_target [OF sample_make_view sample_alloc_ok item] by blast
  then obtain rt' where w: "write_target sample_runtime sample_allocation (TView sample_view) ?p = Inr rt'"
    by (simp add: write_target_def sample_view_def)
  have "40 < int (length (as_data (space_of sample_runtime sample_allocation)))"
    by (simp add: space_of_def sample_runtime_def sample_allocation_def dict_get_def)
  moreover have "40 \<notin> set (element_bytes sample_view 2)"
    by (simp add: element_bytes_def sample_view_def tuple_bytes_def mv_start_def upto.simps)
  ultimately show ?thesis using write_frame [OF sample_make_view sample_alloc_ok item w, of 40] w by auto
qed


text \<open>
  C28: With hazard checking set to \<open>error\<close>, a read of a view returns the bytes of its elements in index
  order when all of them have been written, and raises \<open>UninitializedMemoryError\<close> otherwise.
\<close>

theorem read_checks_initialization:
  assumes "make_view a byte_offset shape dtype strides = Inr v" and "alloc_ok rt a"
    and "dtype_size_bytes (mv_dtype v) = Inr w" and "hr_mode (mr_reporter rt) = ''error''"
  shows "if \<forall>x \<in> set (element_bytes v w). as_initialized (space_of rt a) ! nat x
    then read_target rt a (TView v) = (rt, Inr (map (\<lambda>x. as_data (space_of rt a) ! nat x) (element_bytes v w)))
    else \<exists>rt' message. read_target rt a (TView v) = (rt', Inl (UninitializedMemoryError message))"
proof -
  obtain rs where rs: "resolve_ranges a (TView v) = Inr rs" "range_bytes rs = element_bytes v w"
    "\<forall>r \<in> set rs. in_store (length (as_data (space_of rt a))) r"
    using view_target [OF assms(1-3)] by blast
  let ?bits = "as_initialized (space_of rt a)"
  have stored: "\<forall>r \<in> set rs. in_store (length ?bits) r"
    using rs(3) assms(2) by (simp add: alloc_ok_def space_wf_def)
  have "(\<forall>r \<in> set rs. list_all (\<lambda>b. b) (slice_get ?bits r)) \<longleftrightarrow> (\<forall>b \<in> set (concat (map (slice_get ?bits) rs)). b)"
    by (auto simp: list_all_iff)
  also have "\<dots> \<longleftrightarrow> (\<forall>x \<in> set (element_bytes v w). ?bits ! nat x)"
    unfolding concat_slices [OF stored] rs(2) by simp
  finally have all: "missing_ranges ?bits rs = [] \<longleftrightarrow> (\<forall>x \<in> set (element_bytes v w). ?bits ! nat x)"
    using missing_ranges_Nil [OF stored] by simp
  show ?thesis
  proof (cases "missing_ranges ?bits rs")
    case Nil
    with all rs concat_slices [OF rs(3)] show ?thesis
      by (simp add: read_target_def check_initialized_ranges_def)
  next
    case (Cons m ms)
    with all have unset: "\<not> (\<forall>x \<in> set (element_bytes v w). ?bits ! nat x)" by simp
    have "\<exists>rt' message. read_target rt a (TView v) = (rt', Inl (UninitializedMemoryError message))"
      using Cons rs(1) assms(4) by (simp add: read_target_def check_initialized_ranges_def report_def Let_def)
    then show ?thesis unfolding if_not_P [OF unset] .
  qed
qed

theorem read_checks_initialization_witness:
  "\<exists>rt' message. read_target sample_runtime sample_allocation (TView sample_view) =
     (rt', Inl (UninitializedMemoryError message))"
proof -
  have "36 \<in> set (element_bytes sample_view 2)"
    by (simp add: element_bytes_def sample_view_def tuple_bytes_def mv_start_def upto.simps)
  moreover have "\<not> as_initialized (space_of sample_runtime sample_allocation) ! nat 36"
    by (simp add: space_of_def sample_runtime_def sample_allocation_def dict_get_def)
  moreover have "dtype_size_bytes (mv_dtype sample_view) = Inr 2" "hr_mode (mr_reporter sample_runtime) = ''error''"
    by (simp_all add: sample_view_def float16_size sample_runtime_def)
  ultimately show ?thesis
    using read_checks_initialization [OF sample_make_view sample_alloc_ok] by (metis (full_types))
qed

text \<open>
  C29: A successful allocation keeps the runtime well formed: every allocation lies inside its
  address space, below the scope's capacity and below the next free address, and the new
  allocation is found again under its name.
\<close>

theorem allocate_preserves_wf:
  assumes "runtime_wf rt" and "allocate rt spec core address = (rt', Inr a)"
  shows "runtime_wf rt' \<and> get_allocation rt' (bs_name spec) (bs_scope spec) core = Inr a \<and>
    (\<forall>capacity. map_of (mr_local_capacities rt) (bs_scope spec) = Some capacity \<longrightarrow>
       ma_address a + ma_size_bytes a \<le> capacity)"
proof -
  have "normalize_owner rt' scope c = normalize_owner rt scope c"
    if "mr_local_owner_ids rt' = mr_local_owner_ids rt" for scope c
    using that by (cases c) (simp_all add: normalize_owner_def)
  with allocate_Inr [OF assms(2)] have "get_allocation rt' (bs_name spec) (bs_scope spec) core = Inr a"
    "\<forall>capacity. map_of (mr_local_capacities rt) (bs_scope spec) = Some capacity \<longrightarrow>
       ma_address a + ma_size_bytes a \<le> capacity"
    by (auto simp: get_allocation_def)
  with allocate_wf [OF assms] show ?thesis by blast
qed

lemma sample_runtime_wf: "runtime_wf sample_runtime"
  using sample_alloc_ok
  by (auto simp: runtime_wf_def sample_runtime_def dict_get_def space_wf_def allocation_in_def sample_allocation_def
      A2_A3_LOCAL_CAPACITIES_def split: if_splits)

lemma sample_allocate:
  "allocate sample_runtime (sample_spec\<lparr>bs_name := ''b'', bs_address := None\<rparr>) (Some 0) None =
     (sample_runtime\<lparr>mr_allocations := [((UB, Some 0, ''a''), sample_allocation), ((UB, Some 0, ''b''), 
        \<lparr>ma_id = 1, ma_spec = sample_spec\<lparr>bs_name := ''b'', bs_address := None\<rparr>, ma_size_bytes = 128,
         ma_address = 160, ma_core_id = Some 0, ma_space = (UB, Some 0)\<rparr>)],
        mr_next_address := [((UB, Some 0), 288)],
        mr_address_spaces := [((UB, Some 0), \<lparr>as_data = replicate 288 255, as_initialized = replicate 288 False\<rparr>)],
        mr_next_id := 2\<rparr>, 
      Inr \<lparr>ma_id = 1, ma_spec = sample_spec\<lparr>bs_name := ''b'', bs_address := None\<rparr>, ma_size_bytes = 128,
         ma_address = 160, ma_core_id = Some 0, ma_space = (UB, Some 0)\<rparr>)"
  by (simp add: allocate_def normalize_owner_def sample_runtime_def shared_scopes_def sample_spec_def buffer_size_bytes_def
      float16_size dict_get_def AddressRange_def A2_A3_LOCAL_CAPACITIES_def clashing_def overlaps_def allocation_range_def
      sample_allocation_def ensure_size_def Let_def replicate_add [symmetric])

theorem allocate_preserves_wf_witness:
  "runtime_wf (fst (allocate sample_runtime (sample_spec\<lparr>bs_name := ''b'', bs_address := None\<rparr>) (Some 0) None))"
  using allocate_preserves_wf [OF sample_runtime_wf sample_allocate] unfolding sample_allocate by simp

text \<open>
  C30: An allocation without a requested address never overlaps an existing one of its address
  space, so it reports no hazard, whatever the reporter's mode.
\<close>

theorem implicit_allocation_is_disjoint:
  assumes "runtime_wf rt" and "bs_address spec = None" and "allocate rt spec core None = (rt', Inr a)"
  shows "mr_reporter rt' = mr_reporter rt \<and>
    (\<forall>key b. map_of (mr_allocations rt) key = Some b \<longrightarrow> ma_space b = ma_space a \<longrightarrow>
       disjoint_ranges (allocation_range a) (allocation_range b))"
proof -
  obtain owner size_bytes base where a: "a = \<lparr>ma_id = mr_next_id rt, ma_spec = spec, ma_size_bytes = size_bytes,
      ma_address = base, ma_core_id = owner, ma_space = (bs_scope spec, owner)\<rparr>"
    and base: "base = dict_get (mr_next_address rt) (bs_scope spec, owner) 0"
    using allocate_Inr [OF assms(3)] assms(2) by auto
  have "mr_reporter rt' = mr_reporter rt"
    using assms(2,3) clashing_fresh [OF assms(1)] unfolding allocate_def
    by (auto simp: Let_def AddressRange_def split: sum.splits if_split_asm option.splits prod.splits)
  moreover have "disjoint_ranges (allocation_range a) (allocation_range b)"
    if "map_of (mr_allocations rt) key = Some b" "ma_space b = ma_space a" for key b
  proof -
    have "allocation_in rt key b" using that(1) assms(1) unfolding runtime_wf_def by blast
    then show ?thesis
      using that(2) by (auto simp: allocation_in_def disjoint_ranges_def allocation_range_def a base)
  qed
  ultimately show ?thesis by blast
qed

theorem implicit_allocation_is_disjoint_witness:
  "mr_reporter (fst (allocate sample_runtime (sample_spec\<lparr>bs_name := ''b'', bs_address := None\<rparr>) (Some 0) None)) =
     mr_reporter sample_runtime"
  using implicit_allocation_is_disjoint [OF sample_runtime_wf _ sample_allocate] unfolding sample_allocate by simp

text \<open>
  The owner ids a runtime gives to local memories never collide: the cores and their second
  vector banks are pairwise distinct, and every bank is an accepted owner.
\<close>

theorem local_owners_are_distinct:
  assumes "MemoryRuntime core_ids hazard_check capacities = Inr rt"
  shows "distinct (mr_local_owner_ids rt) \<and> runtime_wf rt \<and>
    (\<forall>core \<in> set core_ids. \<exists>bank. vector1_owner rt core = Inr bank \<and> bank \<notin> set core_ids \<and>
       normalize_owner rt UB (Some core) = Inr (Some core) \<and> normalize_owner rt UB (Some bank) = Inr (Some bank))"
proof -
  let ?ids = "sort (remdups core_ids)"
  let ?off = "if ?ids \<noteq> [] then Max (set ?ids) + 1 else 1"
  have nonneg: "\<forall>c \<in> set core_ids. 0 \<le> c"
    using assms by (auto simp: MemoryRuntime_def Let_def not_less split: if_split_asm sum.splits)
  have rt: "mr_core_ids rt = ?ids" "mr_local_owner_ids rt = ?ids @ map (\<lambda>c. ?off + c) ?ids"
    "mr_vector1_owner_offset rt = ?off" "mr_allocations rt = []" "mr_next_address rt = []" "mr_address_spaces rt = []"
    using assms by (auto simp: MemoryRuntime_def Let_def split: if_split_asm sum.splits)
  have below: "c < ?off" if "c \<in> set core_ids" for c
  proof -
    have "?ids \<noteq> []" using that by (metis empty_iff empty_set set_remdups set_sort)
    moreover have "c \<le> Max (set ?ids)" using that by simp
    ultimately show ?thesis by simp
  qed
  have fresh: "?off + d \<notin> set core_ids" if "d \<in> set core_ids" for d
    using below [of "?off + d"] nonneg that by auto
  have "distinct (mr_local_owner_ids rt)"
    unfolding rt(2) using fresh by (auto simp: distinct_map inj_on_def)
  moreover have "runtime_wf rt" by (simp add: runtime_wf_def rt dict_get_def)
  moreover have "\<exists>bank. vector1_owner rt core = Inr bank \<and> bank \<notin> set core_ids \<and>
      normalize_owner rt UB (Some core) = Inr (Some core) \<and> normalize_owner rt UB (Some bank) = Inr (Some bank)"
    if "core \<in> set core_ids" for core
  proof (intro exI conjI)
    have pos: "0 \<le> core" using that nonneg by blast
    with below [OF that] have pos': "0 \<le> ?off + core" by linarith
    show "vector1_owner rt core = Inr (?off + core)" using that by (simp add: vector1_owner_def rt)
    show "?off + core \<notin> set core_ids" using that by (rule fresh)
    show "normalize_owner rt UB (Some core) = Inr (Some core)"
      using that pos by (simp add: normalize_owner_def rt shared_scopes_def)
    show "normalize_owner rt UB (Some (?off + core)) = Inr (Some (?off + core))"
      using that pos' by (auto simp: normalize_owner_def rt shared_scopes_def)
  qed
  ultimately show ?thesis by blast
qed

theorem local_owners_are_distinct_witness:
  "\<exists>rt. MemoryRuntime [3, 0, 3] ''error'' [] = Inr rt \<and> distinct (mr_local_owner_ids rt)"
proof -
  obtain rt where rt: "MemoryRuntime [3, 0, 3] ''error'' [] = Inr rt"
    by (simp add: MemoryRuntime_def HazardReporter_def hazard_modes_def Let_def)
  then show ?thesis using local_owners_are_distinct [OF rt] by blast
qed

text \<open>
  The occupied size \<open>_merged_range_size\<close> computes for live allocations is the number of
  distinct bytes they cover, so bytes shared by overlapping allocations are counted once.
\<close>

theorem merged_range_size_counts_bytes:
  assumes "proper ranges"
  shows "merged_range_size ranges = int (card (cover ranges))"
  unfolding merged_range_size_def using assms by (rule union_length_card)

theorem merged_range_size_counts_bytes_witness:
  "merged_range_size [(8, 24), (0, 10), (30, 32)] = int (card (cover [(8, 24), (0, 10), (30, 32)]))"
  by (rule merged_range_size_counts_bytes) simp

end
