(* ===== verification/Sim_Stats.thy ===== *)
theory Sim_Stats
  imports Complex_Main Sim_Record Sim_Views Sim_Hazard
begin

text \<open>
  \<^verbatim>\<open>tilelang/simulator/stats.py\<close>: the summary of a schedule.  A utilization is the exact rational the
  code's float approximates.
\<close>

section \<open>Transfer sizes\<close>

text \<open>\<open>_runtime_int\<close>: an expression that does not evaluate counts as unknown, any other error propagates.\<close>

definition stats_runtime_int :: "rt_int \<Rightarrow> bindings \<Rightarrow> int option res" where
  "stats_runtime_int v bindings =
     (case v of
        RInt n \<Rightarrow> Inr (Some n)
      | RBool _ \<Rightarrow> Inr None
      | RNonInt \<Rightarrow> Inr None
      | _ \<Rightarrow> (case evaluate_runtime_int v bindings of
                Inr n \<Rightarrow> Inr (Some n)
              | Inl e \<Rightarrow> if catches ''ProgramValidationError'' e then Inr None else Inl e))"

fun region_product :: "rt_int list \<Rightarrow> bindings \<Rightarrow> int \<Rightarrow> int option res" where
  "region_product [] bindings elements = Inr (Some elements)"
| "region_product (extent # rest) bindings elements =
     (case stats_runtime_int extent bindings of
        Inl e \<Rightarrow> Inl e
      | Inr None \<Rightarrow> Inr None
      | Inr (Some n) \<Rightarrow> region_product rest bindings (elements * n))"

definition region_nbytes :: "buffer_region \<Rightarrow> bindings \<Rightarrow> int option res" where
  "region_nbytes region bindings =
     (case region_product (br_shape region) bindings 1 of
        Inl e \<Rightarrow> Inl e
      | Inr None \<Rightarrow> Inr None
      | Inr (Some elements) \<Rightarrow>
          map_sum id (\<lambda>size_bytes. Some (elements * size_bytes)) (dtype_size_bytes (br_dtype region)))"

definition memory_path :: "metadata \<Rightarrow> string option" where
  "memory_path md =
     (case (md_get md ''src'', md_get md ''dst'') of
        (PRegion source, PRegion destination) \<Rightarrow>
          Some (scope_value (br_scope source) @ ''->'' @ scope_value (br_scope destination))
      | _ \<Rightarrow> None)"

definition transfer_bytes :: "metadata \<Rightarrow> bindings \<Rightarrow> int option res" where
  "transfer_bytes md bindings =
     (let explicit = dict_get md ''transfer_bytes'' (md_get md ''bytes'')
      in case stats_runtime_int (as_rt_int explicit) bindings of
           Inl e \<Rightarrow> Inl e
         | Inr (Some n) \<Rightarrow> Inr (Some n)
         | Inr None \<Rightarrow> (case md_get md ''dst'' of PRegion r \<Rightarrow> region_nbytes r bindings | _ \<Rightarrow> Inr None))"

section \<open>Statistics\<close>

record simulation_stats =
  st_makespan_cycles :: int
  st_task_count :: int
  st_busy_cycles_by_resource :: "(string, int) dict"
  st_utilization_by_resource :: "(string, rat) dict"
  st_wait_cycles_by_reason :: "(string, int) dict"
  st_completion_cycle_by_core :: "(int, int) dict"
  st_operation_counts :: "(string, int) dict"
  st_memory_bytes_by_path :: "(string, int) dict"
  st_hazard_counts :: "(string, int) dict"
  st_peak_local_memory_bytes_by_scope :: "(string, int) dict"
  st_load_imbalance_cycles :: int

definition hazard_counts :: "hazard_diagnostic list \<Rightarrow> (string, int) dict" where
  "hazard_counts diagnostics = foldl (\<lambda>counts d. dict_add (hd_kind d) 1 counts) [] diagnostics"

text \<open>\<open>f"core-{record.core_id}/{record.resource}"\<close>.\<close>

definition resource_name :: "exec_record \<Rightarrow> string" where
  "resource_name r = ''core-'' @ str_of_int (er_core_id r) @ ''/'' @ er_resource r"

text \<open>The dictionaries the record loop fills.\<close>

record stats_acc =
  sa_intervals :: "(string, interval list) dict"
  sa_waits :: "(string, int) dict"
  sa_completion :: "(int, int) dict"
  sa_operations :: "(string, int) dict"
  sa_memory :: "(string, int) dict"

definition record_transfer :: "bindings \<Rightarrow> exec_record \<Rightarrow> (string \<times> int) option res" where
  "record_transfer bindings r =
     (case (if py_startswith (er_operation r) ''copy_'' then memory_path (er_metadata r) else None) of
        None \<Rightarrow> Inr None
      | Some path \<Rightarrow>
          map_sum id (map_option (\<lambda>n. (path, n))) (transfer_bytes (er_metadata r) bindings))"

definition stats_step :: "bindings \<Rightarrow> stats_acc \<Rightarrow> exec_record \<Rightarrow> stats_acc res" where
  "stats_step bindings acc r =
     (case record_transfer bindings r of
        Inl e \<Rightarrow> Inl e
      | Inr transferred \<Rightarrow>
          Inr \<lparr>sa_intervals = dict_set (resource_name r)
                 (dict_get (sa_intervals acc) (resource_name r) [] @ [(er_start_cycle r, er_end_cycle r)])
                 (sa_intervals acc),
               sa_waits = (case er_stall_reason r of
                   None \<Rightarrow> sa_waits acc | Some reason \<Rightarrow> dict_add reason (er_duration_cycles r) (sa_waits acc)),
               sa_completion = dict_set (er_core_id r)
                 (max (dict_get (sa_completion acc) (er_core_id r) 0) (er_end_cycle r)) (sa_completion acc),
               sa_operations = dict_add (er_operation r) 1 (sa_operations acc),
               sa_memory = (case transferred of
                   None \<Rightarrow> sa_memory acc | Some (path, n) \<Rightarrow> dict_add path n (sa_memory acc))\<rparr>)"

definition empty_acc :: stats_acc where
  "empty_acc = \<lparr>sa_intervals = [], sa_waits = [], sa_completion = [], sa_operations = [], sa_memory = []\<rparr>"

definition from_records ::
  "exec_record list \<Rightarrow> bindings \<Rightarrow> hazard_diagnostic list \<Rightarrow> (string, int) dict \<Rightarrow> simulation_stats res" where
  "from_records records bindings diagnostics watermark =
     (if records = [] then
        Inr \<lparr>st_makespan_cycles = 0, st_task_count = 0, st_busy_cycles_by_resource = [],
             st_utilization_by_resource = [], st_wait_cycles_by_reason = [],
             st_completion_cycle_by_core = [], st_operation_counts = [], st_memory_bytes_by_path = [],
             st_hazard_counts = hazard_counts diagnostics,
             st_peak_local_memory_bytes_by_scope = watermark, st_load_imbalance_cycles = 0\<rparr>
      else case for_each (stats_step bindings) empty_acc records of
        Inl e \<Rightarrow> Inl e
      | Inr acc \<Rightarrow>
          (let makespan = Max (set (map er_end_cycle records));
               busy = map (\<lambda>(resource, intervals). (resource, union_length intervals)) (sa_intervals acc);
               utilization = map (\<lambda>(resource, cycles).
                 (resource, if makespan \<noteq> 0 then rat_of_int cycles / rat_of_int makespan else 0)) busy;
               completion_values = map snd (sa_completion acc)
           in Inr \<lparr>st_makespan_cycles = makespan, st_task_count = int (length records),
                st_busy_cycles_by_resource = busy, st_utilization_by_resource = utilization,
                st_wait_cycles_by_reason = sa_waits acc, st_completion_cycle_by_core = sa_completion acc,
                st_operation_counts = sa_operations acc, st_memory_bytes_by_path = sa_memory acc,
                st_hazard_counts = hazard_counts diagnostics,
                st_peak_local_memory_bytes_by_scope = watermark,
                st_load_imbalance_cycles =
                  (if completion_values \<noteq> [] then Max (set completion_values) - Min (set completion_values)
                   else 0)\<rparr>))"

text \<open>
  \<open>to_dict\<close>: the same entries in plain dictionaries, with the cores of the completion cycles as
  JSON keys, that is as strings.
\<close>

record stats_document =
  sd_makespan_cycles :: int
  sd_task_count :: int
  sd_busy_cycles_by_resource :: "(string, int) dict"
  sd_utilization_by_resource :: "(string, rat) dict"
  sd_wait_cycles_by_reason :: "(string, int) dict"
  sd_completion_cycle_by_core :: "(string, int) dict"
  sd_operation_counts :: "(string, int) dict"
  sd_memory_bytes_by_path :: "(string, int) dict"
  sd_hazard_counts :: "(string, int) dict"
  sd_peak_local_memory_bytes_by_scope :: "(string, int) dict"
  sd_load_imbalance_cycles :: int

definition stats_to_dict :: "simulation_stats \<Rightarrow> stats_document" where
  "stats_to_dict st =
     \<lparr>sd_makespan_cycles = st_makespan_cycles st, sd_task_count = st_task_count st,
      sd_busy_cycles_by_resource = st_busy_cycles_by_resource st,
      sd_utilization_by_resource = st_utilization_by_resource st,
      sd_wait_cycles_by_reason = st_wait_cycles_by_reason st,
      sd_completion_cycle_by_core =
        map (\<lambda>(core_id, cycle). (str_of_int core_id, cycle)) (st_completion_cycle_by_core st),
      sd_operation_counts = st_operation_counts st, sd_memory_bytes_by_path = st_memory_bytes_by_path st,
      sd_hazard_counts = st_hazard_counts st,
      sd_peak_local_memory_bytes_by_scope = st_peak_local_memory_bytes_by_scope st,
      sd_load_imbalance_cycles = st_load_imbalance_cycles st\<rparr>"

lemma completion_by_core_text:
  "map_of (sd_completion_cycle_by_core (stats_to_dict st)) (str_of_int core) =
     map_of (st_completion_cycle_by_core st) core"
proof -
  have "map_of (map (\<lambda>(core_id, cycle). (str_of_int core_id, cycle)) d) (str_of_int core) = map_of d core" for d :: "(int, int) dict"
    by (induction d) auto
  then show ?thesis by (simp add: stats_to_dict_def)
qed

section \<open>What the record loop accumulates\<close>

definition resource_intervals :: "exec_record list \<Rightarrow> string \<Rightarrow> interval list" where
  "resource_intervals records resource =
     map (\<lambda>r. (er_start_cycle r, er_end_cycle r)) (filter (\<lambda>r. resource_name r = resource) records)"

definition acc_ok :: "exec_record list \<Rightarrow> stats_acc \<Rightarrow> bool" where
  "acc_ok records acc \<longleftrightarrow>
     (\<forall>resource. dict_get (sa_intervals acc) resource [] = resource_intervals records resource) \<and>
     distinct (map fst (sa_intervals acc)) \<and> distinct (map fst (sa_completion acc)) \<and>
     set (map fst (sa_completion acc)) = er_core_id ` set records \<and>
     (\<forall>core. dict_get (sa_completion acc) core 0 =
        max_default0 (map er_end_cycle (filter (\<lambda>r. er_core_id r = core) records))) \<and>
     (\<forall>op. dict_get (sa_operations acc) op 0 = int (length (filter (\<lambda>r. er_operation r = op) records)))"

lemma max_default0_snoc: "(\<And>x. x \<in> set xs \<Longrightarrow> 0 \<le> x) \<Longrightarrow> 0 \<le> y \<Longrightarrow> max_default0 (xs @ [y]) = max (max_default0 xs) y"
  by (cases "xs = []") (auto simp: max_default0_eq Max_insert max.commute insert_absorb intro: Max_insert [OF _ _, symmetric, THEN trans])

lemma stats_step_ok:
  assumes "acc_ok records acc" "stats_step bindings acc r = Inr acc'" "\<forall>q \<in> set (records @ [r]). record_wf q"
  shows "acc_ok (records @ [r]) acc'"
proof -
  have nonneg: "\<forall>q \<in> set (records @ [r]). 0 \<le> er_end_cycle q" using assms(3) by (fastforce simp: record_wf_def)
  have "max_default0 (map er_end_cycle (filter (\<lambda>q. er_core_id q = core) records) @ [er_end_cycle r]) =
      max (max_default0 (map er_end_cycle (filter (\<lambda>q. er_core_id q = core) records))) (er_end_cycle r)" for core
    by (rule max_default0_snoc) (use nonneg in auto)
  moreover from assms(2) obtain transferred where "acc' = \<lparr>sa_intervals = dict_set (resource_name r)
       (dict_get (sa_intervals acc) (resource_name r) [] @ [(er_start_cycle r, er_end_cycle r)]) (sa_intervals acc),
     sa_waits = (case er_stall_reason r of
        None \<Rightarrow> sa_waits acc | Some reason \<Rightarrow> dict_add reason (er_duration_cycles r) (sa_waits acc)),
     sa_completion = dict_set (er_core_id r)
       (max (dict_get (sa_completion acc) (er_core_id r) 0) (er_end_cycle r)) (sa_completion acc),
     sa_operations = dict_add (er_operation r) 1 (sa_operations acc),
     sa_memory = (case transferred of
        None \<Rightarrow> sa_memory acc | Some (path, n) \<Rightarrow> dict_add path n (sa_memory acc))\<rparr>"
    by (auto simp: stats_step_def split: sum.splits)
  ultimately show ?thesis
    using assms(1) by (simp add: acc_ok_def dict_get_set dict_get_add resource_intervals_def)
qed

lemma stats_loop_ok:
  assumes "for_each (stats_step bindings) acc records = Inr acc'" "acc_ok done acc"
    "\<forall>q \<in> set (done @ records). record_wf q"
  shows "acc_ok (done @ records) acc'"
  using assms
proof (induction records arbitrary: acc "done")
  case Nil
  then show ?case by simp
next
  case (Cons r records)
  then obtain acc1 where step: "stats_step bindings acc r = Inr acc1"
    and rest: "for_each (stats_step bindings) acc1 records = Inr acc'" by (auto split: sum.splits)
  have "acc_ok (done @ [r]) acc1" using stats_step_ok [OF Cons.prems(2) step] Cons.prems(3) by auto
  with Cons.IH [OF rest, of "done @ [r]"] Cons.prems(3) show ?case by simp
qed


lemma from_records_acc:
  assumes "from_records records bindings diagnostics watermark = Inr st" "records \<noteq> []" "\<forall>r \<in> set records. record_wf r"
  shows "\<exists>acc. acc_ok records acc \<and> st_makespan_cycles st = Max (set (map er_end_cycle records)) \<and>
    st_busy_cycles_by_resource st = map (\<lambda>(resource, intervals). (resource, union_length intervals)) (sa_intervals acc) \<and>
    st_utilization_by_resource st = map (\<lambda>(resource, cycles). (resource,
      if st_makespan_cycles st \<noteq> 0 then rat_of_int cycles / rat_of_int (st_makespan_cycles st) else 0))
      (st_busy_cycles_by_resource st) \<and>
    st_completion_cycle_by_core st = sa_completion acc \<and> st_operation_counts st = sa_operations acc \<and>
    st_load_imbalance_cycles st = (if sa_completion acc \<noteq> []
      then Max (set (map snd (sa_completion acc))) - Min (set (map snd (sa_completion acc))) else 0)"
proof -
  have empty: "acc_ok [] empty_acc"
    by (simp add: acc_ok_def empty_acc_def dict_get_def resource_intervals_def max_default0_def)
  from assms(1,2) obtain acc where loop: "for_each (stats_step bindings) empty_acc records = Inr acc"
    by (auto simp: from_records_def split: sum.splits)
  have "acc_ok records acc" using stats_loop_ok [OF loop empty] assms(3) by simp
  with assms(1,2) loop show ?thesis
    by (intro exI [of _ acc]) (auto simp: from_records_def Let_def)
qed

lemma map_of_map_snd: "map_of (map (\<lambda>(k, v). (k, f v)) d) k = map_option f (map_of d k)"
  by (induction d) auto

lemma resource_intervals_within:
  assumes "\<forall>r \<in> set records. record_wf r"
  shows "proper (resource_intervals records resource)"
    and "cover (resource_intervals records resource) \<subseteq> {0..<Max (set (map er_end_cycle records))}"
proof -
  have wf: "r \<in> set records \<Longrightarrow> 0 \<le> er_start_cycle r \<and> er_start_cycle r \<le> er_end_cycle r" for r
    using assms by (auto simp: record_wf_def)
  then show "proper (resource_intervals records resource)" by (auto simp: proper_def resource_intervals_def)
  show "cover (resource_intervals records resource) \<subseteq> {0..<Max (set (map er_end_cycle records))}"
  proof
    fix x assume "x \<in> cover (resource_intervals records resource)"
    then obtain r where r: "r \<in> set records" "er_start_cycle r \<le> x" "x < er_end_cycle r"
      by (auto simp: cover_def resource_intervals_def)
    then have "er_end_cycle r \<le> Max (set (map er_end_cycle records))" by simp
    with r wf [OF r(1)] show "x \<in> {0..<Max (set (map er_end_cycle records))}"
      unfolding atLeastLessThan_iff by linarith
  qed
qed

section \<open>Properties\<close>

text \<open>
  C31: The busy cycles of a resource are the number of distinct cycles in which one of its records
  runs, hence at most the makespan, and every utilization lies between 0 and 1.
\<close>

theorem busy_cycles_count_union:
  assumes "from_records records bindings diagnostics watermark = Inr st" and "\<forall>r \<in> set records. record_wf r"
    and "map_of (st_busy_cycles_by_resource st) resource = Some busy"
  shows "busy = int (card (\<Union>r \<in> {r \<in> set records. resource_name r = resource}. {er_start_cycle r..<er_end_cycle r})) \<and>
    busy \<le> st_makespan_cycles st \<and>
    (\<exists>u. map_of (st_utilization_by_resource st) resource = Some u \<and> 0 \<le> u \<and> u \<le> 1)"
proof -
  have ne: "records \<noteq> []" using assms(1,3) by (auto simp: from_records_def)
  obtain acc where acc: "acc_ok records acc" "st_makespan_cycles st = Max (set (map er_end_cycle records))"
    "st_busy_cycles_by_resource st = map (\<lambda>(resource, intervals). (resource, union_length intervals)) (sa_intervals acc)"
    "st_utilization_by_resource st = map (\<lambda>(resource, cycles). (resource,
      if st_makespan_cycles st \<noteq> 0 then rat_of_int cycles / rat_of_int (st_makespan_cycles st) else 0))
      (st_busy_cycles_by_resource st)"
    using from_records_acc [OF assms(1) ne assms(2)] by blast
  let ?ivs = "resource_intervals records resource"
  have "map_of (sa_intervals acc) resource = Some ?ivs"
  proof -
    from assms(3) obtain ivs where "map_of (sa_intervals acc) resource = Some ivs"
      unfolding acc(3) map_of_map_snd by blast
    moreover have "dict_get (sa_intervals acc) resource [] = ?ivs" using acc(1) unfolding acc_ok_def by blast
    ultimately show ?thesis by (simp add: dict_get_def)
  qed
  then have busy: "busy = int (card (cover ?ivs))"
    using assms(3) resource_intervals_within(1) [OF assms(2)] by (simp add: acc(3) map_of_map_snd union_length_card)
  have cover: "cover ?ivs = (\<Union>r \<in> {r \<in> set records. resource_name r = resource}. {er_start_cycle r..<er_end_cycle r})"
    by (auto simp: cover_def resource_intervals_def)
  have ms: "0 \<le> st_makespan_cycles st"
  proof -
    obtain r where r: "r \<in> set records" using ne by (metis list.set_intros(1) neq_Nil_conv)
    then have "0 \<le> er_end_cycle r" using assms(2) by (auto simp: record_wf_def intro: order_trans)
    also have "\<dots> \<le> st_makespan_cycles st" using r by (simp add: acc(2))
    finally show ?thesis .
  qed
  have "card (cover ?ivs) \<le> card {0..<st_makespan_cycles st}"
    using resource_intervals_within(2) [OF assms(2), of resource] unfolding acc(2) by (intro card_mono) auto
  then have le: "busy \<le> st_makespan_cycles st" using busy ms by simp
  let ?u = "if st_makespan_cycles st \<noteq> 0 then rat_of_int busy / rat_of_int (st_makespan_cycles st) else 0"
  have "map_of (st_utilization_by_resource st) resource = Some ?u"
    unfolding acc(4) using assms(3) by (simp add: map_of_map_snd)
  moreover have "0 \<le> ?u \<and> ?u \<le> 1" using busy le ms by (simp add: divide_le_eq)
  ultimately show ?thesis using busy le unfolding cover [symmetric] by (intro conjI exI [of _ ?u]) auto
qed

definition sample_record :: "string \<Rightarrow> int \<Rightarrow> int \<Rightarrow> exec_record" where
  "sample_record tid s e = \<lparr>er_task_id = tid, er_operation = ''add'', er_core_id = 0, er_lane = VECTOR_0,
     er_pipe = VECTOR, er_start_cycle = s, er_end_cycle = e, er_category = ''operation'',
     er_stall_reason = None, er_metadata = []\<rparr>"

lemma sample_record_wf: "tid \<noteq> [] \<Longrightarrow> 0 \<le> s \<Longrightarrow> s \<le> e \<Longrightarrow> record_wf (sample_record tid s e)"
  by (simp add: record_wf_def sample_record_def)

lemma sample_stats:
  "\<exists>st. from_records [sample_record ''t'' 0 4, sample_record ''u'' 6 8] Map.empty [] [] = Inr st \<and>
     map_of (st_busy_cycles_by_resource st) ''core-0/vector0/v'' = Some 6 \<and> st_makespan_cycles st = 8"
proof -
  have zero: "str_of_int 0 = ''0''" by code_simp
  have name: "resource_name (sample_record tid s e) = ''core-0/vector0/v''" for tid s e
    by (simp add: resource_name_def sample_record_def zero er_resource_def)
  show ?thesis
    by (simp add: from_records_def stats_step_def record_transfer_def name empty_acc_def dict_get_def)
      (simp add: sample_record_def union_length_def)
qed

theorem busy_cycles_count_union_witness:
  "\<exists>st. from_records [sample_record ''t'' 0 4, sample_record ''u'' 6 8] Map.empty [] [] = Inr st \<and>
    (\<exists>u. map_of (st_utilization_by_resource st) ''core-0/vector0/v'' = Some u \<and> 0 \<le> u \<and> u \<le> 1)"
proof -
  obtain st where st: "from_records [sample_record ''t'' 0 4, sample_record ''u'' 6 8] Map.empty [] [] = Inr st"
    "map_of (st_busy_cycles_by_resource st) ''core-0/vector0/v'' = Some 6"
    using sample_stats by blast
  have "\<forall>r \<in> set [sample_record ''t'' 0 4, sample_record ''u'' 6 8]. record_wf r" by (simp add: sample_record_wf)
  from busy_cycles_count_union [OF st(1) this st(2)] st(1) show ?thesis by blast
qed

lemma acc_completion:
  assumes "acc_ok records acc"
  shows "map_of (sa_completion acc) core = (if core \<in> er_core_id ` set records
      then Some (Max (er_end_cycle ` {r \<in> set records. er_core_id r = core})) else None)"
proof (cases "core \<in> er_core_id ` set records")
  case True
  let ?ends = "map er_end_cycle (filter (\<lambda>r. er_core_id r = core) records)"
  have "?ends \<noteq> []" using True by (auto simp: filter_empty_conv)
  then have "dict_get (sa_completion acc) core 0 = Max (set ?ends)"
    using assms by (simp add: acc_ok_def max_default0_eq)
  moreover have "core \<in> dom (map_of (sa_completion acc))"
    using True assms by (simp add: acc_ok_def dom_map_of_conv_image_fst)
  moreover have "set ?ends = er_end_cycle ` {r \<in> set records. er_core_id r = core}" by auto
  ultimately show ?thesis using True by (auto simp: dict_get_def)
next
  case False
  then have "core \<notin> fst ` set (sa_completion acc)" using assms by (simp add: acc_ok_def)
  then have "map_of (sa_completion acc) core = None" unfolding map_of_eq_None_iff .
  then show ?thesis using False by simp
qed

lemma acc_completion_range:
  assumes "acc_ok records acc" "\<forall>r \<in> set records. record_wf r" "v \<in> set (map snd (sa_completion acc))"
  shows "0 \<le> v \<and> v \<le> Max (set (map er_end_cycle records))"
proof -
  obtain core where "(core, v) \<in> set (sa_completion acc)" using assms(3) by auto
  then have "map_of (sa_completion acc) core = Some v" using assms(1) by (simp add: acc_ok_def)
  then have v: "v = Max (er_end_cycle ` {r \<in> set records. er_core_id r = core})" "core \<in> er_core_id ` set records"
    by (auto simp: acc_completion [OF assms(1)] split: if_splits)
  then have "{r \<in> set records. er_core_id r = core} \<noteq> {}" by auto
  then have "v \<in> er_end_cycle ` {r \<in> set records. er_core_id r = core}" unfolding v(1) by (intro Max_in) auto
  then have "v \<in> er_end_cycle ` set records" by auto
  with assms(2) show ?thesis by (fastforce simp: record_wf_def)
qed

text \<open>
  The completion cycle of a core is the latest end of its records and the load imbalance the
  spread of these, between 0 and the makespan; the operation counts add up to the task count.
\<close>

theorem completion_and_counts:
  assumes "from_records records bindings diagnostics watermark = Inr st" and "records \<noteq> []"
    and "\<forall>r \<in> set records. record_wf r"
  shows "(\<forall>core. map_of (st_completion_cycle_by_core st) core =
      (if core \<in> er_core_id ` set records
       then Some (Max (er_end_cycle ` {r \<in> set records. er_core_id r = core})) else None)) \<and>
    0 \<le> st_load_imbalance_cycles st \<and> st_load_imbalance_cycles st \<le> st_makespan_cycles st \<and>
    (\<forall>op. dict_get (st_operation_counts st) op 0 = int (length (filter (\<lambda>r. er_operation r = op) records)))"
proof -
  obtain acc where acc: "acc_ok records acc" "st_makespan_cycles st = Max (set (map er_end_cycle records))"
    "st_completion_cycle_by_core st = sa_completion acc" "st_operation_counts st = sa_operations acc"
    "st_load_imbalance_cycles st = (if sa_completion acc \<noteq> []
      then Max (set (map snd (sa_completion acc))) - Min (set (map snd (sa_completion acc))) else 0)"
    using from_records_acc [OF assms] by blast
  note range = acc_completion_range [OF acc(1) assms(3)]
  have "0 \<le> st_load_imbalance_cycles st \<and> st_load_imbalance_cycles st \<le> st_makespan_cycles st"
  proof (cases "sa_completion acc = []")
    case True
    with acc_completion [OF acc(1), of "er_core_id (hd records)"] assms(2) show ?thesis by simp
  next
    case False
    let ?V = "set (map snd (sa_completion acc))"
    have "?V \<noteq> {}" "finite ?V" using False by auto
    then have "Max ?V \<in> ?V" "Min ?V \<in> ?V" "Min ?V \<le> Max ?V" by (simp_all del: set_map)
    moreover have "st_load_imbalance_cycles st = Max ?V - Min ?V" unfolding acc(5) using False by simp
    ultimately show ?thesis unfolding acc(2) using range [of "Max ?V"] range [of "Min ?V"] by linarith
  qed
  moreover have "\<forall>op. dict_get (st_operation_counts st) op 0 = int (length (filter (\<lambda>r. er_operation r = op) records))"
    using acc(1,4) by (simp add: acc_ok_def)
  ultimately show ?thesis unfolding acc(3) using acc_completion [OF acc(1)] by blast
qed

theorem completion_and_counts_witness:
  "\<exists>st. from_records [sample_record ''t'' 0 4, sample_record ''u'' 6 8] Map.empty [] [] = Inr st \<and>
    dict_get (st_operation_counts st) ''add'' 0 = 2"
proof -
  obtain st where st: "from_records [sample_record ''t'' 0 4, sample_record ''u'' 6 8] Map.empty [] [] = Inr st"
    using sample_stats by blast
  have "\<forall>r \<in> set [sample_record ''t'' 0 4, sample_record ''u'' 6 8]. record_wf r" by (simp add: sample_record_wf)
  from completion_and_counts [OF st _ this] st show ?thesis by (auto simp: sample_record_def)
qed

end
