(* ===== verification/Sim_Sync.thy ===== *)
theory Sim_Sync
  imports Sim_Record Sim_Hazard
begin

text \<open>
  \<^verbatim>\<open>tilelang/simulator/sync.py\<close>: decisions, the two synchronization models and the static check
  that inferred memory dependencies are fenced.  The attributes of
  \<open>FlagBarrierSynchronizationModel\<close> are the record \<open>sync_state\<close>; dictionaries the code iterates
  over keep their insertion order.  \<open>evaluate\<close> returns the state as well, because reading a
  \<open>defaultdict\<close> creates the entry it reads.
\<close>

section \<open>Decisions\<close>

record sync_decision =
  sd_ready_cycle :: "int option"
  sd_reason :: "string option"
  sd_detail :: string
  sd_producer_task_ids :: "string list"

definition SyncDecision :: "int option \<Rightarrow> string option \<Rightarrow> string \<Rightarrow> string list \<Rightarrow> sync_decision res" where
  "SyncDecision ready_cycle reason detail producers =
     (if opt_negative ready_cycle then Inl (ValueError ''synchronization ready_cycle must not be negative'')
      else Inr \<lparr>sd_ready_cycle = ready_cycle, sd_reason = reason, sd_detail = detail,
             sd_producer_task_ids = producers\<rparr>)"

definition blocked :: "sync_decision \<Rightarrow> bool" where
  "blocked d \<longleftrightarrow> sd_ready_cycle d = None"

definition noop_evaluate :: "sync_decision" where
  "noop_evaluate = \<lparr>sd_ready_cycle = Some 0, sd_reason = None, sd_detail = [], sd_producer_task_ids = []\<rparr>"

section \<open>Keys and operation names\<close>

datatype flag_key =
    LocalFlag int string string string int
  | CrossFlag int string string int

type_synonym participant = "int \<times> string"
type_synonym collective_key = "int \<times> string \<times> int \<times> int"
type_synonym sync_all_key = "string \<times> int"
type_synonym token = "int \<times> string"

definition vector_lane_names :: "string list" where
  "vector_lane_names = [''vector0'', ''vector1'']"

definition MAX_CROSS_FLAG_CREDITS :: nat where
  "MAX_CROSS_FLAG_CREDITS = 15"

definition pipe_names :: "string list" where
  "pipe_names = [''mte2'', ''mte1'', ''m'', ''fix'', ''v'', ''mte3'', ''s'']"

definition pipes_by_lane :: "(string, string list) dict" where
  "pipes_by_lane =
    [(''cube'', [''mte2'', ''mte1'', ''m'', ''fix'', ''s'']),
     (''vector0'', [''mte2'', ''v'', ''mte3'', ''s'']),
     (''vector1'', [''mte2'', ''v'', ''mte3'', ''s'']),
     (''control'', [''s''])]"

definition SET_LOCAL :: "string list" where
  [op_sets]: "SET_LOCAL = [''set_flag'', ''auto_set_flag'', ''tl.ascend_set_flag'', ''tl.ascend_auto_set_flag'']"

definition WAIT_LOCAL :: "string list" where
  [op_sets]: "WAIT_LOCAL = [''wait_flag'', ''auto_wait_flag'', ''tl.ascend_wait_flag'', ''tl.ascend_auto_wait_flag'']"

definition SET_CROSS :: "string list" where
  [op_sets]: "SET_CROSS =
    [''set_cross_flag'', ''auto_set_cross_flag'', ''tl.ascend_set_cross_flag'', ''tl.ascend_auto_set_cross_flag'']"

definition WAIT_CROSS :: "string list" where
  [op_sets]: "WAIT_CROSS =
    [''wait_cross_flag'', ''auto_wait_cross_flag'', ''tl.ascend_wait_cross_flag'', ''tl.ascend_auto_wait_cross_flag'']"

definition BARRIER_ALL :: "string list" where
  [op_sets]: "BARRIER_ALL = [''barrier_all'', ''tl.ascend_barrier_all'']"

definition SYNC_ALL :: "string list" where
  [op_sets]: "SYNC_ALL = [''sync_all'', ''tl.ascend_sync_all'']"

definition PIPE_BARRIER :: "string list" where
  [op_sets]: "PIPE_BARRIER = [''pipe_barrier'', ''auto_barrier'', ''tl.ascend_pipe_barrier'', ''tl.ascend_auto_barrier'']"

definition sync_operation :: "task \<Rightarrow> string" where
  "sync_operation t = py_lower (py_strip (operation t))"

definition strip_pipe_prefix :: "string \<Rightarrow> string" where
  "strip_pipe_prefix s = (if py_startswith s ''pipe_'' then drop 5 s else s)"

definition pipe_name :: "pyval \<Rightarrow> string" where
  "pipe_name v = strip_pipe_prefix (py_lower (py_strip (if py_truth v then py_str v else [])))"

text \<open>\<open>task.metadata.get(key, default)\<close>.\<close>

definition md_default :: "task \<Rightarrow> string \<Rightarrow> pyval \<Rightarrow> pyval" where
  "md_default t key dflt = dict_get (task_metadata t) key dflt"

definition target_pipe :: "task \<Rightarrow> string" where
  "target_pipe t = pipe_name (md_default t ''target_pipe'' (PStr (pipe_value (task_pipe t))))"

definition participant_of :: "task \<Rightarrow> participant" where
  "participant_of t = (core_id t, lane_value (task_lane t))"

definition non_negative_int :: "pyval \<Rightarrow> int option" where
  "non_negative_int v = (case v of PInt n \<Rightarrow> if 0 \<le> n then Some n else None | _ \<Rightarrow> None)"

definition flag_id :: "task \<Rightarrow> int res" where
  "flag_id t =
     (case non_negative_int (md_get (task_metadata t) ''flag_id'') of
        None \<Rightarrow> Inl (ProgramValidationError ''synchronization task requires a non-negative integer flag_id'')
      | Some n \<Rightarrow> Inr n)"

definition cross_mode :: "task \<Rightarrow> int res" where
  "cross_mode t =
     (case md_default t ''mode'' (PInt 2) of
        PInt n \<Rightarrow> if n \<in> {0, 1, 2} then Inr n
                  else Inl (ProgramValidationError ''cross flag set task requires mode 0, 1, or 2'')
      | _ \<Rightarrow> Inl (ProgramValidationError ''cross flag set task requires mode 0, 1, or 2''))"

definition lane_kind :: "task \<Rightarrow> string res" where
  "lane_kind t =
     (if lane_value (task_lane t) = ''cube'' then Inr ''cube''
      else if lane_value (task_lane t) \<in> set vector_lane_names then Inr ''vector''
      else Inl (ProgramValidationError ''cross flag task must run on cube or vector lane''))"

definition cross_target_kind :: "int \<Rightarrow> task \<Rightarrow> string res" where
  "cross_target_kind mode t =
     and_then (lane_kind t) (\<lambda>kind.
       Inr (if mode = 2 then (if kind = ''cube'' then ''vector'' else ''cube'') else kind))"

fun non_empty_text :: "pyval \<Rightarrow> bool" where
  "non_empty_text (PStr s) = (s \<noteq> [])"
| "non_empty_text _ = False"

definition local_flag_key :: "task \<Rightarrow> flag_key res" where
  "local_flag_key t =
     and_then (flag_id t) (\<lambda>n.
       let src_pipe = md_get (task_metadata t) ''src_pipe''; dst_pipe = md_get (task_metadata t) ''dst_pipe''
       in if \<not> non_empty_text src_pipe
          then Inl (ProgramValidationError ''local synchronization task requires src_pipe'')
          else if \<not> non_empty_text dst_pipe
          then Inl (ProgramValidationError ''local synchronization task requires dst_pipe'')
          else Inr (LocalFlag (core_id t) (lane_value (task_lane t)) (pipe_name src_pipe) (pipe_name dst_pipe) n))"

definition cross_set_keys_mode2 :: "task \<Rightarrow> flag_key list res" where
  "cross_set_keys_mode2 t =
     and_then (flag_id t) (\<lambda>n.
       if lane_value (task_lane t) = ''cube''
       then Inr (map (\<lambda>lane. CrossFlag (core_id t) ''c2v'' lane n) vector_lane_names)
       else if lane_value (task_lane t) \<in> set vector_lane_names
       then Inr [CrossFlag (core_id t) ''v2c'' (lane_value (task_lane t)) n]
       else Inl (ProgramValidationError ''cross flag set task must run on cube or vector lane''))"

definition cross_wait_keys_mode2 :: "task \<Rightarrow> flag_key list res" where
  "cross_wait_keys_mode2 t =
     and_then (flag_id t) (\<lambda>n.
       if lane_value (task_lane t) = ''cube''
       then Inr (map (\<lambda>lane. CrossFlag (core_id t) ''v2c'' lane n) vector_lane_names)
       else if lane_value (task_lane t) \<in> set vector_lane_names
       then Inr [CrossFlag (core_id t) ''c2v'' (lane_value (task_lane t)) n]
       else Inl (ProgramValidationError ''cross flag wait task must run on cube or vector lane''))"

definition collective_key_of :: "task \<Rightarrow> int \<Rightarrow> collective_key res" where
  "collective_key_of t mode =
     and_then (lane_kind t) (\<lambda>kind. and_then (flag_id t) (\<lambda>n.
       if mode = 0 then Inr (mode, kind, -1, n)
       else if mode = 1 then Inr (mode, ''vector'', core_id t, n)
       else Inl (ProgramValidationError ''mode is not a collective cross flag mode'')))"

definition collective_participants :: "int list \<Rightarrow> collective_key \<Rightarrow> participant list res" where
  "collective_participants core_ids = (\<lambda>(mode, kind, group_id, _).
     if mode = 0 \<and> kind = ''cube'' then Inr (map (\<lambda>c. (c, ''cube'')) core_ids)
     else if mode = 0 \<and> kind = ''vector'' then Inr (List.product core_ids vector_lane_names)
     else if mode = 1 \<and> kind = ''vector'' then Inr (map (\<lambda>lane. (group_id, lane)) vector_lane_names)
     else Inl (ProgramValidationError ''invalid collective cross flag key''))"

definition sync_all_participants :: "int list \<Rightarrow> string \<Rightarrow> participant list res" where
  "sync_all_participants core_ids scope =
     (if scope = ''aic'' then Inr (map (\<lambda>c. (c, ''cube'')) core_ids)
      else if scope = ''aiv'' then Inr (List.product core_ids vector_lane_names)
      else if scope = ''mix'' then Inr (List.product core_ids (''cube'' # vector_lane_names))
      else Inl (ProgramValidationError ''invalid sync_all scope''))"

definition sync_all_task_participants :: "task \<Rightarrow> string \<Rightarrow> participant list" where
  "sync_all_task_participants t scope =
     (if scope = ''mix'' \<and> lane_value (task_lane t) = ''control''
      then map (\<lambda>lane. (core_id t, lane)) (''cube'' # vector_lane_names)
      else [participant_of t])"

definition sync_all_scope :: "task \<Rightarrow> string res" where
  "sync_all_scope t =
     (let given = py_lower (py_strip (py_str (md_default t ''sync_scope'' (PStr []))));
          scope = (if given \<noteq> [] then given
                   else if lane_value (task_lane t) = ''cube'' then ''aic''
                   else if lane_value (task_lane t) \<in> set vector_lane_names then ''aiv'' else ''mix'')
      in if scope \<notin> {''aic'', ''aiv'', ''mix''}
         then Inl (ProgramValidationError ''sync_all task requires sync_scope aic, aiv, or mix'')
         else Inr scope)"

section \<open>Validation of one task\<close>

definition validate_lane_pipe :: "task \<Rightarrow> string \<Rightarrow> unit res" where
  "validate_lane_pipe t p =
     (if p \<notin> set (dict_get pipes_by_lane (lane_value (task_lane t)) [])
      then Inl (ProgramValidationError ''flag task names a pipe which is unavailable on the lane'') else Inr ())"

definition guard :: "bool \<Rightarrow> string \<Rightarrow> unit res" where
  "guard ok message = (if ok then Inr () else Inl (ProgramValidationError message))"

definition validate_local :: "task \<Rightarrow> unit res" where
  "validate_local t =
     (let src = pipe_name (md_get (task_metadata t) ''src_pipe'');
          dst = pipe_name (md_get (task_metadata t) ''dst_pipe'')
      in and_then (guard (case md_get (task_metadata t) ''flag_id'' of PInt n \<Rightarrow> 0 \<le> n \<and> n \<le> 7 | _ \<Rightarrow> False)
           ''local flag task requires flag_id in [0, 7]'') (\<lambda>_.
         and_then (guard (src \<in> set pipe_names \<and> src \<noteq> ''s'') ''local flag task requires a non-scalar source pipe'') (\<lambda>_.
         and_then (guard (dst \<in> set pipe_names) ''local flag task requires a valid destination pipe'') (\<lambda>_.
         and_then (validate_lane_pipe t src) (\<lambda>_. validate_lane_pipe t dst)))))"

definition validate_set_cross :: "task \<Rightarrow> unit res" where
  "validate_set_cross t =
     (let src = pipe_name (md_get (task_metadata t) ''src_pipe'')
      in and_then (flag_id t) (\<lambda>n.
         and_then (guard (0 \<le> n \<and> n \<le> 15) ''cross flag task requires flag_id in [0, 15]'') (\<lambda>_.
         and_then (cross_mode t) (\<lambda>mode.
         and_then (lane_kind t) (\<lambda>kind.
         and_then (guard (\<not> (mode = 1 \<and> kind \<noteq> ''vector'')) ''cross flag mode 1 requires a vector lane'') (\<lambda>_.
         and_then (guard (src \<in> set pipe_names \<and> src \<noteq> ''s'') ''cross flag set task requires a non-scalar src_pipe'') (\<lambda>_.
         validate_lane_pipe t src)))))))"

definition validate_wait_cross :: "task \<Rightarrow> unit res" where
  "validate_wait_cross t =
     and_then (flag_id t) (\<lambda>n.
     and_then (guard (0 \<le> n \<and> n \<le> 15) ''cross flag task requires flag_id in [0, 15]'') (\<lambda>_.
     and_then (lane_kind t) (\<lambda>_. Inr ())))"

definition validate_sync_task :: "task \<Rightarrow> string \<Rightarrow> unit res" where
  "validate_sync_task t op =
     and_then (if op \<in> set SET_LOCAL \<or> op \<in> set WAIT_LOCAL then validate_local t else Inr ()) (\<lambda>_.
     and_then (if op \<in> set SET_CROSS then validate_set_cross t
               else if op \<in> set WAIT_CROSS then validate_wait_cross t else Inr ()) (\<lambda>_.
     if op \<in> set PIPE_BARRIER
     then guard (target_pipe t = ''all'' \<or> target_pipe t \<in> set pipe_names) ''pipe barrier task names unknown pipe''
     else Inr ()))"


section \<open>State\<close>

type_synonym wait_signature = "int \<times> string \<times> int option"

record sync_state =
  ss_flag_blocking :: bool
  ss_local_flag_depth :: int
  ss_cross_flag_depth :: int
  ss_tokens :: "(flag_key, token list) dict"
  ss_collective_ready :: "(collective_key, (participant, token list) dict) dict"
  ss_collective_wait_phase :: "(collective_key \<times> participant, nat) dict"
  ss_cross_wait_modes :: "(wait_signature, int) dict"
  ss_audited_cross_keys :: "flag_key list"
  ss_audited_collective :: "(collective_key \<times> participant) list"
  ss_core_ids :: "int list"
  ss_barrier_dependencies :: "(string, string list) dict"
  ss_ordering_dependencies :: "(string, string list) dict"
  ss_sync_all_arrivals :: "(sync_all_key, (participant, token) dict) dict"
  ss_sync_all_task_phase :: "(string, sync_all_key) dict"
  ss_sync_all_release :: "(string, sync_all_key) dict"
  ss_sync_all_expected :: "(string, participant list) dict"
  ss_task_by_id :: "(string, task) dict"

definition cross_wait_mode :: "(wait_signature, int) dict \<Rightarrow> task \<Rightarrow> int option res" where
  "cross_wait_mode modes t =
     and_then (flag_id t) (\<lambda>n. and_then (lane_kind t) (\<lambda>kind.
       case (map_of modes (n, kind, Some (core_id t)), map_of modes (n, kind, None)) of
         (Some own, Some global_mode) \<Rightarrow>
           if own \<noteq> global_mode then Inl (ProgramValidationError ''cross flag has ambiguous modes'') else Inr (Some own)
       | (Some own, None) \<Rightarrow> Inr (Some own)
       | (None, global_mode) \<Rightarrow> Inr global_mode))"

section \<open>Reset: wait modes\<close>

definition declare_mode :: "(wait_signature, int list) dict \<Rightarrow> task \<Rightarrow> (wait_signature, int list) dict res" where
  "declare_mode modes t =
     and_then (validate_sync_task t (sync_operation t)) (\<lambda>_.
       if sync_operation t \<notin> set SET_CROSS then Inr modes
       else and_then (cross_mode t) (\<lambda>mode.
            and_then (cross_target_kind mode t) (\<lambda>kind.
            and_then (flag_id t) (\<lambda>n.
              let signature = (n, kind, if mode = 0 then None else Some (core_id t));
                  known = dict_get modes signature []
              in Inr (dict_set signature (if mode \<in> set known then known else known @ [mode]) modes)))))"

definition unique_mode :: "(wait_signature, int) dict \<Rightarrow> wait_signature \<times> int list \<Rightarrow> (wait_signature, int) dict res" where
  "unique_mode chosen = (\<lambda>(signature, modes).
     if length modes \<noteq> 1 then Inl (ProgramValidationError ''cross flag has ambiguous modes'')
     else Inr (dict_set signature (hd modes) chosen))"

definition consistent_mode :: "(wait_signature, int list) dict \<Rightarrow> wait_signature \<times> int list \<Rightarrow> bool" where
  "consistent_mode modes = (\<lambda>((n, kind, target_core), own).
     target_core = None \<or>
     (let global_modes = dict_get modes (n, kind, None) []
      in global_modes = [] \<or> set global_modes = set own))"

definition wait_modes :: "task list \<Rightarrow> (wait_signature, int) dict res" where
  "wait_modes tasks =
     and_then (for_each declare_mode [] tasks) (\<lambda>modes.
     and_then (for_each unique_mode [] modes) (\<lambda>chosen.
       if list_all (consistent_mode modes) modes then Inr chosen
       else Inl (ProgramValidationError ''cross flag has ambiguous modes'')))"

type_synonym audited = "flag_key list \<times> (collective_key \<times> participant) list"

definition audit_wait :: "(wait_signature, int) dict \<Rightarrow> audited \<Rightarrow> task \<Rightarrow> audited res" where
  "audit_wait modes = (\<lambda>(cross_keys, collective) t.
     if sync_operation t \<notin> set WAIT_CROSS then Inr (cross_keys, collective)
     else and_then (cross_wait_mode modes t) (\<lambda>mode.
       if mode \<in> {Some 0, Some 1}
       then and_then (collective_key_of t (the mode)) (\<lambda>key.
              Inr (cross_keys, (key, participant_of t) # collective))
       else if mode = Some 2
       then and_then (cross_wait_keys_mode2 t) (\<lambda>keys. Inr (keys @ cross_keys, collective))
       else Inr (cross_keys, collective)))"

section \<open>Reset: markers, fences and collective barriers\<close>

text \<open>The local variables of the last loop of \<open>reset\<close>; a task stands for itself by its id.\<close>

record reset_acc =
  ra_last_by_resource :: "(int \<times> string \<times> string, string) dict"
  ra_resources_by_lane :: "(int \<times> string, (string, string) dict) dict"
  ra_resources_by_core :: "(int, (string \<times> string, string) dict) dict"
  ra_last_fence :: "(int \<times> string, string) dict"
  ra_last_pipe_fence :: "(int \<times> string \<times> string, string) dict"
  ra_sync_all_phase :: "(participant, int) dict"
  ra_pending_sync_all :: "(participant, sync_all_key) dict"
  ra_ordering :: "(string, string list) dict"
  ra_barrier :: "(string, string list) dict"
  ra_release :: "(string, sync_all_key) dict"
  ra_task_phase :: "(string, sync_all_key) dict"

definition empty_reset :: reset_acc where
  "empty_reset = \<lparr>ra_last_by_resource = [], ra_resources_by_lane = [], ra_resources_by_core = [],
     ra_last_fence = [], ra_last_pipe_fence = [], ra_sync_all_phase = [], ra_pending_sync_all = [],
     ra_ordering = [], ra_barrier = [], ra_release = [], ra_task_phase = []\<rparr>"

definition lane_key :: "task \<Rightarrow> int \<times> string" where
  "lane_key t = (core_id t, lane_value (task_lane t))"

definition pipe_key :: "task \<Rightarrow> string \<Rightarrow> int \<times> string \<times> string" where
  "pipe_key t p = (core_id t, lane_value (task_lane t), p)"

definition opt_list :: "'a option \<Rightarrow> 'a list" where
  "opt_list x = (case x of None \<Rightarrow> [] | Some v \<Rightarrow> [v])"

definition is_set :: "string \<Rightarrow> bool" where
  "is_set op \<longleftrightarrow> op \<in> set SET_LOCAL \<or> op \<in> set SET_CROSS"

definition src_pipe_name :: "task \<Rightarrow> string" where
  "src_pipe_name t = pipe_name (md_get (task_metadata t) ''src_pipe'')"

definition dst_pipe_name :: "task \<Rightarrow> string" where
  "dst_pipe_name t = pipe_name (md_get (task_metadata t) ''dst_pipe'')"

definition ordering_of :: "reset_acc \<Rightarrow> task \<Rightarrow> string list" where
  "ordering_of acc t =
     opt_list (map_of (ra_last_fence acc) (lane_key t))
     @ opt_list (map_of (ra_last_pipe_fence acc) (pipe_key t (pipe_value (task_pipe t))))
     @ (if is_set (sync_operation t)
        then opt_list (map_of (ra_last_by_resource acc) (pipe_key t (src_pipe_name t))) else [])"

text \<open>Every FIFO tail the barrier drains: the lane's, or the whole core's on the control lane.\<close>

definition lane_tails :: "reset_acc \<Rightarrow> task \<Rightarrow> string list" where
  "lane_tails acc t = map snd (dict_get (ra_resources_by_lane acc) (lane_key t) [])"

definition drained_tails :: "reset_acc \<Rightarrow> task \<Rightarrow> string list" where
  "drained_tails acc t =
     (if lane_value (task_lane t) = ''control'' then map snd (dict_get (ra_resources_by_core acc) (core_id t) [])
      else lane_tails acc t)"

definition barrier_of :: "reset_acc \<Rightarrow> task \<Rightarrow> string list option" where
  "barrier_of acc t =
     (let op = sync_operation t in
      if op \<in> set BARRIER_ALL then Some (drained_tails acc t)
      else if op \<in> set PIPE_BARRIER then
        (if target_pipe t = ''all'' then Some (drained_tails acc t)
         else let target_lane = py_lower (py_str (md_default t ''target_lane'' (PStr (lane_value (task_lane t)))))
              in Some (opt_list (map_of (ra_last_by_resource acc) (core_id t, target_lane, target_pipe t))))
      else if op \<in> set SYNC_ALL then Some (lane_tails acc t)
      else None)"

definition enter_sync_all :: "reset_acc \<Rightarrow> task \<Rightarrow> reset_acc res" where
  "enter_sync_all acc t =
     and_then (sync_all_scope t) (\<lambda>scope.
       let members = sync_all_task_participants t scope;
           phases = remdups (map (\<lambda>p. dict_get (ra_sync_all_phase acc) p 0) members)
       in if length phases \<noteq> 1
          then Inl (ProgramValidationError ''sync_all task reaches mismatched participant phases'')
          else let key = (scope, hd phases)
          in Inr (acc\<lparr>ra_task_phase := dict_set (task_id t) key (ra_task_phase acc),
                 ra_sync_all_phase := foldl (\<lambda>d p. dict_add p 1 d) (ra_sync_all_phase acc) members,
                 ra_pending_sync_all := dict_set (participant_of t) key (ra_pending_sync_all acc)\<rparr>))"

text \<open>The fences a task leaves behind for later tasks.\<close>

definition leave_fences :: "reset_acc \<Rightarrow> task \<Rightarrow> reset_acc" where
  "leave_fences acc t =
     (let op = sync_operation t;
          lane_fence = acc\<lparr>ra_last_fence := dict_set (lane_key t) (task_id t) (ra_last_fence acc)\<rparr>;
          pipe_fence = (\<lambda>p. acc\<lparr>ra_last_pipe_fence := dict_set (pipe_key t p) (task_id t) (ra_last_pipe_fence acc)\<rparr>)
      in if op \<in> set WAIT_CROSS \<or> op \<in> set BARRIER_ALL \<or> op \<in> set SYNC_ALL then lane_fence
         else if op \<in> set WAIT_LOCAL
         then (if dst_pipe_name t = ''s'' then lane_fence else pipe_fence (dst_pipe_name t))
         else if op \<in> set PIPE_BARRIER
         then (if target_pipe t = ''all'' then lane_fence
               else if target_pipe t \<noteq> [] then pipe_fence (target_pipe t) else acc)
         else if is_set op then (if src_pipe_name t \<noteq> [] then pipe_fence (src_pipe_name t) else acc)
         else acc)"

definition enter_resources :: "reset_acc \<Rightarrow> task \<Rightarrow> reset_acc" where
  "enter_resources acc t =
     (let p = pipe_value (task_pipe t); lane = lane_value (task_lane t);
          by_lane = dict_get (ra_resources_by_lane acc) (lane_key t) [];
          by_core = dict_get (ra_resources_by_core acc) (core_id t) []
      in acc\<lparr>ra_last_by_resource := dict_set (pipe_key t p) (task_id t) (ra_last_by_resource acc),
            ra_resources_by_lane := dict_set (lane_key t) (dict_set p (task_id t) by_lane) (ra_resources_by_lane acc),
            ra_resources_by_core := dict_set (core_id t) (dict_set (lane, p) (task_id t) by_core) (ra_resources_by_core acc)\<rparr>)"

definition reset_step :: "reset_acc \<Rightarrow> task \<Rightarrow> reset_acc res" where
  "reset_step acc t =
     and_then (validate_sync_task t (sync_operation t)) (\<lambda>_.
       let release = (case map_of (ra_pending_sync_all acc) (participant_of t) of
                        None \<Rightarrow> ra_release acc | Some key \<Rightarrow> dict_set (task_id t) key (ra_release acc));
           ordering = ordering_of acc t;
           acc1 = acc\<lparr>ra_release := release,
             ra_ordering := (if ordering \<noteq> [] then dict_set (task_id t) (fromkeys ordering) (ra_ordering acc)
                             else ra_ordering acc),
             ra_barrier := (case barrier_of acc t of
                              None \<Rightarrow> ra_barrier acc | Some deps \<Rightarrow> dict_set (task_id t) deps (ra_barrier acc))\<rparr>
       in and_then (if sync_operation t \<in> set SYNC_ALL then enter_sync_all acc1 t else Inr acc1) (\<lambda>acc2.
            Inr (leave_fences (enter_resources acc2 t) t)))"

definition expected_scope :: "int list \<Rightarrow> (string, participant list) dict \<Rightarrow> string \<times> sync_all_key \<Rightarrow>
  (string, participant list) dict res" where
  "expected_scope core_ids expected = (\<lambda>(_, scope, _).
     and_then (sync_all_participants core_ids scope) (\<lambda>members. Inr (dict_set scope members expected)))"

text \<open>\<open>__init__\<close> gives the three parameters; \<open>reset\<close> sets everything else from the program.\<close>

definition sync_reset :: "bool \<Rightarrow> int \<Rightarrow> int \<Rightarrow> kernel_program \<Rightarrow> sync_state res" where
  "sync_reset flag_blocking local_flag_depth cross_flag_depth p =
     (let tasks = program_tasks p; core_ids = sort (map cp_core_id (kp_cores p)) in
      and_then (wait_modes tasks) (\<lambda>modes.
      and_then (for_each (audit_wait modes) ([], []) tasks) (\<lambda>(cross_keys, collective).
      and_then (for_each reset_step empty_reset tasks) (\<lambda>acc.
      and_then (for_each (expected_scope core_ids) [] (ra_task_phase acc)) (\<lambda>expected.
      Inr \<lparr>ss_flag_blocking = flag_blocking, ss_local_flag_depth = local_flag_depth,
           ss_cross_flag_depth = cross_flag_depth, ss_tokens = [], ss_collective_ready = [],
           ss_collective_wait_phase = [], ss_cross_wait_modes = modes, ss_audited_cross_keys = cross_keys,
           ss_audited_collective = collective, ss_core_ids = core_ids,
           ss_barrier_dependencies = ra_barrier acc, ss_ordering_dependencies = ra_ordering acc,
           ss_sync_all_arrivals = [], ss_sync_all_task_phase = ra_task_phase acc,
           ss_sync_all_release = ra_release acc, ss_sync_all_expected = expected,
           ss_task_by_id = map (\<lambda>t. (task_id t, t)) tasks\<rparr>)))))"


section \<open>Evaluate\<close>

type_synonym completed = "(string, exec_record) dict"

definition is_done :: "completed \<Rightarrow> string \<Rightarrow> bool" where
  "is_done completed tid \<longleftrightarrow> map_of completed tid \<noteq> None"

definition end_of :: "completed \<Rightarrow> string \<Rightarrow> int" where
  "end_of completed tid = (case map_of completed tid of None \<Rightarrow> 0 | Some r \<Rightarrow> er_end_cycle r)"

definition latest_end :: "completed \<Rightarrow> string list \<Rightarrow> int" where
  "latest_end completed tids = max_default0 (map (end_of completed) tids)"

fun format_flag_key :: "flag_key \<Rightarrow> string" where
  "format_flag_key (LocalFlag core lane src dst n) =
     ''local flag core='' @ str_of_int core @ '' lane='' @ lane @ '' '' @ src @ ''->'' @ dst @ '' id='' @ str_of_int n"
| "format_flag_key (CrossFlag core direction lane n) =
     ''cross flag core='' @ str_of_int core @ '' direction='' @ direction @ '' lane='' @ lane @ '' id='' @ str_of_int n"

definition format_participant :: "participant \<Rightarrow> string" where
  "format_participant p = ''core='' @ str_of_int (fst p) @ ''/lane='' @ snd p"

definition waiting_for :: "string list \<Rightarrow> string" where
  "waiting_for names = ''waiting for '' @ py_join '', '' names"

definition tokens_of :: "sync_state \<Rightarrow> flag_key \<Rightarrow> token list" where
  "tokens_of st key = dict_get (ss_tokens st) key []"

definition block :: "string \<Rightarrow> string \<Rightarrow> sync_decision res" where
  "block reason detail = SyncDecision None (Some reason) detail []"

text \<open>The release of a task behind \<open>sync_all\<close>: the arrivals entry it reads is created.\<close>

definition evaluate_release ::
  "sync_state \<Rightarrow> sync_all_key \<Rightarrow> int \<Rightarrow> (sync_state \<times> sync_decision) res" where
  "evaluate_release st key ordering_cycle =
     (case map_of (ss_sync_all_expected st) (fst key) of
        None \<Rightarrow> Inl (KeyError ''sync_all scope'')
      | Some expected \<Rightarrow>
          let arrivals = dict_get (ss_sync_all_arrivals st) key [];
              st' = st\<lparr>ss_sync_all_arrivals := dict_setdefault key [] (ss_sync_all_arrivals st)\<rparr>;
              missing = filter (\<lambda>p. map_of arrivals p = None) expected;
              phase = ''scope='' @ fst key @ '' phase='' @ str_of_int (snd key)
          in if missing \<noteq> []
             then and_then (block ''sync_all'' (phase @ '' '' @ waiting_for (map format_participant missing))) (\<lambda>d. Inr (st', d))
             else if arrivals = [] then Inl (ValueError ''max() arg is an empty sequence'')
             else and_then (SyncDecision (Some (max ordering_cycle (Max (set (map (fst \<circ> snd) arrivals)))))
                    (Some ''sync_all'') phase (fromkeys (map (snd \<circ> snd) arrivals))) (\<lambda>d. Inr (st', d)))"

text \<open>The bounded-credit mode, when it blocks a SET.\<close>

definition depth_block :: "sync_state \<Rightarrow> task \<Rightarrow> sync_decision option res" where
  "depth_block st t =
     (let op = sync_operation t in
      if ss_flag_blocking st \<and> op \<in> set SET_LOCAL then
        and_then (local_flag_key t) (\<lambda>key.
          let outstanding = int (length (tokens_of st key))
          in if ss_local_flag_depth st \<le> outstanding
             then and_then (block ''local flag depth''
                    (format_flag_key key @ '' full ('' @ str_of_int outstanding @ ''/''
                     @ str_of_int (ss_local_flag_depth st) @ '' outstanding credits)'')) (\<lambda>d. Inr (Some d))
             else Inr None)
      else if ss_flag_blocking st \<and> op \<in> set SET_CROSS then
        and_then (cross_mode t) (\<lambda>mode.
          if mode \<in> {0, 1} then Inr None
          else and_then (cross_set_keys_mode2 t) (\<lambda>keys.
            let full = filter (\<lambda>key. ss_cross_flag_depth st \<le> int (length (tokens_of st key))) keys
            in if full \<noteq> []
               then and_then (block ''cross flag depth''
                      (py_join ''; '' (map (\<lambda>key. format_flag_key key @ '' full ('' @ str_of_int (ss_cross_flag_depth st)
                         @ '' outstanding credits)'') full))) (\<lambda>d. Inr (Some d))
               else Inr None))
      else Inr None)"

definition evaluate_wait_local :: "sync_state \<Rightarrow> task \<Rightarrow> int \<Rightarrow> sync_decision res" where
  "evaluate_wait_local st t ordering_cycle =
     and_then (local_flag_key t) (\<lambda>key.
       case tokens_of st key of
         [] \<Rightarrow> block ''local flag'' (format_flag_key key)
       | (cycle, producer) # _ \<Rightarrow>
           SyncDecision (Some (max ordering_cycle cycle)) (Some ''local flag'') (format_flag_key key) [producer])"

text \<open>A wait on a collective flag; the entry of \<open>_collective_ready\<close> it reads is created.\<close>

definition evaluate_collective_wait ::
  "sync_state \<Rightarrow> task \<Rightarrow> int \<Rightarrow> int \<Rightarrow> (sync_state \<times> sync_decision) res" where
  "evaluate_collective_wait st t mode ordering_cycle =
     and_then (collective_key_of t mode) (\<lambda>key.
     and_then (collective_participants (ss_core_ids st) key) (\<lambda>expected.
     and_then (flag_id t) (\<lambda>n.
       let phase = dict_get (ss_collective_wait_phase st) (key, participant_of t) 0;
           ready = dict_get (ss_collective_ready st) key [];
           st' = st\<lparr>ss_collective_ready := dict_setdefault key [] (ss_collective_ready st)\<rparr>;
           missing = filter (\<lambda>p. length (dict_get ready p []) \<le> phase) expected;
           label = ''mode='' @ str_of_int mode @ '' id='' @ str_of_int n @ '' phase='' @ str_of_int (int phase)
       in if missing \<noteq> []
          then and_then (block ''cross flag'' (label @ '' '' @ waiting_for (map format_participant missing)))
                 (\<lambda>d. Inr (st', d))
          else if expected = [] then Inl (ValueError ''max() arg is an empty sequence'')
          else let heads = map (\<lambda>p. dict_get ready p [] ! phase) expected
               in and_then (SyncDecision (Some (max ordering_cycle (Max (set (map fst heads)))))
                    (Some ''cross flag'') label (map snd heads)) (\<lambda>d. Inr (st', d)))))"

definition evaluate_wait_cross ::
  "sync_state \<Rightarrow> task \<Rightarrow> int \<Rightarrow> (sync_state \<times> sync_decision) res" where
  "evaluate_wait_cross st t ordering_cycle =
     and_then (cross_wait_mode (ss_cross_wait_modes st) t) (\<lambda>mode.
       case mode of
         None \<Rightarrow> and_then (flag_id t) (\<lambda>n.
           and_then (block ''cross flag'' (''no set_cross_flag mode declaration for core='' @ str_of_int (core_id t)
             @ '' lane='' @ lane_value (task_lane t) @ '' id='' @ str_of_int n)) (\<lambda>d. Inr (st, d)))
       | Some m \<Rightarrow>
           if m \<in> {0, 1} then evaluate_collective_wait st t m ordering_cycle
           else and_then (cross_wait_keys_mode2 t) (\<lambda>keys.
             let missing = filter (\<lambda>key. tokens_of st key = []) keys
             in if missing \<noteq> []
                then and_then (block ''cross flag'' (py_join ''; '' (map format_flag_key missing))) (\<lambda>d. Inr (st, d))
                else let heads = map (\<lambda>key. hd (tokens_of st key)) keys
                     in and_then (SyncDecision (Some (max ordering_cycle (Max (set (map fst heads)))))
                          (Some ''cross flag'') (py_join ''; '' (map format_flag_key keys)) (map snd heads))
                          (\<lambda>d. Inr (st, d))))"

definition evaluate_barrier :: "sync_state \<Rightarrow> task \<Rightarrow> completed \<Rightarrow> int \<Rightarrow> sync_decision res" where
  "evaluate_barrier st t completed ordering_cycle =
     (let required = dict_get (ss_barrier_dependencies st) (task_id t) [];
          missing = filter (\<lambda>tid. \<not> is_done completed tid) required
      in if missing \<noteq> [] then block ''barrier'' (waiting_for missing)
         else SyncDecision (Some (max (latest_end completed required) ordering_cycle)) (Some ''barrier'') [] [])"

definition evaluate :: "sync_state \<Rightarrow> task \<Rightarrow> completed \<Rightarrow> (sync_state \<times> sync_decision) res" where
  "evaluate st t completed =
     (let op = sync_operation t;
          ordering = dict_get (ss_ordering_dependencies st) (task_id t) [];
          missing_ordering = filter (\<lambda>tid. \<not> is_done completed tid) ordering;
          ordering_cycle = latest_end completed ordering;
          pure = (\<lambda>decision. and_then decision (\<lambda>d. Inr (st, d)))
      in if missing_ordering \<noteq> [] then pure (block ''synchronization ordering'' (waiting_for missing_ordering))
         else case map_of (ss_sync_all_release st) (task_id t) of
           Some key \<Rightarrow> evaluate_release st key ordering_cycle
         | None \<Rightarrow>
             and_then (depth_block st t) (\<lambda>full.
               case full of
                 Some d \<Rightarrow> Inr (st, d)
               | None \<Rightarrow>
                   if op \<in> set WAIT_LOCAL then pure (evaluate_wait_local st t ordering_cycle)
                   else if op \<in> set WAIT_CROSS then evaluate_wait_cross st t ordering_cycle
                   else if op \<in> set BARRIER_ALL \<or> op \<in> set PIPE_BARRIER \<or> op \<in> set SYNC_ALL
                   then pure (evaluate_barrier st t completed ordering_cycle)
                   else pure (SyncDecision (Some ordering_cycle) None [] [])))"

section \<open>Scheduled tasks\<close>

definition push_token :: "flag_key \<Rightarrow> token \<Rightarrow> sync_state \<Rightarrow> sync_state" where
  "push_token key token st = st\<lparr>ss_tokens := dict_set key (tokens_of st key @ [token]) (ss_tokens st)\<rparr>"

definition pop_token :: "sync_state \<Rightarrow> flag_key \<Rightarrow> sync_state res" where
  "pop_token st key =
     (case tokens_of st key of
        [] \<Rightarrow> Inl (ProgramValidationError ''wait task consumed a missing flag'')
      | _ # rest \<Rightarrow> Inr (st\<lparr>ss_tokens := dict_set key rest (ss_tokens st)\<rparr>))"

definition push_cross :: "token \<Rightarrow> sync_state \<Rightarrow> flag_key \<Rightarrow> sync_state res" where
  "push_cross token st key =
     (if \<not> ss_flag_blocking st \<and> MAX_CROSS_FLAG_CREDITS \<le> length (tokens_of st key)
      then Inl (ProgramValidationError ''set task overflowed cross flag at 15 outstanding credits'')
      else Inr (push_token key token st))"

definition on_collective_set :: "sync_state \<Rightarrow> task \<Rightarrow> int \<Rightarrow> exec_record \<Rightarrow> sync_state res" where
  "on_collective_set st t mode r =
     and_then (collective_key_of t mode) (\<lambda>key.
     and_then (collective_participants (ss_core_ids st) key) (\<lambda>expected.
       if participant_of t \<notin> set expected
       then Inl (ProgramValidationError ''cross flag set task is not a participant of the mode'')
       else let by_participant = dict_get (ss_collective_ready st) key [];
                ready = dict_get by_participant (participant_of t) [];
                minimum = Min (set (map (\<lambda>p. dict_get (ss_collective_wait_phase st) (key, p) 0) expected))
            in if int MAX_CROSS_FLAG_CREDITS \<le> int (length ready) - int minimum
               then Inl (ProgramValidationError ''set task overflowed cross flag at 15 outstanding phases'')
               else Inr (st\<lparr>ss_collective_ready := dict_set key
                      (dict_set (participant_of t) (ready @ [(er_end_cycle r, task_id t)]) by_participant)
                      (ss_collective_ready st)\<rparr>)))"

definition arrive :: "task \<Rightarrow> exec_record \<Rightarrow> sync_all_key \<Rightarrow> sync_state \<Rightarrow> participant \<Rightarrow> sync_state res" where
  "arrive t r key st p =
     (let arrivals = dict_get (ss_sync_all_arrivals st) key []
      in if map_of arrivals p \<noteq> None then Inl (ProgramValidationError ''sync_all task duplicates participant'')
         else Inr (st\<lparr>ss_sync_all_arrivals := dict_set key (dict_set p (er_end_cycle r, task_id t) arrivals)
                (ss_sync_all_arrivals st)\<rparr>))"

definition on_scheduled :: "sync_state \<Rightarrow> task \<Rightarrow> exec_record \<Rightarrow> sync_state res" where
  "on_scheduled st t r =
     (let op = sync_operation t; token = (er_end_cycle r, task_id t) in
      if op \<in> set SET_LOCAL then and_then (local_flag_key t) (\<lambda>key. Inr (push_token key token st))
      else if op \<in> set SET_CROSS then
        and_then (cross_mode t) (\<lambda>mode.
          if mode \<in> {0, 1} then on_collective_set st t mode r
          else and_then (cross_set_keys_mode2 t) (\<lambda>keys. for_each (push_cross token) st keys))
      else if op \<in> set WAIT_LOCAL then and_then (local_flag_key t) (pop_token st)
      else if op \<in> set WAIT_CROSS then
        and_then (cross_wait_mode (ss_cross_wait_modes st) t) (\<lambda>mode.
          case mode of
            None \<Rightarrow> Inl (ProgramValidationError ''wait task has no cross flag mode declaration'')
          | Some m \<Rightarrow>
              if m \<in> {0, 1} then
                and_then (collective_key_of t m) (\<lambda>key.
                  let entry = (key, participant_of t)
                  in Inr (st\<lparr>ss_collective_wait_phase := dict_set entry
                       (dict_get (ss_collective_wait_phase st) entry 0 + 1) (ss_collective_wait_phase st)\<rparr>))
              else and_then (cross_wait_keys_mode2 t) (\<lambda>keys. for_each pop_token st keys))
      else if op \<in> set SYNC_ALL then
        (case map_of (ss_sync_all_task_phase st) (task_id t) of
           None \<Rightarrow> Inl (KeyError ''task_id'')
         | Some key \<Rightarrow> for_each (arrive t r key)
             (st\<lparr>ss_sync_all_arrivals := dict_setdefault key [] (ss_sync_all_arrivals st)\<rparr>)
             (sync_all_task_participants t (fst key)))
      else Inr st)"


section \<open>Accounting at the end of a kernel\<close>

text \<open>\<open>str(key)\<close> of the key tuples, which orders the dictionaries for the audit.\<close>

definition quoted :: "string \<Rightarrow> string" where
  "quoted s = [CHR 39] @ s @ [CHR 39]"

definition tuple_text :: "string list \<Rightarrow> string" where
  "tuple_text parts = ''('' @ py_join '', '' parts @ '')''"

fun flag_key_text :: "flag_key \<Rightarrow> string" where
  "flag_key_text (LocalFlag core lane src dst n) =
     tuple_text [quoted ''local'', str_of_int core, quoted lane, quoted src, quoted dst, str_of_int n]"
| "flag_key_text (CrossFlag core direction lane n) =
     tuple_text [quoted ''cross'', str_of_int core, quoted direction, quoted lane, str_of_int n]"

definition collective_key_text :: "collective_key \<Rightarrow> string" where
  "collective_key_text = (\<lambda>(mode, kind, group_id, n).
     tuple_text [str_of_int mode, quoted kind, str_of_int group_id, str_of_int n])"

fun is_local_key :: "flag_key \<Rightarrow> bool" where
  "is_local_key (LocalFlag _ _ _ _ _) = True"
| "is_local_key _ = False"

definition residual_tokens :: "sync_state \<Rightarrow> string list" where
  "residual_tokens st =
     map (\<lambda>(key, tokens). format_flag_key key @ '' level='' @ str_of_int (int (length tokens))
            @ '' last_set='' @ snd (last tokens))
       (filter (\<lambda>(key, tokens). tokens \<noteq> [] \<and> (is_local_key key \<or> key \<in> set (ss_audited_cross_keys st)))
         (sort_key (flag_key_text \<circ> fst) (ss_tokens st)))"

definition residual_participant ::
  "sync_state \<Rightarrow> collective_key \<Rightarrow> (participant, token list) dict \<Rightarrow> participant \<Rightarrow> string list" where
  "residual_participant st key ready p =
     (if (key, p) \<notin> set (ss_audited_collective st) then []
      else let produced = length (dict_get ready p []);
               consumed = dict_get (ss_collective_wait_phase st) (key, p) 0
           in if produced \<noteq> consumed
              then [''collective flag mode='' @ str_of_int (fst key) @ '' id='' @ str_of_int (snd (snd (snd key)))
                    @ '' '' @ format_participant p @ '' level='' @ str_of_int (int produced - int consumed)]
              else [])"

definition residual_collective ::
  "sync_state \<Rightarrow> string list \<Rightarrow> collective_key \<times> (participant, token list) dict \<Rightarrow> string list res" where
  "residual_collective st residual = (\<lambda>(key, ready).
     and_then (collective_participants (ss_core_ids st) key) (\<lambda>expected.
       Inr (residual @ concat (map (residual_participant st key ready) expected))))"

definition residual_sync_all ::
  "sync_state \<Rightarrow> string list \<Rightarrow> sync_all_key \<times> (participant, token) dict \<Rightarrow> string list res" where
  "residual_sync_all st residual = (\<lambda>(key, arrivals).
     case map_of (ss_sync_all_expected st) (fst key) of
       None \<Rightarrow> Inl (KeyError ''sync_all scope'')
     | Some expected \<Rightarrow>
         let missing = filter (\<lambda>p. map_of arrivals p = None) expected
         in Inr (if missing \<noteq> []
                 then residual @ [''sync_all scope='' @ fst key @ '' phase='' @ str_of_int (snd key) @ '' missing ''
                        @ py_join '', '' (map format_participant missing)]
                 else residual))"

definition flag_residual :: "sync_state \<Rightarrow> string list res" where
  "flag_residual st =
     and_then (for_each (residual_collective st) (residual_tokens st)
                 (sort_key (collective_key_text \<circ> fst) (ss_collective_ready st))) (\<lambda>residual.
       for_each (residual_sync_all st) residual (sort_key fst (ss_sync_all_arrivals st)))"

text \<open>The warning the audit emits, if any.\<close>

definition audit_flag_balance :: "sync_state \<Rightarrow> string \<Rightarrow> string option res" where
  "audit_flag_balance st policy =
     and_then (flag_residual st) (\<lambda>residual.
       if residual = [] then Inr None
       else let message = ''FLAG ACCOUNTING at kernel end: '' @ py_join ''; '' residual
            in if policy = ''warn'' then Inr (Some message)
               else if policy = ''error'' then Inl (SimulationDeadlockError message)
               else Inr None)"

definition format_producer :: "sync_state \<Rightarrow> string \<Rightarrow> string" where
  "format_producer st tid =
     (case map_of (ss_task_by_id st) tid of
        None \<Rightarrow> tid
      | Some t \<Rightarrow> (let span = md_get (task_metadata t) ''span''
                  in if py_truth span then tid @ ''@'' @ py_str span else tid))"

definition deadlock_diagnostics :: "sync_state \<Rightarrow> string" where
  "deadlock_diagnostics st =
     (let flags = map (\<lambda>(key, tokens). format_flag_key key @ '' outstanding='' @ str_of_int (int (length tokens))
                     @ '' producer='' @ py_join '', '' (map (format_producer st \<circ> snd) tokens))
                (filter (\<lambda>(key, tokens). tokens \<noteq> []) (sort_key (flag_key_text \<circ> fst) (ss_tokens st)));
          collectives = map (\<lambda>((mode, _, _, n), ready). ''collective mode='' @ str_of_int mode @ '' id='' @ str_of_int n
                     @ '' produced['' @ py_join '', '' (map (\<lambda>(p, tokens). format_participant p @ ''=''
                         @ str_of_int (int (length tokens))) (sort_key fst ready)) @ '']'')
                (filter (\<lambda>(key, ready). ready \<noteq> []) (sort_key (collective_key_text \<circ> fst) (ss_collective_ready st)));
          barriers = map (\<lambda>((scope, phase), arrivals). ''sync_all scope='' @ scope @ '' phase='' @ str_of_int phase
                     @ '' arrivals='' @ py_join '', '' (map (\<lambda>(p, _, tid). format_participant p @ ''=''
                         @ format_producer st tid) (sort_key fst arrivals)))
                (filter (\<lambda>(key, arrivals). arrivals \<noteq> []) (sort_key fst (ss_sync_all_arrivals st)));
          text = py_join ''; '' (take 16 (flags @ collectives @ barriers))
      in if text \<noteq> [] then text else ''no outstanding synchronization producers'')"

end
