(* ===== verification/Sim_Scheduler.thy ===== *)
theory Sim_Scheduler
  imports Sim_Config Sim_Stats Sim_Sync Sim_Program_Props
begin

text \<open>
  \<^verbatim>\<open>tilelang/simulator/scheduler.py\<close>: the discrete-event loop.  The synchronization model is a record
  of functions over its own state, one field per method of the protocol (the two optional hooks are
  options).  The wall clock is the argument \<open>timed_out\<close>: whether more than the configured time has
  passed when pass number \<open>k\<close> begins.  A Python set of task ids is kept in the order its elements
  entered it, one of the orders the interpreter may enumerate it in; the order only shows in the
  predecessor tuples of a record's metadata.  The loop need not end when deadlock detection is off
  and time never runs out, so it is a partial function into \<open>option\<close>.
\<close>

record 'st sync_model =
  sm_reset :: "kernel_program \<Rightarrow> 'st res"
  sm_evaluate :: "'st \<Rightarrow> task \<Rightarrow> completed \<Rightarrow> ('st \<times> sync_decision) res"
  sm_on_scheduled :: "'st \<Rightarrow> task \<Rightarrow> exec_record \<Rightarrow> 'st res"
  sm_deadlock_diagnostics :: "('st \<Rightarrow> string) option"
  sm_audit_flag_balance :: "('st \<Rightarrow> string \<Rightarrow> string option res) option"

definition noop_model :: "unit sync_model" where
  "noop_model = \<lparr>sm_reset = (\<lambda>_. Inr ()), sm_evaluate = (\<lambda>st _ _. Inr (st, noop_evaluate)),
     sm_on_scheduled = (\<lambda>st _ _. Inr st), sm_deadlock_diagnostics = None, sm_audit_flag_balance = None\<rparr>"

definition flag_model :: "bool \<Rightarrow> int \<Rightarrow> int \<Rightarrow> sync_state sync_model" where
  "flag_model flag_blocking local_flag_depth cross_flag_depth =
     \<lparr>sm_reset = sync_reset flag_blocking local_flag_depth cross_flag_depth, sm_evaluate = evaluate,
      sm_on_scheduled = on_scheduled, sm_deadlock_diagnostics = Some deadlock_diagnostics,
      sm_audit_flag_balance = Some audit_flag_balance\<rparr>"

record schedule_result =
  sr_records :: "exec_record list"
  sr_stats :: simulation_stats

section \<open>Edges\<close>

definition text_edges :: "pyval \<Rightarrow> string list" where
  "text_edges v = (case v of PSeq xs \<Rightarrow> map py_str xs | _ \<Rightarrow> [])"

definition execution_dependencies :: "task \<Rightarrow> string list" where
  "execution_dependencies t =
     (let diagnostic_edges = text_edges (md_default t ''memory_dependencies'' (PSeq []));
          hardware_edges = text_edges (md_default t ''hardware_dependencies'' (PSeq []))
      in filter (\<lambda>d. d \<notin> set diagnostic_edges \<or> d \<in> set hardware_edges) (dependencies t))"

type_synonym resource_key = "int \<times> string \<times> string"

definition task_resource :: "task \<Rightarrow> resource_key" where
  "task_resource t = (core_id t, lane_value (task_lane t), pipe_value (task_pipe t))"

definition fifo_step ::
  "(resource_key, string) dict \<times> (string, string) dict \<Rightarrow> task \<Rightarrow> (resource_key, string) dict \<times> (string, string) dict" where
  "fifo_step = (\<lambda>(previous_by_resource, predecessors) t.
     (dict_set (task_resource t) (task_id t) previous_by_resource,
      case map_of previous_by_resource (task_resource t) of
        None \<Rightarrow> predecessors
      | Some previous \<Rightarrow> dict_set (task_id t) previous predecessors))"

definition fifo_predecessors :: "task list \<Rightarrow> (string, string) dict" where
  "fifo_predecessors tasks = snd (foldl fifo_step ([], []) tasks)"

definition validate_dependencies :: "task list \<Rightarrow> unit \<Rightarrow> task \<Rightarrow> unit res" where
  "validate_dependencies tasks _ t =
     (let missing = sort (filter (\<lambda>d. d \<notin> set (map task_id tasks)) (fromkeys (dependencies t)))
      in if missing \<noteq> []
         then Inl (UnknownDependencyError (''task '' @ task_id t @ '' has unknown dependencies: '' @ py_join '', '' missing))
         else Inr ())"

section \<open>One task\<close>

record 'st schedule_state =
  sl_pending :: "string list"
  sl_completed :: completed
  sl_records :: "exec_record list"
  sl_sync :: 'st
  sl_made_progress :: bool
  sl_blocked :: "(string, string) dict"

text \<open>The cycles a ready task's start is computed from.\<close>

record ready_cycles =
  rc_dependency :: int
  rc_resource :: int
  rc_synchronization :: int

definition rc_ready :: "ready_cycles \<Rightarrow> int" where
  "rc_ready c = max (rc_dependency c) (rc_synchronization c)"

definition rc_start :: "ready_cycles \<Rightarrow> int" where
  "rc_start c = max (rc_ready c) (rc_resource c)"

definition ready_cycles_of :: "completed \<Rightarrow> string list \<Rightarrow> string option \<Rightarrow> sync_decision \<Rightarrow> ready_cycles" where
  "ready_cycles_of completed deps predecessor d =
     \<lparr>rc_dependency = max_default0 (map (end_of completed) deps),
      rc_resource = (case predecessor of None \<Rightarrow> 0 | Some tid \<Rightarrow> end_of completed tid),
      rc_synchronization = (case sd_ready_cycle d of None \<Rightarrow> 0 | Some c \<Rightarrow> c)\<rparr>"

definition text_seq :: "string list \<Rightarrow> pyval" where
  "text_seq xs = PSeq (map PStr xs)"

definition optional_entry :: "bool \<Rightarrow> string \<Rightarrow> pyval \<Rightarrow> metadata" where
  "optional_entry present key v = (if present then [(key, v)] else [])"

definition schedule_predecessors :: "string list \<Rightarrow> string option \<Rightarrow> sync_decision \<Rightarrow> metadata" where
  "schedule_predecessors deps predecessor d =
     optional_entry (deps \<noteq> []) ''explicit'' (text_seq deps)
     @ optional_entry (predecessor \<noteq> None) ''fifo'' (text_seq (opt_list predecessor))
     @ optional_entry (sd_producer_task_ids d \<noteq> []) ''synchronization'' (text_seq (sd_producer_task_ids d))"

definition critical_predecessors ::
  "completed \<Rightarrow> string list \<Rightarrow> string option \<Rightarrow> sync_decision \<Rightarrow> ready_cycles \<Rightarrow> metadata" where
  "critical_predecessors completed deps predecessor d c =
     (let start = rc_start c in
      if start = 0 then []
      else optional_entry (rc_dependency c = start \<and> deps \<noteq> []) ''explicit''
             (text_seq (filter (\<lambda>tid. end_of completed tid = rc_dependency c) deps))
           @ optional_entry (rc_resource c = start \<and> predecessor \<noteq> None) ''fifo'' (text_seq (opt_list predecessor))
           @ optional_entry (rc_synchronization c = start \<and> sd_producer_task_ids d \<noteq> []) ''synchronization''
             (text_seq (sd_producer_task_ids d)))"

definition trace_metadata ::
  "completed \<Rightarrow> string list \<Rightarrow> string option \<Rightarrow> sync_decision \<Rightarrow> ready_cycles \<Rightarrow> metadata" where
  "trace_metadata completed deps predecessor d c =
     (let scheduled = schedule_predecessors deps predecessor d;
          critical = critical_predecessors completed deps predecessor d c
      in optional_entry (sd_producer_task_ids d \<noteq> []) ''sync_producers'' (text_seq (sd_producer_task_ids d))
         @ optional_entry (scheduled \<noteq> []) ''schedule_predecessors'' (PMap scheduled)
         @ optional_entry (critical \<noteq> []) ''critical_predecessors'' (PMap critical)
         @ optional_entry (rc_ready c < rc_start c) ''queue_enter_cycle'' (PInt (rc_ready c)))"

definition stall_reason_of :: "sync_decision \<Rightarrow> string" where
  "stall_reason_of d = (case sd_reason d of Some r \<Rightarrow> if r \<noteq> [] then r else ''synchronization'' | None \<Rightarrow> ''synchronization'')"

text \<open>The wait record of a task that only synchronization holds back.\<close>

definition wait_records :: "task \<Rightarrow> sync_decision \<Rightarrow> ready_cycles \<Rightarrow> exec_record list res" where
  "wait_records t d c =
     (let unblocked_at = max (rc_dependency c) (rc_resource c) in
      if unblocked_at < rc_synchronization c
      then and_then (ExecutionRecord \<lparr>er_task_id = task_id t @ ''#wait'', er_operation = ''wait'',
               er_core_id = core_id t, er_lane = task_lane t, er_pipe = task_pipe t,
               er_start_cycle = unblocked_at, er_end_cycle = rc_synchronization c, er_category = ''wait'',
               er_stall_reason = Some (stall_reason_of d),
               er_metadata = [(''blocked_task'', PStr (task_id t)), (''detail'', PStr (sd_detail d))]\<rparr>)
             (\<lambda>r. Inr [r])
      else Inr [])"

definition limit_exceeded :: "int option \<Rightarrow> task \<Rightarrow> int \<Rightarrow> unit res" where
  "limit_exceeded max_cycles t end_cycle =
     (case max_cycles of
        Some limit \<Rightarrow>
          if limit < end_cycle
          then Inl (SimulationLimitError (''task '' @ task_id t @ '' would finish at cycle '' @ str_of_int end_cycle
                 @ '', exceeding max_cycles='' @ str_of_int limit))
          else Inr ()
      | None \<Rightarrow> Inr ())"

definition commit_task ::
  "'st sync_model \<Rightarrow> int option \<Rightarrow> string list \<Rightarrow> string option \<Rightarrow> sync_decision \<Rightarrow> 'st schedule_state \<Rightarrow> task \<Rightarrow>
   'st schedule_state res" where
  "commit_task m max_cycles deps predecessor d s t =
     (let c = ready_cycles_of (sl_completed s) deps predecessor d;
          end_cycle = rc_start c + duration_cycles t
      in and_then (wait_records t d c) (\<lambda>waits.
         and_then (limit_exceeded max_cycles t end_cycle) (\<lambda>_.
         and_then (from_task t (rc_start c) end_cycle ''operation'' None
                     (trace_metadata (sl_completed s) deps predecessor d c)) (\<lambda>r.
         and_then (sm_on_scheduled m (sl_sync s) t r) (\<lambda>st.
         Inr (s\<lparr>sl_completed := dict_set (task_id t) r (sl_completed s),
                sl_records := sl_records s @ waits @ [r],
                sl_pending := filter (\<lambda>tid. tid \<noteq> task_id t) (sl_pending s),
                sl_sync := st, sl_made_progress := True\<rparr>))))))"

definition block_task :: "string \<Rightarrow> string \<Rightarrow> 'st schedule_state \<Rightarrow> 'st schedule_state" where
  "block_task tid detail s = s\<lparr>sl_blocked := dict_set tid detail (sl_blocked s)\<rparr>"

definition blocked_by :: "sync_decision \<Rightarrow> string" where
  "blocked_by d = ''blocked by '' @ stall_reason_of d @ (if sd_detail d \<noteq> [] then '': '' @ sd_detail d else [])"

definition schedule_task ::
  "'st sync_model \<Rightarrow> int option \<Rightarrow> (string, string) dict \<Rightarrow> 'st schedule_state \<Rightarrow> task \<Rightarrow> 'st schedule_state res" where
  "schedule_task m max_cycles fifo s t =
     (if task_id t \<notin> set (sl_pending s) then Inr s
      else let deps = fromkeys (execution_dependencies t);
               predecessor = map_of fifo (task_id t);
               missing = sort (filter (\<lambda>tid. \<not> is_done (sl_completed s) tid) (fromkeys (deps @ opt_list predecessor)))
           in if missing \<noteq> [] then Inr (block_task (task_id t) (waiting_for missing) s)
              else and_then (sm_evaluate m (sl_sync s) t (sl_completed s)) (\<lambda>(st, d).
                if blocked d then Inr (block_task (task_id t) (blocked_by d) (s\<lparr>sl_sync := st\<rparr>))
                else commit_task m max_cycles deps predecessor d (s\<lparr>sl_sync := st\<rparr>) t))"

section \<open>Deadlock diagnostics\<close>

text \<open>
  The closure \<open>visit\<close> of \<open>_wait_cycle\<close> over a list of tasks: the stack \<open>visiting\<close> in the order of
  its list, the result the cycle found (empty when there is none) and the set \<open>visited\<close>.
\<close>

function visit_wait ::
  "(string, string list) dict \<Rightarrow> string list \<Rightarrow> string set \<Rightarrow> string list \<Rightarrow> string list \<times> string set" where
  "visit_wait edges visiting visited [] = ([], visited)"
| "visit_wait edges visiting visited (t # ts) =
     (if t \<in> set visiting then (dropWhile (\<lambda>x. x \<noteq> t) visiting @ [t], visited)
      else if t \<in> visited then visit_wait edges visiting visited ts
      else case visit_wait edges (visiting @ [t]) visited (dict_get edges t []) of
        (cycle, visited') \<Rightarrow>
          if cycle \<noteq> [] then (cycle, visited')
          else visit_wait edges visiting (insert t visited') ts)"
  by pat_completeness auto
termination
proof (relation "measures [\<lambda>(edges, visiting, visited, ts). card (set (map fst edges) - set visiting),
                           \<lambda>(edges, visiting, visited, ts). length ts]", goal_cases)
  case (3 edges visiting visited t ts)
  show ?case
  proof (cases "t \<in> set (map fst edges)")
    case True
    with 3 have "t \<in> set (map fst edges) - set visiting" by blast
    then have "card (set (map fst edges) - insert t (set visiting)) < card (set (map fst edges) - set visiting)"
      by (metis Diff_insert List.finite_set card_Diff1_less finite_Diff)
    then show ?thesis by simp
  next
    case False
    then have "map_of edges t = None" by (simp add: map_of_eq_None_iff)
    moreover from False have "set (map fst edges) - insert t (set visiting) = set (map fst edges) - set visiting"
      by blast
    ultimately show ?thesis by (simp add: dict_get_def)
  qed
qed auto

definition wait_edges :: "(string, string) dict \<Rightarrow> 'st schedule_state \<Rightarrow> task list \<Rightarrow> (string, string list) dict" where
  "wait_edges fifo s tasks =
     map (\<lambda>t. (task_id t, filter (\<lambda>d. \<not> is_done (sl_completed s) d)
                (execution_dependencies t @ opt_list (map_of fifo (task_id t)))))
       (filter (\<lambda>t. task_id t \<in> set (sl_pending s)) tasks)"

definition wait_cycle :: "(string, string) dict \<Rightarrow> 'st schedule_state \<Rightarrow> task list \<Rightarrow> string list" where
  "wait_cycle fifo s tasks = fst (visit_wait (wait_edges fifo s tasks) [] {} (sort (sl_pending s)))"

definition py_last :: "'a list \<Rightarrow> int \<Rightarrow> 'a list" where
  "py_last xs limit = (if 0 < limit then drop (length xs - nat limit) xs else drop (nat (- limit)) xs)"

definition recent_history :: "exec_record list \<Rightarrow> int \<Rightarrow> string" where
  "recent_history records limit =
     (let recent = py_last records limit
      in if recent = [] then ''none''
         else py_join '', '' (map (\<lambda>r. er_task_id r @ ''@'' @ str_of_int (er_end_cycle r)) recent))"

fun region_context :: "string \<Rightarrow> pyval \<Rightarrow> string list" where
  "region_context key (PRegion r) = [key @ ''='' @ br_buffer r @ '':'' @ scope_value (br_scope r)]"
| "region_context key _ = []"

definition region_contexts :: "task \<Rightarrow> string list" where
  "region_contexts t =
     concat (map (\<lambda>key. region_context key (md_get (task_metadata t) key)) [''src'', ''dst''])
     @ concat (map (\<lambda>key. case md_get (task_metadata t) key of
                 PSeq values \<Rightarrow> concat (map (region_context key) values) | _ \<Rightarrow> []) [''src_regions'', ''dst_regions''])"

definition format_blocked_task :: "task \<Rightarrow> string \<Rightarrow> string" where
  "format_blocked_task t detail =
     (let span = md_get (task_metadata t) ''span'';
          regions = region_contexts t;
          context = (if py_truth span then [''span='' @ py_str span] else [])
            @ (if regions \<noteq> [] then [''regions='' @ py_join '','' (fromkeys regions)] else [])
      in task_id t @ '': '' @ detail @ (if context \<noteq> [] then '' ['' @ py_join ''; '' context @ '']'' else []))"

definition blocked_tasks_text :: "'st schedule_state \<Rightarrow> task list \<Rightarrow> string" where
  "blocked_tasks_text s tasks =
     py_join ''; '' (map (\<lambda>tid. case map_of (map (\<lambda>t. (task_id t, t)) tasks) tid of
         None \<Rightarrow> []
       | Some t \<Rightarrow> format_blocked_task t (dict_get (sl_blocked s) tid ''blocked'')) (sort (sl_pending s)))"

definition deadlock_message ::
  "'st sync_model \<Rightarrow> int \<Rightarrow> (string, string) dict \<Rightarrow> task list \<Rightarrow> 'st schedule_state \<Rightarrow> string" where
  "deadlock_message m history_limit fifo tasks s =
     (let cycle = wait_cycle fifo s tasks
      in ''DEADLOCK (global no-progress): '' @ str_of_int (int (length (sl_pending s))) @ '' blocked task(s): ''
         @ blocked_tasks_text s tasks
         @ (if cycle \<noteq> [] then ''; wait-for cycle: '' @ py_join '' -> '' cycle
            else ''; wait-for graph has no cycle; all remaining tasks are blocked and no future event can fire'')
         @ ''; sync state: '' @ (case sm_deadlock_diagnostics m of None \<Rightarrow> ''unavailable'' | Some hook \<Rightarrow> hook (sl_sync s))
         @ ''; recent events: '' @ recent_history (sl_records s) history_limit)"

section \<open>The loop\<close>

definition schedule_pass ::
  "'st sync_model \<Rightarrow> int option \<Rightarrow> (string, string) dict \<Rightarrow> task list \<Rightarrow> 'st schedule_state \<Rightarrow> 'st schedule_state res" where
  "schedule_pass m max_cycles fifo tasks s =
     for_each (schedule_task m max_cycles fifo) (s\<lparr>sl_made_progress := False, sl_blocked := []\<rparr>) tasks"

definition timeout_message :: "'st schedule_state \<Rightarrow> string" where
  "timeout_message s = ''simulation exceeded execution_timeout_s; pending tasks: '' @ py_join '', '' (sort (sl_pending s))"

partial_function (option) run_loop ::
  "'st sync_model \<Rightarrow> simulator_config \<Rightarrow> (nat \<Rightarrow> bool) \<Rightarrow> (string, string) dict \<Rightarrow> task list \<Rightarrow> nat \<Rightarrow>
   'st schedule_state \<Rightarrow> 'st schedule_state res option" where
  "run_loop m config timed_out fifo tasks k s =
     (if sl_pending s = [] then Some (Inr s)
      else if timed_out k then Some (Inl (SimulationLimitError (timeout_message s)))
      else case schedule_pass m (sc_max_cycles config) fifo tasks s of
        Inl e \<Rightarrow> Some (Inl e)
      | Inr s' \<Rightarrow>
          if sl_made_progress s' \<or> \<not> sc_deadlock_detect config
          then run_loop m config timed_out fifo tasks (Suc k) s'
          else Some (Inl (SimulationDeadlockError
                 (deadlock_message m (sc_deadlock_history_limit config) fifo tasks s'))))"

text \<open>The audit of the model that has one; its warning is the second component.\<close>

definition run_audit :: "'st sync_model \<Rightarrow> simulator_config \<Rightarrow> 'st \<Rightarrow> string option res" where
  "run_audit m config st =
     (if sc_flag_balance_check config = ''off'' then Inr None
      else case sm_audit_flag_balance m of
        None \<Rightarrow> Inr None
      | Some audit \<Rightarrow> audit st (sc_flag_balance_check config))"

definition record_order :: "exec_record \<Rightarrow> int \<times> int \<times> string" where
  "record_order r = (er_start_cycle r, er_end_cycle r, er_task_id r)"

definition finish_run ::
  "'st sync_model \<Rightarrow> simulator_config \<Rightarrow> bindings \<Rightarrow> 'st schedule_state \<Rightarrow> (schedule_result \<times> string option) res" where
  "finish_run m config bindings s =
     and_then (run_audit m config (sl_sync s)) (\<lambda>warning.
       let ordered = sort_key record_order (sl_records s)
       in and_then (from_records ordered bindings [] []) (\<lambda>stats.
            Inr (\<lparr>sr_records = ordered, sr_stats = stats\<rparr>, warning)))"

definition initial_state :: "'st \<Rightarrow> task list \<Rightarrow> 'st schedule_state" where
  "initial_state st tasks = \<lparr>sl_pending = fromkeys (map task_id tasks), sl_completed = [], sl_records = [],
     sl_sync = st, sl_made_progress = False, sl_blocked = []\<rparr>"

text \<open>\<open>run\<close>; without a configuration it builds the default one of the program's platform.\<close>

definition run ::
  "'st sync_model \<Rightarrow> timing_profile \<Rightarrow> simulator_config option \<Rightarrow> (nat \<Rightarrow> bool) \<Rightarrow> kernel_program \<Rightarrow>
   bindings \<Rightarrow> (schedule_result \<times> string option) res option" where
  "run m default_a2 given timed_out p bindings =
     (let tasks = program_tasks p; fifo = fifo_predecessors tasks in
      case and_then (case given of Some c \<Rightarrow> Inr c
                     | None \<Rightarrow> SimulatorConfig default_a2 (default_args\<lparr>ca_platform := kp_platform p\<rparr>)) (\<lambda>config.
           and_then (if sc_platform config \<noteq> kp_platform p
                     then Inl (SimulatorConfigError ''scheduler config platform does not match program platform'')
                     else Inr ()) (\<lambda>_.
           and_then (for_each (validate_dependencies tasks) () tasks) (\<lambda>_.
           and_then (sm_reset m p) (\<lambda>st. Inr (config, st))))) of
        Inl e \<Rightarrow> Some (Inl e)
      | Inr (config, st) \<Rightarrow>
          (case run_loop m config timed_out fifo tasks 0 (initial_state st tasks) of
             None \<Rightarrow> None
           | Some r \<Rightarrow> Some (and_then r (finish_run m config bindings))))"

end
