(* ===== verification/Sim_Fences.thy ===== *)
theory Sim_Fences
  imports Sim_Sync
begin

text \<open>
  The static check of \<^verbatim>\<open>tilelang/simulator/sync.py\<close>: every inferred memory dependency between two
  pipes of a lane needs a hardware fence.  The check walks only the synchronization events between
  producer and consumer, found by binary search; it is proved equal to the walk over every
  instruction between them that the module also contains.
\<close>

section \<open>Fences\<close>

definition barrier_target :: "task \<Rightarrow> string" where
  "barrier_target t =
     strip_pipe_prefix (py_lower (py_str (md_default t ''target_pipe'' (PStr (pipe_value (task_pipe t))))))"

fun has_full_barrier :: "task list \<Rightarrow> bool" where
  "has_full_barrier [] = False"
| "has_full_barrier (t # ts) =
     (if sync_operation t \<in> set BARRIER_ALL then True
      else if sync_operation t \<in> set PIPE_BARRIER \<and> barrier_target t = ''all'' then True
      else has_full_barrier ts)"

definition is_full_barrier :: "task \<Rightarrow> bool" where
  "is_full_barrier t = has_full_barrier [t]"

definition is_local_flag_event :: "task \<Rightarrow> bool" where
  "is_local_flag_event t \<longleftrightarrow> sync_operation t \<in> set SET_LOCAL \<or> sync_operation t \<in> set WAIT_LOCAL"

definition has_full_barrier_between :: "int list \<Rightarrow> int \<Rightarrow> int \<Rightarrow> bool" where
  "has_full_barrier_between indices start stop =
     (let position = bisect_left indices start
      in position < length indices \<and> indices ! position < stop)"

type_synonym flag_signature = "string \<times> string \<times> pyval"

definition signature_of :: "task \<Rightarrow> flag_signature" where
  "signature_of t =
     (strip_pipe_prefix (py_lower (py_str (md_default t ''src_pipe'' (PStr [])))),
      strip_pipe_prefix (py_lower (py_str (md_default t ''dst_pipe'' (PStr [])))),
      md_get (task_metadata t) ''flag_id'')"

text \<open>The loop both fence functions share: \<open>reachable\<close> pipes and the pending SETs.\<close>

fun fence_sweep :: "task \<Rightarrow> string set \<Rightarrow> (flag_signature, bool) dict \<Rightarrow> task list \<Rightarrow> bool" where
  "fence_sweep consumer reachable pending [] = False"
| "fence_sweep consumer reachable pending (t # ts) =
     (if core_id t \<noteq> core_id consumer \<or> task_lane t \<noteq> task_lane consumer
      then fence_sweep consumer reachable pending ts
      else let signature = signature_of t in
        if sync_operation t \<in> set SET_LOCAL
        then fence_sweep consumer reachable (dict_set signature (fst signature \<in> reachable) pending) ts
        else if sync_operation t \<in> set WAIT_LOCAL
        then (case map_of pending signature of
                None \<Rightarrow> fence_sweep consumer reachable pending ts
              | Some source_was_reachable \<Rightarrow>
                  let reachable' = (if source_was_reachable then insert (fst (snd signature)) reachable else reachable)
                  in if pipe_value (task_pipe consumer) \<in> reachable' then True
                     else fence_sweep consumer reachable' (AList.delete signature pending) ts)
        else fence_sweep consumer reachable pending ts)"

definition has_local_flag_fence :: "task list \<Rightarrow> task \<Rightarrow> task \<Rightarrow> bool" where
  "has_local_flag_fence tasks producer consumer =
     fence_sweep consumer {pipe_value (task_pipe producer)} [] tasks"

definition has_local_flag_fence_between ::
  "(int \<times> task) list \<Rightarrow> int list \<Rightarrow> int \<Rightarrow> int \<Rightarrow> task \<Rightarrow> task \<Rightarrow> bool" where
  "has_local_flag_fence_between events event_indices start stop producer consumer =
     (let first = bisect_left event_indices start; end = bisect_left event_indices stop
      in fence_sweep consumer {pipe_value (task_pipe producer)} []
           (map (\<lambda>position. snd (events ! position)) [first..<end]))"

section \<open>The check\<close>

definition shared_buffer_keys :: "string list" where
  "shared_buffer_keys =
    [''src_regions'', ''src'', ''lhs'', ''rhs'', ''mask'', ''accumulator'', ''scalar_src'', ''offsets'',
     ''bias'', ''dst'', ''dst_regions'', ''pad_dst'', ''scratch'', ''output_scratch'']"

fun region_buffers :: "pyval \<Rightarrow> string list" where
  "region_buffers (PRegion r) = [br_buffer r]"
| "region_buffers _ = []"

definition buffer_names :: "task \<Rightarrow> string list" where
  "buffer_names t = concat (map (\<lambda>key.
     case md_get (task_metadata t) key of
       PSeq values \<Rightarrow> concat (map region_buffers values)
     | v \<Rightarrow> region_buffers v) shared_buffer_keys)"

definition shared_buffer_name :: "task \<Rightarrow> task \<Rightarrow> string option" where
  "shared_buffer_name producer consumer =
     (case sort (filter (\<lambda>n. n \<in> set (buffer_names consumer)) (buffer_names producer)) of
        [] \<Rightarrow> None | n # _ \<Rightarrow> Some n)"

definition enumerated :: "'a list \<Rightarrow> (int \<times> 'a) list" where
  "enumerated xs = zip (map int [0..<length xs]) xs"

definition unit_flag_fence ::
  "(string, task) dict \<Rightarrow> (string, int) dict \<Rightarrow> task \<Rightarrow> int \<Rightarrow> int \<Rightarrow> pyval \<Rightarrow> bool" where
  "unit_flag_fence task_by_id index_by_id producer producer_index consumer_index predecessor =
     (case predecessor of
        PStr tid \<Rightarrow> (case (map_of task_by_id tid, map_of index_by_id tid) of
            (Some t, Some index) \<Rightarrow> task_pipe t = task_pipe producer \<and> task_lane t = task_lane producer \<and>
               producer_index \<le> index \<and> index < consumer_index
          | _ \<Rightarrow> False)
      | _ \<Rightarrow> False)"

definition missing_fence_diagnostic :: "task \<Rightarrow> task \<Rightarrow> hazard_diagnostic" where
  "missing_fence_diagnostic producer consumer =
     \<lparr>hd_kind = ''missing-pipe-synchronization'',
      hd_message = ''missing A2/A3 pipe synchronization for memory dependency'',
      hd_buffer = shared_buffer_name producer consumer, hd_core_id = Some (core_id consumer),
      hd_start = None, hd_end = None,
      hd_metadata = [(''producer_task'', PStr (task_id producer)), (''consumer_task'', PStr (task_id consumer)),
        (''producer_pipe'', PStr (pipe_value (task_pipe producer))),
        (''consumer_pipe'', PStr (pipe_value (task_pipe consumer)))]\<rparr>"

text \<open>The tables of one core.\<close>

record core_index =
  ci_index_by_id :: "(string, int) dict"
  ci_task_by_id :: "(string, task) dict"
  ci_barriers :: "int list"
  ci_events :: "(int \<times> task) list"

definition index_core :: "task list \<Rightarrow> core_index" where
  "index_core tasks =
     \<lparr>ci_index_by_id = rev (map (\<lambda>(index, t). (task_id t, index)) (enumerated tasks)),
      ci_task_by_id = rev (map (\<lambda>t. (task_id t, t)) tasks),
      ci_barriers = map fst (filter (\<lambda>(_, t). is_full_barrier t) (enumerated tasks)),
      ci_events = filter (\<lambda>(_, t). is_local_flag_event t) (enumerated tasks)\<rparr>"

text \<open>Whether one dependency of a consumer is fenced; \<open>None\<close> when it needs no fence here.\<close>

definition unfenced_producer :: "core_index \<Rightarrow> int \<Rightarrow> task \<Rightarrow> pyval \<Rightarrow> task option res" where
  "unfenced_producer ci consumer_index consumer dependency =
     (case map_of (ci_task_by_id ci) (py_str dependency) of
        None \<Rightarrow> Inr None
      | Some producer \<Rightarrow>
          if task_lane producer \<noteq> task_lane consumer \<or> task_pipe producer = task_pipe consumer then Inr None
          else case map_of (ci_index_by_id ci) (task_id producer) of
            None \<Rightarrow> Inl (KeyError ''task_id'')
          | Some producer_index \<Rightarrow>
              if consumer_index \<le> producer_index then Inr None
              else and_then (py_iter (md_default consumer ''unit_flag_dependencies'' (PSeq []))) (\<lambda>hardware.
                if list_ex (unit_flag_fence (ci_task_by_id ci) (ci_index_by_id ci) producer producer_index consumer_index)
                     hardware
                then Inr None
                else if has_full_barrier_between (ci_barriers ci) (producer_index + 1) consumer_index \<or>
                        has_local_flag_fence_between (ci_events ci) (map fst (ci_events ci)) (producer_index + 1)
                          consumer_index producer consumer
                then Inr None else Inr (Some producer)))"

definition check_dependency ::
  "core_index \<Rightarrow> int \<Rightarrow> task \<Rightarrow> hazard_reporter \<Rightarrow> pyval \<Rightarrow> hazard_reporter res" where
  "check_dependency ci consumer_index consumer reporter dependency =
     and_then (unfenced_producer ci consumer_index consumer dependency) (\<lambda>unfenced.
       case unfenced of
         None \<Rightarrow> Inr reporter
       | Some producer \<Rightarrow>
           (case report reporter (missing_fence_diagnostic producer consumer) MemoryHazardError of
              (_, Inl e) \<Rightarrow> Inl e
            | (reporter', Inr _) \<Rightarrow> Inr reporter'))"

definition check_consumer ::
  "string \<Rightarrow> core_index \<Rightarrow> hazard_reporter \<Rightarrow> int \<times> task \<Rightarrow> hazard_reporter res" where
  "check_consumer dependency_key ci reporter = (\<lambda>(consumer_index, consumer).
     case md_default consumer dependency_key (PSeq []) of
       PSeq deps \<Rightarrow> for_each (check_dependency ci consumer_index consumer) reporter deps
     | _ \<Rightarrow> Inr reporter)"

definition validate_memory_synchronization ::
  "kernel_program \<Rightarrow> string \<Rightarrow> string \<Rightarrow> hazard_diagnostic list res" where
  "validate_memory_synchronization p hazard_check dependency_key =
     and_then (HazardReporter hazard_check) (\<lambda>reporter.
     and_then (for_each (\<lambda>rep core. for_each (check_consumer dependency_key (index_core (cp_tasks core))) rep
                 (enumerated (cp_tasks core))) reporter (kp_cores p)) (\<lambda>final.
       Inr (hr_diagnostics final)))"

section \<open>The indexed walk is the full walk\<close>

definition task_slice :: "task list \<Rightarrow> int \<Rightarrow> int \<Rightarrow> task list" where
  "task_slice tasks start stop = take (nat stop - nat start) (drop (nat start) tasks)"

lemma enumerated_nth: "i < length xs \<Longrightarrow> enumerated xs ! i = (int i, xs ! i)"
  by (simp add: enumerated_def)

lemma length_enumerated [simp]: "length (enumerated xs) = length xs"
  by (simp add: enumerated_def)

lemma map_snd_enumerated [simp]: "map snd (enumerated xs) = xs"
  by (simp add: enumerated_def)

lemma map_fst_enumerated: "map fst (enumerated xs) = map int [0..<length xs]"
  by (simp add: enumerated_def)

lemma enumerated_slice:
  assumes "0 \<le> start" "start \<le> stop" "stop \<le> int (length tasks)"
  shows "map snd (filter (\<lambda>(i, t). start \<le> i \<and> i < stop) (enumerated tasks)) = task_slice tasks start stop"
proof -
  let ?a = "nat start" and ?b = "nat stop"
  have split: "enumerated tasks = take ?a (enumerated tasks) @ take (?b - ?a) (drop ?a (enumerated tasks))
      @ drop (?b - ?a) (drop ?a (enumerated tasks))"
    by (metis append_take_drop_id)
  have fst_lt: "\<forall>(i, t) \<in> set (take ?a (enumerated tasks)). i < start"
    using assms by (auto simp: in_set_conv_nth enumerated_nth)
  have mid: "\<forall>(i, t) \<in> set (take (?b - ?a) (drop ?a (enumerated tasks))). start \<le> i \<and> i < stop"
    using assms by (auto simp: in_set_conv_nth enumerated_nth)
  have late: "\<forall>(i, t) \<in> set (drop (?b - ?a) (drop ?a (enumerated tasks))). stop \<le> i"
    using assms by (auto simp: in_set_conv_nth enumerated_nth)
  have "filter (\<lambda>(i, t). start \<le> i \<and> i < stop) (take ?a (enumerated tasks)) = []"
    using fst_lt by (fastforce simp: filter_empty_conv)
  moreover have "filter (\<lambda>(i, t). start \<le> i \<and> i < stop) (drop (?b - ?a) (drop ?a (enumerated tasks))) = []"
    using late by (fastforce simp: filter_empty_conv)
  moreover have "filter (\<lambda>(i, t). start \<le> i \<and> i < stop) (take (?b - ?a) (drop ?a (enumerated tasks))) =
      take (?b - ?a) (drop ?a (enumerated tasks))"
    using mid by (intro filter_True) fastforce
  ultimately have "filter (\<lambda>(i, t). start \<le> i \<and> i < stop) (enumerated tasks) = take (?b - ?a) (drop ?a (enumerated tasks))"
    by (subst split) (simp only: filter_append append_Nil append_Nil2)
  then show ?thesis by (simp add: task_slice_def take_map [symmetric] drop_map [symmetric])
qed

lemma take_bisect_left_key:
  assumes "sorted (map f es)"
  shows "take (bisect_left (map f es) x) es = filter (\<lambda>e. f e < x) es"
    and "drop (bisect_left (map f es) x) es = filter (\<lambda>e. x \<le> f e) es"
proof -
  let ?n = "bisect_left (map f es) x"
  have lo: "\<forall>e \<in> set (take ?n es). f e < x" and hi: "\<forall>e \<in> set (drop ?n es). x \<le> f e"
    using bisect_left_correct [OF assms, where x = x] by (auto simp: in_set_conv_nth)
  have split: "filter P es = filter P (take ?n es) @ filter P (drop ?n es)" for P
    by (metis append_take_drop_id filter_append)
  have "filter (\<lambda>e. f e < x) (take ?n es) = take ?n es" "filter (\<lambda>e. f e < x) (drop ?n es) = []"
    using lo hi by (auto simp: filter_empty_conv not_less)
  then show "take ?n es = filter (\<lambda>e. f e < x) es" by (simp add: split)
  have "filter (\<lambda>e. x \<le> f e) (take ?n es) = []" "filter (\<lambda>e. x \<le> f e) (drop ?n es) = drop ?n es"
    using lo hi by (auto simp: filter_empty_conv not_le)
  then show "drop ?n es = filter (\<lambda>e. x \<le> f e) es" by (simp add: split)
qed

lemma bisect_slice:
  assumes "sorted (map f es)" "start \<le> stop"
  defines "a \<equiv> bisect_left (map f es) start" and "b \<equiv> bisect_left (map f es) stop"
  shows "map (\<lambda>i. es ! i) [a..<b] = filter (\<lambda>e. start \<le> f e \<and> f e < stop) es"
proof -
  have ale: "a \<le> length es" and ble: "b \<le> length es"
    using bisect_left_correct(1) [OF assms(1)] by (simp_all add: a_def b_def)
  have head: "take a es = filter (\<lambda>e. f e < start) es" and tail: "drop a es = filter (\<lambda>e. start \<le> f e) es"
    using take_bisect_left_key [OF assms(1), of start] by (simp_all add: a_def)
  have keep: "filter (\<lambda>e. f e < stop) (filter (\<lambda>e. f e < start) es) = filter (\<lambda>e. f e < start) es"
    unfolding filter_filter by (rule filter_cong) (use assms(2) in auto)
  have "take b es = filter (\<lambda>e. f e < stop) (take a es @ drop a es)"
    using take_bisect_left_key(1) [OF assms(1), of stop] by (simp add: b_def)
  also have "\<dots> = take a es @ filter (\<lambda>e. start \<le> f e \<and> f e < stop) es"
    unfolding filter_append head tail keep by (simp only: filter_filter)
  finally have "drop a (take b es) = filter (\<lambda>e. start \<le> f e \<and> f e < stop) es"
    using ale by (simp only: drop_append length_take min.absorb2) simp
  moreover have "map (\<lambda>i. es ! i) [a..<b] = drop a (take b es)"
    using ale ble by (auto intro!: nth_equalityI)
  ultimately show ?thesis by simp
qed

lemma sorted_filter_enumerated: "sorted (map fst (filter P (enumerated xs)))"
  by (rule sorted_filter) (simp add: map_fst_enumerated sorted_map)

lemma has_full_barrier_iff: "has_full_barrier ts \<longleftrightarrow> (\<exists>t \<in> set ts. is_full_barrier t)"
  by (induction ts) (auto simp: is_full_barrier_def)

lemma fence_sweep_events:
  "fence_sweep consumer reachable pending (filter is_local_flag_event ts) = fence_sweep consumer reachable pending ts"
  by (induction ts arbitrary: reachable pending)
     (simp_all add: is_local_flag_event_def Let_def split: option.split)

lemma has_full_barrier_between_iff:
  assumes "sorted indices"
  shows "has_full_barrier_between indices start stop \<longleftrightarrow> (\<exists>i \<in> set indices. start \<le> i \<and> i < stop)"
proof -
  let ?n = "bisect_left indices start"
  have "drop ?n indices = filter (\<lambda>i. start \<le> i) indices" by (rule take_bisect_left(2) [OF assms])
  moreover have "sorted (drop ?n indices)" using assms by (rule sorted_wrt_drop)
  moreover have "?n < length indices \<longleftrightarrow> drop ?n indices \<noteq> []" by (simp add: not_le)
  moreover have "?n < length indices \<Longrightarrow> indices ! ?n = hd (drop ?n indices)" by (simp add: hd_drop_conv_nth)
  ultimately have "has_full_barrier_between indices start stop \<longleftrightarrow>
      filter (\<lambda>i. start \<le> i) indices \<noteq> [] \<and> hd (filter (\<lambda>i. start \<le> i) indices) < stop"
    and "sorted (filter (\<lambda>i. start \<le> i) indices)"
    by (auto simp: has_full_barrier_between_def Let_def)
  then show ?thesis
    by (cases "filter (\<lambda>i. start \<le> i) indices")
       (auto simp: filter_empty_conv filter_eq_Cons_iff dest: le_less_trans)
qed

lemma fences_agree:
  assumes "0 \<le> start" "start \<le> stop" "stop \<le> int (length tasks)"
  shows "has_full_barrier_between (ci_barriers (index_core tasks)) start stop =
           has_full_barrier (task_slice tasks start stop)"
    and "has_local_flag_fence_between (ci_events (index_core tasks)) (map fst (ci_events (index_core tasks)))
           start stop producer consumer =
           has_local_flag_fence (task_slice tasks start stop) producer consumer"
proof -
  let ?window = "filter (\<lambda>(i, t). start \<le> i \<and> i < stop) (enumerated tasks)"
  have slice: "task_slice tasks start stop = map snd ?window" using enumerated_slice [OF assms] by simp
  have "has_full_barrier_between (ci_barriers (index_core tasks)) start stop \<longleftrightarrow>
      (\<exists>(i, t) \<in> set (enumerated tasks). is_full_barrier t \<and> start \<le> i \<and> i < stop)"
    by (subst has_full_barrier_between_iff) (fastforce simp: index_core_def sorted_filter_enumerated)+
  also have "\<dots> \<longleftrightarrow> has_full_barrier (task_slice tasks start stop)"
    by (fastforce simp: has_full_barrier_iff slice)
  finally show "has_full_barrier_between (ci_barriers (index_core tasks)) start stop =
      has_full_barrier (task_slice tasks start stop)" .
  let ?events = "ci_events (index_core tasks)"
  have "map (\<lambda>i. ?events ! i) [bisect_left (map fst ?events) start..<bisect_left (map fst ?events) stop] =
      filter (\<lambda>e. start \<le> fst e \<and> fst e < stop) ?events"
    using bisect_slice [OF _ assms(2), of fst ?events] by (simp add: index_core_def sorted_filter_enumerated)
  then have "map (\<lambda>position. snd (?events ! position))
        [bisect_left (map fst ?events) start..<bisect_left (map fst ?events) stop] =
      map snd (filter (\<lambda>e. start \<le> fst e \<and> fst e < stop) ?events)"
    by (metis (no_types, lifting) comp_apply map_eq_conv map_map)
  also have "\<dots> = filter is_local_flag_event (task_slice tasks start stop)"
    by (simp add: slice filter_map index_core_def comp_def case_prod_unfold conj_commute)
  finally show "has_local_flag_fence_between ?events (map fst ?events) start stop producer consumer =
      has_local_flag_fence (task_slice tasks start stop) producer consumer"
    by (simp add: has_local_flag_fence_between_def has_local_flag_fence_def Let_def fence_sweep_events)
qed


text \<open>
  C33: The static checker's indexed queries answer for the instructions strictly between a producer
  and a consumer of the same core what a walk over all of those instructions answers: whether a full
  barrier separates them, and whether a chain of SET/WAIT pairs carries the producer's pipe to the
  consumer's.
\<close>

theorem indexed_fences_agree:
  assumes "0 \<le> start" "start \<le> stop" "stop \<le> int (length tasks)"
  shows "has_full_barrier_between (ci_barriers (index_core tasks)) start stop =
           has_full_barrier (task_slice tasks start stop) \<and>
         has_local_flag_fence_between (ci_events (index_core tasks)) (map fst (ci_events (index_core tasks)))
           start stop producer consumer =
           has_local_flag_fence (task_slice tasks start stop) producer consumer"
  using fences_agree [OF assms] by blast

definition flag_task :: "string \<Rightarrow> string \<Rightarrow> pipe \<Rightarrow> metadata \<Rightarrow> task" where
  "flag_task tid op p md = \<lparr>task_id = tid, operation = op, core_id = 0, task_lane = VECTOR_0,
     task_pipe = p, duration_cycles = 4, dependencies = [], stage = None, task_metadata = md\<rparr>"

definition mte2_to_v :: metadata where
  "mte2_to_v = [(''src_pipe'', PStr ''mte2''), (''dst_pipe'', PStr ''v''), (''flag_id'', PInt 0)]"

definition fenced_tasks :: "task list" where
  "fenced_tasks = [flag_task ''load'' ''copy'' MTE2 [], flag_task ''set'' ''set_flag'' MTE2 mte2_to_v,
     flag_task ''wait'' ''wait_flag'' VECTOR mte2_to_v,
     flag_task ''add'' ''add'' VECTOR [(''memory_dependencies'', PSeq [PStr ''load''])]]"

theorem indexed_fences_agree_witness:
  "has_local_flag_fence_between (ci_events (index_core fenced_tasks)) (map fst (ci_events (index_core fenced_tasks)))
     1 3 (fenced_tasks ! 0) (fenced_tasks ! 3)"
proof -
  have "has_local_flag_fence (task_slice fenced_tasks 1 3) (fenced_tasks ! 0) (fenced_tasks ! 3)"
    by code_simp
  moreover have "(3::int) \<le> int (length fenced_tasks)" by code_simp
  ultimately show ?thesis using indexed_fences_agree [of 1 3 fenced_tasks] by simp
qed

section \<open>Accepted programs are fenced\<close>

lemma for_each_Inr_visits:
  assumes "for_each body s xs = Inr t" and "x \<in> set xs" and "P s"
    and "\<And>u y v. P u \<Longrightarrow> body u y = Inr v \<Longrightarrow> P v"
  shows "\<exists>u v. P u \<and> body u x = Inr v"
  using assms(1-3) by (induction xs arbitrary: s) (auto split: sum.splits dest: assms(4))

lemma report_error_mode:
  "hr_mode r = ''error'' \<Longrightarrow> report r d e = (r\<lparr>hr_diagnostics := hr_diagnostics r @ [d]\<rparr>, Inl (e (hd_message d)))"
  by (simp add: report_def Let_def)

lemma check_dependency_error:
  assumes "hr_mode r = ''error''" and "check_dependency ci i c r d = Inr r'"
  shows "unfenced_producer ci i c d = Inr None" and "r' = r"
  using assms by (auto simp: check_dependency_def report_error_mode split: option.splits sum.splits)

lemma check_dependency_keeps:
  "hr_mode r = ''error'' \<Longrightarrow> check_dependency ci i c r d = Inr r' \<Longrightarrow> hr_mode r' = ''error''"
  using check_dependency_error(2) by blast

lemma check_consumer_keeps:
  assumes "hr_mode r = ''error''" and "check_consumer key ci r x = Inr r'"
  shows "hr_mode r' = ''error''"
  using assms by (auto simp: check_consumer_def split: pyval.splits prod.splits
      elim!: for_each_invariant [where P = "\<lambda>r. hr_mode r = ''error''"] dest: check_dependency_keeps)

lemma accepted_dependency:
  assumes "validate_memory_synchronization p ''error'' key = Inr ds" and "core \<in> set (kp_cores p)"
    and "(i, consumer) \<in> set (enumerated (cp_tasks core))"
    and "md_default consumer key (PSeq []) = PSeq deps" and "d \<in> set deps"
  shows "unfenced_producer (index_core (cp_tasks core)) i consumer d = Inr None"
proof -
  let ?P = "\<lambda>r. hr_mode r = ''error''" and ?ci = "index_core (cp_tasks core)"
  let ?core_body = "\<lambda>rep core. for_each (check_consumer key (index_core (cp_tasks core))) rep (enumerated (cp_tasks core))"
  have keep: "?P v" if "?P u" "?core_body u c = Inr v" for u c v
    using for_each_invariant [where P = ?P, OF that(2) that(1)] check_consumer_keeps by blast
  obtain final where "for_each ?core_body \<lparr>hr_mode = ''error'', hr_diagnostics = [], hr_warnings = []\<rparr> (kp_cores p) = Inr final"
    using assms(1) unfolding validate_memory_synchronization_def HazardReporter_def
    by (simp add: hazard_modes_def) blast
  from for_each_Inr_visits [OF this assms(2), of ?P] keep
  obtain u v where "?P u" "?core_body u core = Inr v" by auto
  from for_each_Inr_visits [OF this(2) assms(3), of ?P] this(1) check_consumer_keeps
  obtain u v where "?P u" "check_consumer key ?ci u (i, consumer) = Inr v" by blast
  with assms(4) have "?P u" "for_each (check_dependency ?ci i consumer) u deps = Inr v"
    by (simp_all add: check_consumer_def)
  from for_each_Inr_visits [OF this(2) assms(5), of ?P] this(1) check_dependency_keeps
  obtain u v where "?P u" "check_dependency ?ci i consumer u d = Inr v" by blast
  then show ?thesis by (rule check_dependency_error(1))
qed

lemma map_of_index_core:
  assumes "distinct (map task_id tasks)" and "j < length tasks"
  shows "map_of (ci_task_by_id (index_core tasks)) (task_id (tasks ! j)) = Some (tasks ! j)"
    and "map_of (ci_index_by_id (index_core tasks)) (task_id (tasks ! j)) = Some (int j)"
proof -
  have "map fst (map (\<lambda>(index, t). (task_id t, index)) (enumerated tasks)) = map task_id tasks"
    by (rule nth_equalityI) (simp_all add: enumerated_nth)
  moreover have "enumerated tasks ! j \<in> set (enumerated tasks)" using assms(2) by simp
  then have "(task_id (tasks ! j), int j) \<in> set (map (\<lambda>(index, t). (task_id t, index)) (enumerated tasks))"
    using assms(2) by (force simp: enumerated_nth)
  ultimately show "map_of (ci_index_by_id (index_core tasks)) (task_id (tasks ! j)) = Some (int j)"
    using assms(1) by (intro map_of_is_SomeI) (simp_all add: index_core_def rev_map [symmetric])
  show "map_of (ci_task_by_id (index_core tasks)) (task_id (tasks ! j)) = Some (tasks ! j)"
    using assms by (intro map_of_is_SomeI) (simp_all add: index_core_def rev_map [symmetric] comp_def)
qed

lemma unit_flag_fenceD:
  assumes "distinct (map task_id tasks)"
    and "unit_flag_fence (ci_task_by_id (index_core tasks)) (ci_index_by_id (index_core tasks)) producer (int j) (int i) v"
  shows "\<exists>k. j \<le> k \<and> k < i \<and> v = PStr (task_id (tasks ! k)) \<and>
    task_pipe (tasks ! k) = task_pipe producer \<and> task_lane (tasks ! k) = task_lane producer"
proof -
  obtain tid t n where v: "v = PStr tid" and t: "map_of (ci_task_by_id (index_core tasks)) tid = Some t"
    and n: "map_of (ci_index_by_id (index_core tasks)) tid = Some n"
    and range: "int j \<le> n" "n < int i" and same: "task_pipe t = task_pipe producer" "task_lane t = task_lane producer"
    using assms(2) by (auto simp: unit_flag_fence_def split: pyval.splits option.splits)
  from t have "t \<in> set tasks" "tid = task_id t"
    by (auto simp: index_core_def dest!: map_of_SomeD)
  then obtain k where k: "k < length tasks" "tasks ! k = t" by (auto simp: in_set_conv_nth)
  with map_of_index_core(2) [OF assms(1) k(1)] n \<open>tid = task_id t\<close> have "n = int k" by simp
  with range k v same \<open>tid = task_id t\<close> show ?thesis by auto
qed

text \<open>
  C32: A program the memory-synchronization check accepts in its \<open>error\<close> mode is fenced: whenever a
  task lists an earlier task of its core and lane, on another pipe, as a memory dependency, then a
  unit-flag instruction of the producer's pipe is named by the consumer, or a full barrier, or a
  SET/WAIT chain from the producer's pipe to the consumer's, lies between the two.
\<close>

theorem accepted_programs_are_fenced:
  assumes "validate_memory_synchronization p ''error'' key = Inr ds" and "core \<in> set (kp_cores p)"
    and "tasks = cp_tasks core" and "distinct (map task_id tasks)"
    and "j < i" "i < length tasks" and "md_default (tasks ! i) key (PSeq []) = PSeq deps"
    and "d \<in> set deps" "py_str d = task_id (tasks ! j)"
    and "task_lane (tasks ! j) = task_lane (tasks ! i)" "task_pipe (tasks ! j) \<noteq> task_pipe (tasks ! i)"
  shows "(\<exists>hardware k. py_iter (md_default (tasks ! i) ''unit_flag_dependencies'' (PSeq [])) = Inr hardware \<and>
        j \<le> k \<and> k < i \<and> PStr (task_id (tasks ! k)) \<in> set hardware \<and>
        task_pipe (tasks ! k) = task_pipe (tasks ! j) \<and> task_lane (tasks ! k) = task_lane (tasks ! j)) \<or>
    has_full_barrier (task_slice tasks (int j + 1) (int i)) \<or>
    has_local_flag_fence (task_slice tasks (int j + 1) (int i)) (tasks ! j) (tasks ! i)"
proof -
  let ?ci = "index_core tasks"
  have "(int i, tasks ! i) \<in> set (enumerated tasks)"
    using assms(6) by (metis enumerated_nth length_enumerated nth_mem)
  then have "unfenced_producer ?ci (int i) (tasks ! i) d = Inr None"
    using accepted_dependency [OF assms(1,2)] assms(3,7,8) by blast
  then obtain hardware where hw: "py_iter (md_default (tasks ! i) ''unit_flag_dependencies'' (PSeq [])) = Inr hardware"
    and fenced: "list_ex (unit_flag_fence (ci_task_by_id ?ci) (ci_index_by_id ?ci) (tasks ! j) (int j) (int i)) hardware \<or>
      has_full_barrier_between (ci_barriers ?ci) (int j + 1) (int i) \<or>
      has_local_flag_fence_between (ci_events ?ci) (map fst (ci_events ?ci)) (int j + 1) (int i) (tasks ! j) (tasks ! i)"
    using assms(5,6,9-) map_of_index_core [OF assms(4), of j] unfolding unfenced_producer_def
    by (auto split: if_splits)
  note indexed = fences_agree [of "int j + 1" "int i" tasks]
  from fenced show ?thesis
  proof (elim disjE)
    assume "list_ex (unit_flag_fence (ci_task_by_id ?ci) (ci_index_by_id ?ci) (tasks ! j) (int j) (int i)) hardware"
    then obtain v where "v \<in> set hardware"
      and "unit_flag_fence (ci_task_by_id ?ci) (ci_index_by_id ?ci) (tasks ! j) (int j) (int i) v"
      by (auto simp: list_ex_iff)
    with unit_flag_fenceD [OF assms(4)] hw show ?thesis by blast
  qed (use indexed assms(5,6) in auto)
qed

definition fenced_program :: kernel_program where
  "fenced_program = \<lparr>kp_name = ''k'', kp_platform = ''A2'',
     kp_cores = [\<lparr>cp_core_id = 0, cp_tasks = fenced_tasks\<rparr>], kp_buffers = [], kp_metadata = []\<rparr>"

theorem accepted_programs_are_fenced_witness:
  "has_local_flag_fence (task_slice fenced_tasks (int 0 + 1) (int 3)) (fenced_tasks ! 0) (fenced_tasks ! 3)"
proof -
  have valid: "validate_memory_synchronization fenced_program ''error'' ''memory_dependencies'' = Inr []"
    by code_simp
  have core: "\<lparr>cp_core_id = 0, cp_tasks = fenced_tasks\<rparr> \<in> set (kp_cores fenced_program)"
    by (simp add: fenced_program_def)
  have ids: "distinct (map task_id fenced_tasks)" by code_simp
  have deps: "md_default (fenced_tasks ! 3) ''memory_dependencies'' (PSeq []) = PSeq [PStr ''load'']"
    "py_str (PStr ''load'') = task_id (fenced_tasks ! 0)"
    by code_simp+
  have lanes: "task_lane (fenced_tasks ! 0) = task_lane (fenced_tasks ! 3)"
    "task_pipe (fenced_tasks ! 0) \<noteq> task_pipe (fenced_tasks ! 3)" "3 < length fenced_tasks"
    by code_simp+
  have "py_iter (md_default (fenced_tasks ! 3) ''unit_flag_dependencies'' (PSeq [])) = Inr []"
    "\<not> has_full_barrier (task_slice fenced_tasks (int 0 + 1) (int 3))"
    by code_simp+
  moreover note accepted_programs_are_fenced [OF valid core _ ids _ lanes(3) deps(1) _ deps(2) lanes(1,2)]
  ultimately show ?thesis by simp
qed

end
