(* ===== verification/Sim_Scheduler_Props.thy ===== *)
theory Sim_Scheduler_Props
  imports Sim_Scheduler Sim_Fences
begin

text \<open>
  Properties of the scheduler.  The locale \<open>synchronization\<close> states what the loop relies on from a
  synchronization model; the invariant of the loop is proved once in it and used for both models of
  the simulator through its interpretations.
\<close>

section \<open>FIFO predecessors\<close>

definition latest :: "task list \<Rightarrow> string option" where
  "latest ts = (if ts = [] then None else Some (task_id (last ts)))"

abbreviation on_resource :: "resource_key \<Rightarrow> task list \<Rightarrow> task list" where
  "on_resource r ts \<equiv> filter (\<lambda>t. task_resource t = r) ts"

lemma fifo_fold:
  assumes "foldl fifo_step ([], []) tasks = (prev, preds)" and "distinct (map task_id tasks)"
  shows "map_of prev r = latest (on_resource r tasks)"
    and "j < length tasks \<Longrightarrow>
      map_of preds (task_id (tasks ! j)) = latest (on_resource (task_resource (tasks ! j)) (take j tasks))"
    and "tid \<notin> set (map task_id tasks) \<Longrightarrow> map_of preds tid = None"
  using assms
proof (induction tasks arbitrary: prev preds r j tid rule: rev_induct)
  case Nil
  { case 1 then show ?case by (simp add: latest_def) }
  { case 2 then show ?case by simp }
  { case 3 then show ?case by simp }
next
  case (snoc t tasks)
  obtain prev' preds' where fold: "foldl fifo_step ([], []) tasks = (prev', preds')" by fastforce
  note prev = snoc.IH(1) [OF fold] and preds = snoc.IH(2) [OF _ fold] and fresh = snoc.IH(3) [OF _ fold]
  have step: "prev = dict_set (task_resource t) (task_id t) prev' \<and> preds = (case map_of prev' (task_resource t) of
      None \<Rightarrow> preds' | Some previous \<Rightarrow> dict_set (task_id t) previous preds')"
    if "foldl fifo_step ([], []) (tasks @ [t]) = (prev, preds)" for prev preds
    using that by (simp add: fold) (simp add: fifo_step_def)
  { case 1
    with prev [of r] step [OF 1(1)] show ?case by (simp add: latest_def) }
  { case 2
    note preds_step = step [OF 2(2), THEN conjunct2]
    show ?case
    proof (cases "j < length tasks")
      case True
      then have "tasks ! j \<in> set tasks" by simp
      then have "task_id (tasks ! j) \<noteq> task_id t" using 2(3) by simp (metis image_eqI)
      with True preds [of j] 2 preds_step show ?thesis by (simp add: nth_append split: option.splits)
    next
      case False
      with 2 have "j = length tasks" by simp
      with preds_step prev [of "task_resource t"] fresh [of "task_id t"] 2 show ?thesis
        by (simp add: latest_def split: option.splits if_splits)
    qed }
  { case 3
    with step [OF 3(2)] fresh [of tid] show ?case by (simp split: option.splits) }
qed

lemma map_of_fifo_predecessors:
  assumes "distinct (map task_id tasks)" "j < length tasks"
  shows "map_of (fifo_predecessors tasks) (task_id (tasks ! j)) =
    latest (on_resource (task_resource (tasks ! j)) (take j tasks))"
  using fifo_fold(2) [OF _ assms] by (metis fifo_predecessors_def prod.collapse)

lemma last_filter_take:
  assumes "i < j" "j \<le> length xs" "P (xs ! i)"
  shows "\<exists>k. i \<le> k \<and> k < j \<and> P (xs ! k) \<and> filter P (take j xs) \<noteq> [] \<and> last (filter P (take j xs)) = xs ! k"
  using assms
proof (induction j)
  case (Suc j)
  have split: "filter P (take (Suc j) xs) = filter P (take j xs) @ (if P (xs ! j) then [xs ! j] else [])"
    using Suc.prems by (simp add: take_Suc_conv_app_nth)
  show ?case
  proof (cases "P (xs ! j)")
    case True
    with Suc.prems split show ?thesis by (intro exI [of _ j]) auto
  next
    case False
    with Suc.prems have "i < j" by (metis less_antisym)
    with Suc False split show ?thesis by fastforce
  qed
qed simp

lemma fifo_predecessor_between:
  assumes "distinct (map task_id tasks)" "i < j" "j < length tasks" "task_resource (tasks ! i) = task_resource (tasks ! j)"
  shows "\<exists>k. i \<le> k \<and> k < j \<and> task_resource (tasks ! k) = task_resource (tasks ! j) \<and>
    map_of (fifo_predecessors tasks) (task_id (tasks ! j)) = Some (task_id (tasks ! k))"
  using last_filter_take [of i j tasks "\<lambda>t. task_resource t = task_resource (tasks ! j)"] assms
  by (auto simp: map_of_fifo_predecessors latest_def)

section \<open>The invariant of the loop\<close>

lemma dict_set_fresh: "map_of d k = None \<Longrightarrow> dict_set k v d = d @ [(k, v)]"
  by (induction d) (auto split: if_splits)

text \<open>What the record of a scheduled task satisfies, given what has completed.\<close>

definition ends_before :: "completed \<Rightarrow> string \<Rightarrow> int \<Rightarrow> bool" where
  "ends_before completed tid cycle \<longleftrightarrow> (\<exists>r. map_of completed tid = Some r \<and> er_end_cycle r \<le> cycle)"

definition within_limit :: "int option \<Rightarrow> int \<Rightarrow> bool" where
  "within_limit limit cycle \<longleftrightarrow> (\<forall>n. limit = Some n \<longrightarrow> cycle \<le> n)"

definition scheduled_ok :: "int option \<Rightarrow> (string, string) dict \<Rightarrow> completed \<Rightarrow> task \<Rightarrow> exec_record \<Rightarrow> bool" where
  "scheduled_ok limit fifo completed t r \<longleftrightarrow>
     er_task_id r = task_id t \<and> er_operation r = operation t \<and> er_core_id r = core_id t \<and> er_lane r = task_lane t \<and>
     er_pipe r = task_pipe t \<and> 0 \<le> er_start_cycle r \<and> er_end_cycle r = er_start_cycle r + duration_cycles t \<and>
     er_start_cycle r \<le> er_end_cycle r \<and> within_limit limit (er_end_cycle r) \<and>
     (\<forall>d \<in> set (execution_dependencies t). ends_before completed d (er_start_cycle r)) \<and>
     (\<forall>q. map_of fifo (task_id t) = Some q \<longrightarrow> ends_before completed q (er_start_cycle r))"

definition wait_ok :: "completed \<Rightarrow> exec_record \<Rightarrow> bool" where
  "wait_ok completed w \<longleftrightarrow> er_operation w = ''wait'' \<and> er_category w = ''wait'' \<and> er_stall_reason w \<noteq> None \<and>
     (\<exists>tid r. map_of completed tid = Some r \<and> er_task_id w = tid @ ''#wait'' \<and> er_end_cycle w = er_start_cycle r)"

definition schedule_inv :: "int option \<Rightarrow> (string, string) dict \<Rightarrow> task list \<Rightarrow> 'st schedule_state \<Rightarrow> bool" where
  "schedule_inv limit fifo tasks s \<longleftrightarrow>
     set (sl_pending s) \<subseteq> set (map task_id tasks) \<and> distinct (map fst (sl_completed s)) \<and>
     dom (map_of (sl_completed s)) = set (map task_id tasks) - set (sl_pending s) \<and>
     (\<forall>t \<in> set tasks. \<forall>r. map_of (sl_completed s) (task_id t) = Some r \<longrightarrow>
        scheduled_ok limit fifo (sl_completed s) t r) \<and>
     (\<exists>waits. mset (sl_records s) = mset (map snd (sl_completed s)) + mset waits \<and>
        (\<forall>w \<in> set waits. wait_ok (sl_completed s) w))"

lemma scheduled_okD:
  assumes "scheduled_ok limit fifo completed t r"
  shows "er_task_id r = task_id t" "0 \<le> er_start_cycle r" "er_end_cycle r = er_start_cycle r + duration_cycles t"
    and "er_start_cycle r \<le> er_end_cycle r" "within_limit limit (er_end_cycle r)"
    and "d \<in> set (execution_dependencies t) \<Longrightarrow> ends_before completed d (er_start_cycle r)"
    and "map_of fifo (task_id t) = Some q \<Longrightarrow> ends_before completed q (er_start_cycle r)"
  using assms unfolding scheduled_ok_def by blast+

lemma ends_before_extend:
  "ends_before completed tid c \<Longrightarrow> map_of completed k = None \<Longrightarrow> ends_before (completed @ [(k, r)]) tid c"
  by (auto simp: ends_before_def map_add_def split: option.splits)

lemma scheduled_ok_extend:
  "scheduled_ok limit fifo completed t r \<Longrightarrow> map_of completed k = None \<Longrightarrow>
     scheduled_ok limit fifo (completed @ [(k, r')]) t r"
  by (auto simp: scheduled_ok_def intro: ends_before_extend)

lemma wait_ok_extend: "wait_ok completed w \<Longrightarrow> wait_ok (completed @ [(k, r)]) w"
  by (fastforce simp: wait_ok_def map_add_def split: option.splits)

lemma initial_inv: "schedule_inv limit fifo tasks (initial_state st tasks)"
  by (auto simp: schedule_inv_def initial_state_def intro: exI [of _ "[]"])

text \<open>The part of the invariant a state change other than a commit leaves alone.\<close>

lemma schedule_inv_cong:
  "sl_pending s' = sl_pending s \<Longrightarrow> sl_completed s' = sl_completed s \<Longrightarrow> sl_records s' = sl_records s \<Longrightarrow>
     schedule_inv limit fifo tasks s' = schedule_inv limit fifo tasks s"
  by (simp add: schedule_inv_def)

lemma wait_records_ok:
  assumes "wait_records t d c = Inr waits"
  shows "\<forall>w \<in> set waits. er_operation w = ''wait'' \<and> er_category w = ''wait'' \<and> er_stall_reason w \<noteq> None \<and>
    er_task_id w = task_id t @ ''#wait'' \<and> er_end_cycle w = rc_start c"
  using assms by (auto simp: wait_records_def rc_start_def rc_ready_def Let_def split: if_splits)

lemma rc_start_bounds:
  assumes "\<forall>tid \<in> set deps. is_done completed tid" and "tid \<in> set deps \<or> predecessor = Some tid"
    and "predecessor = Some tid \<Longrightarrow> is_done completed tid"
  shows "ends_before completed tid (rc_start (ready_cycles_of completed deps predecessor d))"
proof -
  let ?c = "ready_cycles_of completed deps predecessor d"
  have "is_done completed tid" using assms by blast
  then obtain r where r: "map_of completed tid = Some r" by (auto simp: is_done_def)
  then have end_of: "end_of completed tid = er_end_cycle r" by (simp add: end_of_def)
  have "end_of completed tid \<le> rc_dependency ?c" if "tid \<in> set deps"
    using that max_default0_ge [of "end_of completed tid" "map (end_of completed) deps"]
    by (simp add: ready_cycles_of_def)
  moreover have "end_of completed tid \<le> rc_resource ?c" if "predecessor = Some tid"
    using that by (simp add: ready_cycles_of_def)
  ultimately show ?thesis
    using assms(2) r end_of by (fastforce simp: ends_before_def rc_start_def rc_ready_def)
qed

text \<open>What a successful commit does to the state.\<close>

lemma commit_task_InrE:
  assumes "commit_task m limit deps predecessor d s t = Inr s'"
  obtains waits r st c where "c = ready_cycles_of (sl_completed s) deps predecessor d"
    and "wait_records t d c = Inr waits" and "within_limit limit (er_end_cycle r)"
    and "record_wf r" "er_task_id r = task_id t" "er_operation r = operation t" "er_core_id r = core_id t" "er_lane r = task_lane t"
    and "er_pipe r = task_pipe t" "er_start_cycle r = rc_start c" "er_end_cycle r = rc_start c + duration_cycles t"
    and "sm_on_scheduled m (sl_sync s) t r = Inr st"
    and "s' = s\<lparr>sl_completed := dict_set (task_id t) r (sl_completed s), sl_records := sl_records s @ waits @ [r],
           sl_pending := filter (\<lambda>tid. tid \<noteq> task_id t) (sl_pending s), sl_sync := st, sl_made_progress := True\<rparr>"
proof -
  let ?c = "ready_cycles_of (sl_completed s) deps predecessor d"
  let ?md = "trace_metadata (sl_completed s) deps predecessor d ?c"
  obtain waits r st where w: "wait_records t d ?c = Inr waits"
    and l: "limit_exceeded limit t (rc_start ?c + duration_cycles t) = Inr ()"
    and r: "from_task t (rc_start ?c) (rc_start ?c + duration_cycles t) ''operation'' None ?md = Inr r"
    and st: "sm_on_scheduled m (sl_sync s) t r = Inr st"
    and s': "s' = s\<lparr>sl_completed := dict_set (task_id t) r (sl_completed s), sl_records := sl_records s @ waits @ [r],
           sl_pending := filter (\<lambda>tid. tid \<noteq> task_id t) (sl_pending s), sl_sync := st, sl_made_progress := True\<rparr>"
    using assms by (auto simp: commit_task_def Let_def)
  note facts = from_task_InrD [OF r]
  have "within_limit limit (er_end_cycle r)"
    using l facts by (auto simp: limit_exceeded_def within_limit_def split: if_splits)
  with that [OF refl w _ _ _ _ _ _ _ _ _ st s'] facts show ?thesis by blast
qed

lemma commit_task_inv:
  assumes commit: "commit_task m limit deps (map_of fifo (task_id t)) d s t = Inr s'"
    and inv: "schedule_inv limit fifo tasks s" and t: "t \<in> set tasks" "task_id t \<in> set (sl_pending s)"
    and ids: "distinct (map task_id tasks)" and deps: "set deps = set (execution_dependencies t)"
    and ready: "\<forall>tid \<in> set deps. is_done (sl_completed s) tid"
      "\<forall>q. map_of fifo (task_id t) = Some q \<longrightarrow> is_done (sl_completed s) q"
  shows "schedule_inv limit fifo tasks s'"
proof -
  let ?old = "sl_completed s"
  from commit obtain waits r st c where c: "c = ready_cycles_of ?old deps (map_of fifo (task_id t)) d"
    and w: "wait_records t d c = Inr waits"
    and rec: "within_limit limit (er_end_cycle r)" "record_wf r" "er_task_id r = task_id t" "er_operation r = operation t"
      "er_core_id r = core_id t" "er_lane r = task_lane t" "er_pipe r = task_pipe t" "er_start_cycle r = rc_start c"
      "er_end_cycle r = rc_start c + duration_cycles t"
    and s': "s' = s\<lparr>sl_completed := dict_set (task_id t) r ?old, sl_records := sl_records s @ waits @ [r],
           sl_pending := filter (\<lambda>tid. tid \<noteq> task_id t) (sl_pending s), sl_sync := st, sl_made_progress := True\<rparr>"
    by (rule commit_task_InrE)
  have fresh: "map_of ?old (task_id t) = None" using inv t unfolding schedule_inv_def by blast
  let ?new = "?old @ [(task_id t, r)]"
  have new: "dict_set (task_id t) r ?old = ?new" using fresh by (rule dict_set_fresh)
  have start: "ends_before ?old tid (rc_start c)"
    if "tid \<in> set deps \<or> map_of fifo (task_id t) = Some tid" for tid
    unfolding c using that ready by (intro rc_start_bounds) auto
  then have this_ok: "scheduled_ok limit fifo ?new t r"
    using rec deps fresh by (auto simp: scheduled_ok_def record_wf_def intro!: ends_before_extend)
  have sched: "scheduled_ok limit fifo ?new u q" if "u \<in> set tasks" "map_of ?new (task_id u) = Some q" for u q
  proof (cases "task_id u = task_id t")
    case True
    then have "u = t" using that(1) t(1) ids by (metis distinct_map inj_onD)
    with that(2) fresh this_ok show ?thesis by (simp add: map_add_def)
  next
    case False
    with that have "map_of ?old (task_id u) = Some q" by (simp add: map_add_def split: option.splits)
    with inv that(1) fresh show ?thesis by (auto simp: schedule_inv_def intro: scheduled_ok_extend)
  qed
  obtain ws where ws: "mset (sl_records s) = mset (map snd ?old) + mset ws" "\<forall>v \<in> set ws. wait_ok ?old v"
    using inv by (auto simp: schedule_inv_def)
  have records: "mset (sl_records s @ waits @ [r]) = mset (map snd ?new) + mset (ws @ waits)" using ws(1) by simp
  have waits_ok: "\<forall>v \<in> set (ws @ waits). wait_ok ?new v"
    using ws(2) wait_records_ok [OF w] rec(8) fresh by (auto intro: wait_ok_extend simp: wait_ok_def map_add_def)
  have pending: "set (sl_pending s) \<subseteq> set (map task_id tasks)"
    "dom (map_of ?old) = set (map task_id tasks) - set (sl_pending s)" "distinct (map fst ?old)"
    using inv by (simp_all add: schedule_inv_def)
  have domain: "dom (map_of ?new) = set (map task_id tasks) - set (sl_pending s')"
    using pending(2) t by (auto simp: s')
  have "distinct (map fst ?new)" using pending(3) fresh by (simp add: map_of_eq_None_iff)
  then show ?thesis
    unfolding schedule_inv_def using pending(1) domain sched records waits_ok by (auto simp: s' new intro: exI [of _ "ws @ waits"] simp del: mset_append mset_map)
qed

text \<open>The two ways a visit to a pending task ends without raising.\<close>

lemma schedule_task_cases:
  assumes "schedule_task m limit fifo s t = Inr s'"
  obtains (skip) "task_id t \<notin> set (sl_pending s)" "s' = s"
  | (wait) missing where "task_id t \<in> set (sl_pending s)" "missing \<noteq> []"
      "set missing = {tid \<in> set (execution_dependencies t @ opt_list (map_of fifo (task_id t))). \<not> is_done (sl_completed s) tid}"
      "s' = block_task (task_id t) (waiting_for missing) s"
  | (hold) st d where "task_id t \<in> set (sl_pending s)"
      "sm_evaluate m (sl_sync s) t (sl_completed s) = Inr (st, d)" "blocked d"
      "s' = block_task (task_id t) (blocked_by d) (s\<lparr>sl_sync := st\<rparr>)"
  | (commit) st d where "task_id t \<in> set (sl_pending s)"
      "\<forall>tid \<in> set (execution_dependencies t). is_done (sl_completed s) tid"
      "\<forall>q. map_of fifo (task_id t) = Some q \<longrightarrow> is_done (sl_completed s) q"
      "sm_evaluate m (sl_sync s) t (sl_completed s) = Inr (st, d)" "\<not> blocked d"
      "commit_task m limit (fromkeys (execution_dependencies t)) (map_of fifo (task_id t)) d (s\<lparr>sl_sync := st\<rparr>) t = Inr s'"
proof (cases "task_id t \<in> set (sl_pending s)")
  case False
  moreover have "s' = s" using assms False by (simp add: schedule_task_def)
  ultimately show ?thesis by (rule skip)
next
  case True
  let ?required = "fromkeys (fromkeys (execution_dependencies t) @ opt_list (map_of fifo (task_id t)))"
  let ?missing = "sort (filter (\<lambda>tid. \<not> is_done (sl_completed s) tid) ?required)"
  show ?thesis
  proof (cases "?missing = []")
    case False
    have "set ?missing = {tid \<in> set (execution_dependencies t @ opt_list (map_of fifo (task_id t))). \<not> is_done (sl_completed s) tid}"
      by simp
    moreover have "s' = block_task (task_id t) (waiting_for ?missing) s"
      using assms True False unfolding schedule_task_def Let_def by (simp only: if_True if_False not_True_eq_False not_False_eq_True sum.inject)
    ultimately show ?thesis using wait [OF True False] by blast
  next
    case no_missing: True
    then have "\<forall>tid \<in> set ?required. is_done (sl_completed s) tid"
      by (metis (no_types, lifting) filter_empty_conv set_empty2 set_sort)
    then have ready: "\<forall>tid \<in> set (execution_dependencies t). is_done (sl_completed s) tid"
      "\<forall>q. map_of fifo (task_id t) = Some q \<longrightarrow> is_done (sl_completed s) q"
      by (auto simp: opt_list_def)
    from assms True no_missing obtain st d where e: "sm_evaluate m (sl_sync s) t (sl_completed s) = Inr (st, d)"
      and rest: "(if blocked d then Inr (block_task (task_id t) (blocked_by d) (s\<lparr>sl_sync := st\<rparr>))
        else commit_task m limit (fromkeys (execution_dependencies t)) (map_of fifo (task_id t)) d (s\<lparr>sl_sync := st\<rparr>) t) = Inr s'"
      by (auto simp: schedule_task_def Let_def split: prod.splits)
    show ?thesis
    proof (cases "blocked d")
      case True
      with hold [OF \<open>task_id t \<in> set (sl_pending s)\<close> e] rest show ?thesis by simp
    next
      case False
      with commit [OF \<open>task_id t \<in> set (sl_pending s)\<close> ready e] rest show ?thesis by simp
    qed
  qed
qed

lemma schedule_task_inv:
  assumes "schedule_task m limit fifo s t = Inr s'" and "schedule_inv limit fifo tasks s" and "t \<in> set tasks"
    and "distinct (map task_id tasks)"
  shows "schedule_inv limit fifo tasks s'"
  using assms(1)
proof (cases rule: schedule_task_cases)
  case (commit st d)
  have "schedule_inv limit fifo tasks (s\<lparr>sl_sync := st\<rparr>)"
    using assms(2) schedule_inv_cong [of "s\<lparr>sl_sync := st\<rparr>" s] by simp
  then show ?thesis using commit assms(3,4) by (intro commit_task_inv [OF commit(6)]) auto
qed (use assms(2) in \<open>simp_all add: schedule_inv_def block_task_def\<close>)

lemma schedule_pass_inv:
  assumes "schedule_pass m limit fifo tasks s = Inr s'" and "schedule_inv limit fifo tasks s"
    and "distinct (map task_id tasks)"
  shows "schedule_inv limit fifo tasks s'"
proof -
  have "schedule_inv limit fifo tasks (s\<lparr>sl_made_progress := False, sl_blocked := []\<rparr>)"
    using assms(2) by (simp add: schedule_inv_def)
  with for_each_invariant [OF assms(1) [unfolded schedule_pass_def], where P = "schedule_inv limit fifo tasks"]
  show ?thesis using schedule_task_inv assms(3) by blast
qed

text \<open>The rule for facts about a loop that returns: an invariant of a pass holds at the end.\<close>

lemma run_loop_invariant:
  fixes P :: "'st schedule_state \<Rightarrow> bool"
  assumes "run_loop m config timed_out fifo tasks k s = Some (Inr s')" and "P s"
    and "\<And>u v. P u \<Longrightarrow> schedule_pass m (sc_max_cycles config) fifo tasks u = Inr v \<Longrightarrow> P v"
  shows "P s' \<and> sl_pending s' = []"
proof -
  define Q where "Q = (\<lambda>m' config' (timed_out' :: nat \<Rightarrow> bool) fifo' tasks' (k' :: nat) s (r :: 'st schedule_state res).
    m' = m \<longrightarrow> config' = config \<longrightarrow> fifo' = fifo \<longrightarrow> tasks' = tasks \<longrightarrow> P s \<longrightarrow>
      (\<forall>s'. r = Inr s' \<longrightarrow> P s' \<and> sl_pending s' = []))"
  have "Q m config timed_out fifo tasks k s (Inr s')"
  proof (rule run_loop.raw_induct [OF _ assms(1)])
    fix run_loop' m' config' timed_out' fifo' tasks' k' and s :: "'st schedule_state" and r :: "'st schedule_state res"
    assume IH: "\<And>m' config' timed_out' fifo' tasks' k' s r.
        run_loop' m' config' timed_out' fifo' tasks' k' s = Some r \<Longrightarrow> Q m' config' timed_out' fifo' tasks' k' s r"
      and eq: "(if sl_pending s = [] then Some (Inr s)
        else if timed_out' k' then Some (Inl (SimulationLimitError (timeout_message s)))
        else case schedule_pass m' (sc_max_cycles config') fifo' tasks' s of Inl e \<Rightarrow> Some (Inl e)
          | Inr s' \<Rightarrow> if sl_made_progress s' \<or> \<not> sc_deadlock_detect config'
              then run_loop' m' config' timed_out' fifo' tasks' (Suc k') s'
              else Some (Inl (SimulationDeadlockError
                (deadlock_message m' (sc_deadlock_history_limit config') fifo' tasks' s')))) = Some r"
    show "Q m' config' timed_out' fifo' tasks' k' s r"
      unfolding Q_def
    proof (intro impI allI)
      fix s'
      assume same: "m' = m" "config' = config" "fifo' = fifo" "tasks' = tasks" and "P s" and r: "r = Inr s'"
      show "P s' \<and> sl_pending s' = []"
      proof (cases "sl_pending s = []")
        case True
        with eq r \<open>P s\<close> show ?thesis by simp
      next
        case False
        with eq r obtain v where v: "schedule_pass m' (sc_max_cycles config') fifo' tasks' s = Inr v"
          and rec: "run_loop' m' config' timed_out' fifo' tasks' (Suc k') v = Some (Inr s')"
          by (auto split: if_splits sum.splits)
        from v same \<open>P s\<close> assms(3) have "P v" by blast
        with IH [OF rec] same show ?thesis unfolding Q_def by blast
      qed
    qed
  qed
  then show ?thesis using assms(2) by (simp add: Q_def)
qed

section \<open>What a returned schedule satisfies\<close>

definition record_at :: "completed \<Rightarrow> string \<Rightarrow> exec_record" where
  "record_at completed tid = the (map_of completed tid)"

lemma map_snd_at: "distinct (map fst d) \<Longrightarrow> map snd d = map (record_at d) (map fst d)"
proof -
  assume "distinct (map fst d)"
  then have "map snd d = map (record_at d \<circ> fst) d"
    by (intro map_cong) (auto simp: record_at_def)
  then show ?thesis by simp
qed

lemma finished_records:
  assumes "schedule_inv limit fifo tasks s" "sl_pending s = []" "distinct (map task_id tasks)"
  obtains waits where "mset (sl_records s) = mset (map (record_at (sl_completed s) \<circ> task_id) tasks) + mset waits"
    and "\<forall>w \<in> set waits. wait_ok (sl_completed s) w"
    and "\<forall>t \<in> set tasks. scheduled_ok limit fifo (sl_completed s) t (record_at (sl_completed s) (task_id t))"
    and "dom (map_of (sl_completed s)) = set (map task_id tasks)"
proof -
  let ?c = "sl_completed s"
  have c: "distinct (map fst ?c)" "dom (map_of ?c) = set (map task_id tasks)"
    using assms by (auto simp: schedule_inv_def)
  have "set (map fst ?c) = set (map task_id tasks)" using c(2) by (simp add: dom_map_of_conv_image_fst)
  then have "mset (map fst ?c) = mset (map task_id tasks)"
    using c(1) assms(3) by (metis set_eq_iff_mset_eq_distinct)
  then have "mset (map snd ?c) = mset (map (record_at ?c \<circ> task_id) tasks)"
    using map_snd_at [OF c(1)] by (metis list.map_comp mset_map)
  moreover obtain waits where "mset (sl_records s) = mset (map snd ?c) + mset waits" "\<forall>w \<in> set waits. wait_ok ?c w"
    using assms(1) by (auto simp: schedule_inv_def)
  moreover have "scheduled_ok limit fifo ?c t (record_at ?c (task_id t))" if "t \<in> set tasks" for t
  proof -
    have "task_id t \<in> dom (map_of ?c)" using c(2) that by simp
    then obtain r where r: "map_of ?c (task_id t) = Some r" by blast
    with that assms(1) have "scheduled_ok limit fifo ?c t r" unfolding schedule_inv_def by blast
    with r show ?thesis by (simp add: record_at_def)
  qed
  ultimately show ?thesis using that c(2) by metis
qed

lemma ends_before_at: "ends_before completed tid c \<Longrightarrow> er_end_cycle (record_at completed tid) \<le> c"
  by (auto simp: ends_before_def record_at_def)

lemma fifo_order:
  assumes "distinct (map task_id tasks)" "\<forall>t \<in> set tasks. scheduled_ok limit (fifo_predecessors tasks) c t (record_at c (task_id t))"
    and "i < j" "j < length tasks" "task_resource (tasks ! i) = task_resource (tasks ! j)"
  shows "er_end_cycle (record_at c (task_id (tasks ! i))) \<le> er_start_cycle (record_at c (task_id (tasks ! j)))"
  using assms(3-)
proof (induction j arbitrary: i rule: less_induct)
  case (less j)
  obtain k where k: "i \<le> k" "k < j" "task_resource (tasks ! k) = task_resource (tasks ! j)"
    "map_of (fifo_predecessors tasks) (task_id (tasks ! j)) = Some (task_id (tasks ! k))"
    using fifo_predecessor_between [OF assms(1) less.prems] by blast
  have "tasks ! j \<in> set tasks" "tasks ! k \<in> set tasks" using less.prems k by simp_all
  then have j: "er_end_cycle (record_at c (task_id (tasks ! k))) \<le> er_start_cycle (record_at c (task_id (tasks ! j)))"
    and kk: "er_start_cycle (record_at c (task_id (tasks ! k))) \<le> er_end_cycle (record_at c (task_id (tasks ! k)))"
    using assms(2) k(4) scheduled_okD(4,7) ends_before_at by blast+
  show ?case
  proof (cases "i = k")
    case False
    with less.IH [of k i] k less.prems have "er_end_cycle (record_at c (task_id (tasks ! i))) \<le> er_start_cycle (record_at c (task_id (tasks ! k)))"
      by simp
    with j kk show ?thesis by linarith
  qed (use j in simp)
qed

lemma run_Inr:
  assumes "run m default_a2 given timed_out p bindings = Some (Inr (res, warning))"
  obtains config st s where "sm_reset m p = Inr st" "\<And>c. given = Some c \<Longrightarrow> config = c"
    and "run_loop m config timed_out (fifo_predecessors (program_tasks p)) (program_tasks p) 0
           (initial_state st (program_tasks p)) = Some (Inr s)"
    and "sr_records res = sort_key record_order (sl_records s)"
    and "from_records (sr_records res) bindings [] [] = Inr (sr_stats res)"
    and "run_audit m config (sl_sync s) = Inr warning"
  using assms by (auto simp: run_def Let_def finish_run_def split: sum.splits option.splits prod.splits)

text \<open>
  C2: A schedule that \<open>run\<close> returns, under any synchronization model, holds exactly one record per
  task of the program plus wait records, sorted by start, end and identifier.  Each task occupies
  its duration from a non-negative cycle on, starts after every execution dependency has ended and
  after every earlier task of its core, lane and pipe has ended, and ends within \<open>max_cycles\<close>; each
  wait record ends where the task it belongs to starts.
\<close>

theorem schedule_respects_order:
  assumes "run m default_a2 given timed_out p bindings = Some (Inr (res, warning))"
    and "distinct (map task_id (program_tasks p))"
  shows "\<exists>place waits. mset (sr_records res) = mset (map (place \<circ> task_id) (program_tasks p)) + mset waits \<and>
    sorted (map record_order (sr_records res)) \<and>
    (\<forall>t \<in> set (program_tasks p). er_task_id (place (task_id t)) = task_id t \<and> 0 \<le> er_start_cycle (place (task_id t)) \<and>
       er_end_cycle (place (task_id t)) = er_start_cycle (place (task_id t)) + duration_cycles t \<and>
       (\<forall>d \<in> set (execution_dependencies t). er_end_cycle (place d) \<le> er_start_cycle (place (task_id t))) \<and>
       (\<forall>c n. given = Some c \<longrightarrow> sc_max_cycles c = Some n \<longrightarrow> er_end_cycle (place (task_id t)) \<le> n)) \<and>
    (\<forall>i j. i < j \<longrightarrow> j < length (program_tasks p) \<longrightarrow>
       task_resource (program_tasks p ! i) = task_resource (program_tasks p ! j) \<longrightarrow>
       er_end_cycle (place (task_id (program_tasks p ! i))) \<le> er_start_cycle (place (task_id (program_tasks p ! j)))) \<and>
    (\<forall>w \<in> set waits. er_operation w = ''wait'' \<and> (\<exists>t \<in> set (program_tasks p).
       er_task_id w = task_id t @ ''#wait'' \<and> er_end_cycle w = er_start_cycle (place (task_id t))))"
proof -
  let ?tasks = "program_tasks p" and ?fifo = "fifo_predecessors (program_tasks p)"
  from assms(1) obtain config st s where given: "\<And>c. given = Some c \<Longrightarrow> config = c"
    and loop: "run_loop m config timed_out ?fifo ?tasks 0 (initial_state st ?tasks) = Some (Inr s)"
    and recs: "sr_records res = sort_key record_order (sl_records s)"
    by (rule run_Inr) blast
  have "schedule_inv (sc_max_cycles config) ?fifo ?tasks s \<and> sl_pending s = []"
    using loop initial_inv schedule_pass_inv [OF _ _ assms(2)] by (rule run_loop_invariant)
  then obtain waits where mset: "mset (sl_records s) = mset (map (record_at (sl_completed s) \<circ> task_id) ?tasks) + mset waits"
    and waits: "\<forall>w \<in> set waits. wait_ok (sl_completed s) w"
    and ok: "\<forall>t \<in> set ?tasks. scheduled_ok (sc_max_cycles config) ?fifo (sl_completed s) t (record_at (sl_completed s) (task_id t))"
    and dom: "dom (map_of (sl_completed s)) = set (map task_id ?tasks)"
    using finished_records assms(2) by metis
  have "\<forall>w \<in> set waits. er_operation w = ''wait'' \<and> (\<exists>t \<in> set ?tasks.
       er_task_id w = task_id t @ ''#wait'' \<and> er_end_cycle w = er_start_cycle (record_at (sl_completed s) (task_id t)))"
  proof
    fix w
    assume "w \<in> set waits"
    with waits obtain tid r where w: "er_operation w = ''wait''" "map_of (sl_completed s) tid = Some r"
      "er_task_id w = tid @ ''#wait''" "er_end_cycle w = er_start_cycle r"
      unfolding wait_ok_def by blast
    then have "tid \<in> set (map task_id ?tasks)" using dom by blast
    then obtain t where "t \<in> set ?tasks" "tid = task_id t" by auto
    with w show "er_operation w = ''wait'' \<and> (\<exists>t \<in> set ?tasks.
       er_task_id w = task_id t @ ''#wait'' \<and> er_end_cycle w = er_start_cycle (record_at (sl_completed s) (task_id t)))"
      by (auto simp: record_at_def)
  qed
  moreover have "er_task_id (record_at (sl_completed s) (task_id t)) = task_id t \<and>
      0 \<le> er_start_cycle (record_at (sl_completed s) (task_id t)) \<and>
      er_end_cycle (record_at (sl_completed s) (task_id t)) = er_start_cycle (record_at (sl_completed s) (task_id t)) + duration_cycles t \<and>
      (\<forall>d \<in> set (execution_dependencies t). er_end_cycle (record_at (sl_completed s) d) \<le> er_start_cycle (record_at (sl_completed s) (task_id t))) \<and>
      (\<forall>c n. given = Some c \<longrightarrow> sc_max_cycles c = Some n \<longrightarrow> er_end_cycle (record_at (sl_completed s) (task_id t)) \<le> n)"
    if "t \<in> set ?tasks" for t
    using scheduled_okD [OF ok [rule_format, OF that]] ends_before_at given unfolding within_limit_def by blast
  moreover have "mset (sr_records res) = mset (map (record_at (sl_completed s) \<circ> task_id) ?tasks) + mset waits"
    "sorted (map record_order (sr_records res))"
    using mset recs by simp_all
  ultimately show ?thesis using fifo_order [OF assms(2) ok]
    by (intro exI [of _ "record_at (sl_completed s)"] exI [of _ waits] conjI) blast+
qed

section \<open>Termination\<close>

lemma commit_task_pending:
  assumes "commit_task m limit deps predecessor d s t = Inr s'" "task_id t \<in> set (sl_pending s)"
  shows "length (sl_pending s') < length (sl_pending s)" "sl_made_progress s'"
  using assms by (auto elim!: commit_task_InrE intro: length_filter_less)

lemma schedule_task_pending:
  assumes "schedule_task m limit fifo s t = Inr s'"
  shows "length (sl_pending s') \<le> length (sl_pending s)"
    and "sl_made_progress s' \<Longrightarrow> sl_made_progress s \<or> length (sl_pending s') < length (sl_pending s)"
  using assms by (cases rule: schedule_task_cases; fastforce simp: block_task_def dest: commit_task_pending(1))+

lemma schedule_pass_pending:
  assumes "schedule_pass m limit fifo tasks s = Inr s'" "sl_made_progress s'"
  shows "length (sl_pending s') < length (sl_pending s)"
proof -
  let ?P = "\<lambda>u. length (sl_pending u) \<le> length (sl_pending s) \<and>
    (sl_made_progress u \<longrightarrow> length (sl_pending u) < length (sl_pending s))"
  have "?P s'"
    using assms(1) [unfolded schedule_pass_def]
  proof (rule for_each_invariant [where P = ?P])
    fix u t v
    assume "?P u" "schedule_task m limit fifo u t = Inr v"
    then show "?P v" using schedule_task_pending [of m limit fifo u t v] by linarith
  qed simp
  with assms(2) show ?thesis by simp
qed

lemma run_loop_returns:
  assumes "sc_deadlock_detect config"
  shows "\<exists>r. run_loop m config timed_out fifo tasks k s = Some r"
proof (induction "length (sl_pending s)" arbitrary: s k rule: less_induct)
  case less
  show ?case
  proof (cases "schedule_pass m (sc_max_cycles config) fifo tasks s")
    case (Inl e)
    then show ?thesis by (subst run_loop.simps) simp
  next
    case (Inr s')
    show ?thesis
    proof (cases "sl_made_progress s'")
      case True
      with less schedule_pass_pending [OF Inr] show ?thesis
        by (subst run_loop.simps) (auto simp: Inr)
    next
      case False
      with Inr assms show ?thesis by (subst run_loop.simps) simp
    qed
  qed
qed

text \<open>
  C4: With deadlock detection on, \<open>run\<close> always returns, with a schedule or an exception, whatever
  the program, the synchronization model and the clock do.
\<close>

theorem run_terminates:
  assumes "sc_deadlock_detect config"
  shows "\<exists>r. run m default_a2 (Some config) timed_out p bindings = Some r"
proof -
  have "\<exists>r. run_loop m config timed_out (fifo_predecessors (program_tasks p)) (program_tasks p) 0
      (initial_state st (program_tasks p)) = Some r" for st
    by (rule run_loop_returns [OF assms])
  then obtain r where r: "run_loop m config timed_out (fifo_predecessors (program_tasks p)) (program_tasks p) 0
      (initial_state st (program_tasks p)) = Some (r st)" for st
    by metis
  show ?thesis by (simp add: run_def Let_def r split: sum.split prod.split)
qed

section \<open>The wait-for cycle\<close>

lemma successively_trancl:
  "successively (\<lambda>x y. (x, y) \<in> r) xs \<Longrightarrow> 2 \<le> length xs \<Longrightarrow> (hd xs, last xs) \<in> r\<^sup>+"
proof (induction xs rule: rev_induct)
  case (snoc x xs)
  show ?case
  proof (cases "2 \<le> length xs")
    case True
    with snoc have "(hd xs, last xs) \<in> r\<^sup>+" "(last xs, x) \<in> r"
      by (auto simp: successively_append_iff)
    with True show ?thesis by (cases xs) (auto intro: trancl_into_trancl)
  next
    case False
    with snoc.prems obtain y where "xs = [y]" by (cases xs rule: rev_cases) (auto simp: Suc_le_eq)
    with snoc.prems show ?thesis by auto
  qed
qed simp

lemma in_set_opt_list [simp]: "x \<in> set (opt_list v) \<longleftrightarrow> v = Some x"
  by (auto simp: opt_list_def split: option.splits)

lemma dep_rel_dict_get: "(t, d) \<in> dep_rel edges \<longleftrightarrow> d \<in> set (dict_get edges t [])"
  by (cases "map_of edges t") (auto simp: dep_rel_def dict_get_def)

lemma visit_wait_sound:
  assumes "visit_wait edges visiting visited ts = (c, v)" "c \<noteq> []"
    and "successively (\<lambda>x y. (x, y) \<in> dep_rel edges) visiting"
    and "visiting \<noteq> [] \<longrightarrow> (\<forall>t \<in> set ts. (last visiting, t) \<in> dep_rel edges)"
  shows "successively (\<lambda>x y. (x, y) \<in> dep_rel edges) c \<and> hd c = last c \<and> 2 \<le> length c"
  using assms
proof (induction edges visiting visited ts arbitrary: c v rule: visit_wait.induct)
  case (1 edges visiting visited)
  then show ?case by simp
next
  case (2 edges visiting visited t ts)
  consider (cycle) "t \<in> set visiting" | (old) "t \<notin> set visiting" "t \<in> visited"
    | (new) "t \<notin> set visiting" "t \<notin> visited" by blast
  then show ?case
  proof cases
    case cycle
    let ?tail = "dropWhile (\<lambda>x. x \<noteq> t) visiting"
    from cycle have tail: "?tail \<noteq> []" by (auto simp: dropWhile_eq_Nil_conv)
    then have "hd ?tail = t" using hd_dropWhile [of "\<lambda>x. x \<noteq> t" visiting] by blast
    moreover have "successively (\<lambda>x y. (x, y) \<in> dep_rel edges) ?tail" "last ?tail = last visiting"
      using "2.prems"(3) tail successively_append_iff [of _ "takeWhile (\<lambda>x. x \<noteq> t) visiting" ?tail]
      by (simp_all, metis last_appendR takeWhile_dropWhile_id)
    moreover have "(last visiting, t) \<in> dep_rel edges" using cycle "2.prems"(4) by auto
    ultimately have "successively (\<lambda>x y. (x, y) \<in> dep_rel edges) (?tail @ [t])" "hd (?tail @ [t]) = t"
      using tail by (auto simp: successively_append_iff)
    moreover have "c = ?tail @ [t]" using cycle "2.prems"(1) by simp
    moreover have "2 \<le> length (?tail @ [t])" using tail by (cases ?tail) auto
    ultimately show ?thesis by simp
  next
    case old
    with 2 show ?thesis by auto
  next
    case new
    obtain c' v' where inner: "visit_wait edges (visiting @ [t]) visited (dict_get edges t []) = (c', v')"
      by fastforce
    show ?thesis
    proof (cases "c' = []")
      case False
      with "2.prems" new inner have "c = c'" by simp
      with "2.IH"(2) [OF new inner False] "2.prems" show ?thesis
        by (auto simp: successively_append_iff dep_rel_dict_get)
    next
      case True
      with "2.prems" new inner "2.IH"(3) [OF new inner [symmetric]] show ?thesis by simp
    qed
  qed
qed

lemma visit_wait_complete:
  assumes "visit_wait edges visiting visited ts = ([], v)" "search_ok (dep_rel edges) (set visiting) visited"
  shows "search_ok (dep_rel edges) (set visiting) v \<and> visited \<union> set ts \<subseteq> v"
  using assms
proof (induction edges visiting visited ts arbitrary: v rule: visit_wait.induct)
  case (1 edges visiting visited)
  then show ?case by auto
next
  case (2 edges visiting visited t ts)
  show ?case
  proof (cases "t \<in> visited")
    case True
    with 2 show ?thesis by (auto split: if_splits)
  next
    case False
    with "2.prems"(1) have new: "t \<notin> set visiting" "t \<notin> visited" by (auto split: if_splits)
    with "2.prems"(1) obtain v' where inner: "visit_wait edges (visiting @ [t]) visited (dict_get edges t []) = ([], v')"
      and rest: "visit_wait edges visiting (insert t v') ts = ([], v)"
      by (auto split: if_splits prod.splits)
    have "search_ok (dep_rel edges) (set (visiting @ [t])) visited"
      using "2.prems"(2) new by (auto simp: search_ok_def)
    with "2.IH"(2) [OF new inner] have v': "search_ok (dep_rel edges) (insert t (set visiting)) v'"
      and sub: "visited \<union> set (dict_get edges t []) \<subseteq> v'"
      by simp_all
    have "search_ok (dep_rel edges) (set visiting) (insert t v')"
      using v' sub new by (intro search_ok_close) (auto simp: dep_rel_dict_get)
    with "2.IH"(3) [OF new inner [symmetric] _ rest] sub show ?thesis by auto
  qed
qed

text \<open>The edges a blocked schedule waits on: required tasks that have not completed.\<close>

definition waits_for :: "(string, string) dict \<Rightarrow> 'st schedule_state \<Rightarrow> task list \<Rightarrow> (string \<times> string) set" where
  "waits_for fifo s tasks = {(task_id t, d) | t d. t \<in> set tasks \<and> task_id t \<in> set (sl_pending s) \<and>
     (d \<in> set (execution_dependencies t) \<or> map_of fifo (task_id t) = Some d) \<and> \<not> is_done (sl_completed s) d}"

lemma dep_rel_wait_edges:
  assumes "distinct (map task_id tasks)"
  shows "dep_rel (wait_edges fifo s tasks) = waits_for fifo s tasks"
proof -
  let ?edges = "wait_edges fifo s tasks"
  have "map fst ?edges = map task_id (filter (\<lambda>t. task_id t \<in> set (sl_pending s)) tasks)"
    by (simp add: wait_edges_def comp_def)
  then have "distinct (map fst ?edges)" using assms by (metis distinct_map_filter)
  then have "dep_rel ?edges = {(t, d). \<exists>ds. (t, ds) \<in> set ?edges \<and> d \<in> set ds}"
    by (auto simp: dep_rel_def dest: map_of_SomeD)
  then show ?thesis by (auto simp: waits_for_def wait_edges_def)
qed

text \<open>
  C5: The cycle a deadlock report names is real and is found whenever there is one: \<open>_wait_cycle\<close>
  returns an empty tuple exactly when no pending task waits, through uncompleted dependencies and
  FIFO predecessors, for itself; otherwise it returns a closed walk in which every task waits for
  the next one.
\<close>

theorem wait_cycle_decides:
  assumes "distinct (map task_id tasks)"
  shows "(wait_cycle fifo s tasks = [] \<longleftrightarrow> acyclic (waits_for fifo s tasks)) \<and>
    (wait_cycle fifo s tasks \<noteq> [] \<longrightarrow>
       successively (\<lambda>x y. (x, y) \<in> waits_for fifo s tasks) (wait_cycle fifo s tasks) \<and>
       hd (wait_cycle fifo s tasks) = last (wait_cycle fifo s tasks) \<and> 2 \<le> length (wait_cycle fifo s tasks))"
proof -
  let ?edges = "wait_edges fifo s tasks" and ?r = "waits_for fifo s tasks"
  obtain c v where visit: "visit_wait ?edges [] {} (sort (sl_pending s)) = (c, v)" by fastforce
  then have c: "wait_cycle fifo s tasks = c" by (simp add: wait_cycle_def)
  have r: "dep_rel ?edges = ?r" using assms by (rule dep_rel_wait_edges)
  have sound: "successively (\<lambda>x y. (x, y) \<in> ?r) c \<and> hd c = last c \<and> 2 \<le> length c" if "c \<noteq> []"
    using visit_wait_sound [OF visit that] by (simp add: r)
  then have "c \<noteq> [] \<Longrightarrow> \<not> acyclic ?r"
    using successively_trancl [of ?r c] by (metis acyclic_def)
  moreover have "acyclic ?r" if "c = []"
  proof -
    have ok: "search_ok ?r {} v" and all: "set (sl_pending s) \<subseteq> v"
      using visit_wait_complete [OF visit [unfolded that]] by (auto simp: search_ok_def r)
    have "(x, x) \<notin> ?r\<^sup>+" for x
    proof
      assume cyc: "(x, x) \<in> ?r\<^sup>+"
      then obtain y where "(x, y) \<in> ?r" by (auto dest: tranclD)
      with all have "x \<in> v" by (auto simp: waits_for_def)
      with ok cyc show False by (auto simp: search_ok_def)
    qed
    then show ?thesis by (simp add: acyclic_def)
  qed
  ultimately show ?thesis using sound unfolding c by blast
qed

section \<open>Witnesses\<close>

definition sample_config :: simulator_config where
  "sample_config = \<lparr>sc_platform = ''A2'', sc_trace_path = None, sc_hazard_check = ''error'', sc_sync_only = False,
     sc_dynamic_if = ''error'', sc_deadlock_detect = True, sc_deadlock_history_limit = 8,
     sc_flag_balance_check = ''error'', sc_flag_blocking = False, sc_local_flag_depth = 1, sc_cross_flag_depth = 15,
     sc_execution_timeout_s = 120, sc_max_cycles = Some 100,
     sc_timing_profile = \<lparr>tp_platform = ''A2'', tp_operation_cycles = [], tp_fallback_cycles = 1,
       tp_calibration = ''unit'', tp_estimator = ''fixed''\<rparr>\<rparr>"

definition run_sample :: "kernel_program \<Rightarrow> (schedule_result \<times> string option) res option" where
  "run_sample p = run (flag_model False 1 15) (sc_timing_profile sample_config) (Some sample_config) (\<lambda>_. False) p (\<lambda>_. None)"

definition result_of :: "'a res \<Rightarrow> 'a" where
  "result_of r = (case r of Inr v \<Rightarrow> v | Inl _ \<Rightarrow> undefined)"

definition is_result :: "'a res \<Rightarrow> bool" where
  "is_result r \<longleftrightarrow> (case r of Inr _ \<Rightarrow> True | Inl _ \<Rightarrow> False)"

lemma is_result_eq: "is_result r \<Longrightarrow> r = Inr (result_of r)"
  by (cases r) (auto simp: is_result_def result_of_def)

declare run_loop.simps [code]

definition sample_reset :: "kernel_program \<Rightarrow> sync_state" where
  "sample_reset p = result_of (sync_reset False 1 15 p)"

definition sample_loop :: "kernel_program \<Rightarrow> sync_state schedule_state res option" where
  "sample_loop p = run_loop (flag_model False 1 15) sample_config (\<lambda>_. False) (fifo_predecessors (program_tasks p))
     (program_tasks p) 0 (initial_state (sample_reset p) (program_tasks p))"

definition sample_final :: "kernel_program \<Rightarrow> sync_state schedule_state" where
  "sample_final p = result_of (case sample_loop p of Some r \<Rightarrow> r | None \<Rightarrow> Inl (KeyError []))"

text \<open>Evaluating a run in parts.\<close>

lemma run_sample_eq:
  assumes "kp_platform p = ''A2''" "for_each (validate_dependencies (program_tasks p)) () (program_tasks p) = Inr ()"
    and "is_result (sync_reset False 1 15 p)"
    and "is_result (case sample_loop p of Some r \<Rightarrow> r | None \<Rightarrow> Inl (KeyError []))"
  shows "run_sample p = Some (finish_run (flag_model False 1 15) sample_config (\<lambda>_. None) (sample_final p))"
proof -
  have reset: "sm_reset (flag_model False 1 15) p = Inr (sample_reset p)"
    using is_result_eq [OF assms(3)] by (simp add: flag_model_def sample_reset_def)
  have "sample_loop p = Some (Inr (sample_final p))"
    using is_result_eq [OF assms(4)] by (cases "sample_loop p") (auto simp: sample_final_def)
  then show ?thesis
    using assms(1,2) reset by (simp add: run_sample_def run_def Let_def sample_loop_def sample_config_def)
qed

lemma fenced_program_runs: "\<exists>res w. run_sample fenced_program = Some (Inr (res, w))"
proof -
  have "run_sample fenced_program =
      Some (finish_run (flag_model False 1 15) sample_config (\<lambda>_. None) (sample_final fenced_program))"
    by (rule run_sample_eq; code_simp)
  moreover have "run_audit (flag_model False 1 15) sample_config (sl_sync (sample_final fenced_program)) = Inr None"
    by code_simp
  moreover have "is_result (from_records (sort_key record_order (sl_records (sample_final fenced_program))) (\<lambda>_. None) [] [])"
    by code_simp
  ultimately show ?thesis by (auto simp: finish_run_def Let_def dest: is_result_eq)
qed

theorem schedule_respects_order_witness:
  "\<exists>res w (place :: string \<Rightarrow> exec_record). run_sample fenced_program = Some (Inr (res, w)) \<and> er_end_cycle (place ''load'') \<le> er_start_cycle (place ''set'') \<and>
    er_end_cycle (place ''add'') = er_start_cycle (place ''add'') + 4 \<and> er_end_cycle (place ''add'') \<le> 100"
proof -
  obtain res w where run: "run_sample fenced_program = Some (Inr (res, w))"
    using fenced_program_runs by blast
  have tasks: "program_tasks fenced_program = fenced_tasks" by (simp add: fenced_program_def program_tasks_def)
  have ids: "distinct (map task_id (program_tasks fenced_program))" unfolding tasks by code_simp
  obtain place :: "string \<Rightarrow> exec_record" where "\<forall>t \<in> set fenced_tasks. er_task_id (place (task_id t)) = task_id t \<and> 0 \<le> er_start_cycle (place (task_id t)) \<and>
       er_end_cycle (place (task_id t)) = er_start_cycle (place (task_id t)) + duration_cycles t \<and>
       (\<forall>d \<in> set (execution_dependencies t). er_end_cycle (place d) \<le> er_start_cycle (place (task_id t))) \<and>
       (\<forall>c n. Some sample_config = Some c \<longrightarrow> sc_max_cycles c = Some n \<longrightarrow> er_end_cycle (place (task_id t)) \<le> n)"
    and "\<forall>i j. i < j \<longrightarrow> j < length fenced_tasks \<longrightarrow> task_resource (fenced_tasks ! i) = task_resource (fenced_tasks ! j) \<longrightarrow>
       er_end_cycle (place (task_id (fenced_tasks ! i))) \<le> er_start_cycle (place (task_id (fenced_tasks ! j)))"
    using schedule_respects_order [OF run [unfolded run_sample_def] ids] unfolding tasks
    by (elim exE conjE) (rule that, assumption+)
  note place = this(1) [rule_format, of "fenced_tasks ! 3"] this(2) [rule_format, of 0 1]
  have "fenced_tasks ! 3 \<in> set fenced_tasks" "sc_max_cycles sample_config = Some 100"
    "task_resource (fenced_tasks ! 0) = task_resource (fenced_tasks ! 1)" "1 < length fenced_tasks"
    "task_id (fenced_tasks ! 0) = ''load''" "task_id (fenced_tasks ! 1) = ''set''" "task_id (fenced_tasks ! 3) = ''add''"
    "duration_cycles (fenced_tasks ! 3) = 4"
    by (simp_all add: fenced_tasks_def flag_task_def sample_config_def task_resource_def)
  with place run show ?thesis by auto
qed

theorem run_terminates_witness:
  "\<exists>r. run noop_model (sc_timing_profile sample_config) (Some sample_config) (\<lambda>_. False) fenced_program (\<lambda>_. None) = Some r"
  by (rule run_terminates) (simp add: sample_config_def)

definition crossed_tasks :: "task list" where
  "crossed_tasks = [flag_task ''a'' ''copy'' MTE2 [], (flag_task ''b'' ''copy'' VECTOR [])\<lparr>dependencies := [''a'']\<rparr>]"

theorem wait_cycle_decides_witness:
  "acyclic (waits_for (fifo_predecessors crossed_tasks) (initial_state () crossed_tasks) crossed_tasks)"
proof -
  have "distinct (map task_id crossed_tasks)" by code_simp
  moreover have "wait_cycle (fifo_predecessors crossed_tasks) (initial_state () crossed_tasks) crossed_tasks = []" by code_simp
  ultimately show ?thesis using wait_cycle_decides by blast
qed

end
