(* ===== verification/Sim_Protocol.thy ===== *)
theory Sim_Protocol
  imports Sim_Scheduler_Props
begin

text \<open>
  What the scheduler guarantees a synchronization model and what it gets back.  A history is the
  list of scheduled tasks with their records, in the order the loop committed them.  The locale
  \<open>sync_protocol\<close> takes a relation between model state and history that \<open>reset\<close> establishes and
  every decision and every commit preserves; the loop then ends in a related state.  The model
  without synchronization is an instance, and its runs get stuck only on a cycle of waits.
\<close>

type_synonym history = "(task \<times> exec_record) list"

definition completed_of :: "history \<Rightarrow> completed" where
  "completed_of h = map (\<lambda>(t, r). (task_id t, r)) h"

lemma completed_of_append [simp]: "completed_of (h @ [(t, r)]) = completed_of h @ [(task_id t, r)]"
  by (simp add: completed_of_def)

lemma completed_of_Nil [simp]: "completed_of [] = []"
  by (simp add: completed_of_def)

locale sync_protocol =
  fixes m :: "'st sync_model"
    and related :: "kernel_program \<Rightarrow> 'st \<Rightarrow> history \<Rightarrow> bool"
  assumes reset_related: "sm_reset m p = Inr st \<Longrightarrow> related p st []"
    and evaluate_related: "related p st h \<Longrightarrow> sm_evaluate m st t (completed_of h) = Inr (st', d) \<Longrightarrow> related p st' h"
    and commit_related: "related p st h \<Longrightarrow> sm_evaluate m st t (completed_of h) = Inr (st', d) \<Longrightarrow>
      sd_ready_cycle d = Some c \<Longrightarrow> c \<le> er_start_cycle r \<Longrightarrow> er_task_id r = task_id t \<Longrightarrow> record_wf r \<Longrightarrow>
      t \<in> set (program_tasks p) \<Longrightarrow> map_of (completed_of h) (task_id t) = None \<Longrightarrow>
      sm_on_scheduled m st' t r = Inr st'' \<Longrightarrow> related p st'' (h @ [(t, r)])"
begin

definition tracks :: "kernel_program \<Rightarrow> 'st schedule_state \<Rightarrow> bool" where
  "tracks p s \<longleftrightarrow> (\<exists>h. completed_of h = sl_completed s \<and> set (map fst h) \<subseteq> set (program_tasks p) \<and>
     related p (sl_sync s) h)"

lemma schedule_task_tracks:
  assumes step: "schedule_task m limit fifo s t = Inr s'" and "tracks p s" and t: "t \<in> set (program_tasks p)"
    and inv: "schedule_inv limit fifo (program_tasks p) s"
  shows "tracks p s'"
proof -
  from assms(2) obtain h where h: "completed_of h = sl_completed s" "set (map fst h) \<subseteq> set (program_tasks p)"
    "related p (sl_sync s) h"
    by (auto simp: tracks_def)
  from step show ?thesis
  proof (cases rule: schedule_task_cases)
    case (hold st d)
    with h evaluate_related show ?thesis by (auto simp: tracks_def block_task_def)
  next
    case (commit st d)
    from commit(6) obtain waits r st' c where c: "c = ready_cycles_of (sl_completed s)
        (fromkeys (execution_dependencies t)) (map_of fifo (task_id t)) d"
      and r: "record_wf r" "er_task_id r = task_id t" "er_start_cycle r = rc_start c"
      and st': "sm_on_scheduled m st t r = Inr st'"
      and s': "sl_completed s' = dict_set (task_id t) r (sl_completed s)" "sl_sync s' = st'"
      by (rule commit_task_InrE) simp
    have fresh: "map_of (sl_completed s) (task_id t) = None"
      using inv commit(1) unfolding schedule_inv_def by blast
    from commit(5) obtain k where k: "sd_ready_cycle d = Some k" by (auto simp: blocked_def)
    then have "k \<le> er_start_cycle r" by (simp add: r c ready_cycles_of_def rc_start_def rc_ready_def)
    with commit_related [OF h(3) _ k _ r(2,1) t _ st'] commit(4) h(1) fresh have "related p st' (h @ [(t, r)])" by simp
    moreover have "completed_of (h @ [(t, r)]) = sl_completed s'" using h(1) s' dict_set_fresh [OF fresh] by simp
    ultimately show ?thesis using h(2) t s'(2) unfolding tracks_def by (intro exI [of _ "h @ [(t, r)]"]) simp
  qed (use h in \<open>auto simp: tracks_def block_task_def\<close>)
qed

lemma schedule_pass_tracks:
  assumes "schedule_pass m limit fifo (program_tasks p) s = Inr s'" "tracks p s"
    and "schedule_inv limit fifo (program_tasks p) s" "distinct (map task_id (program_tasks p))"
  shows "tracks p s'"
proof -
  let ?P = "\<lambda>u. tracks p u \<and> schedule_inv limit fifo (program_tasks p) u"
  have "?P (s\<lparr>sl_made_progress := False, sl_blocked := []\<rparr>)"
    using assms(2,3) by (simp add: tracks_def schedule_inv_def)
  moreover have "?P v" if "t \<in> set (program_tasks p)" "?P u" "schedule_task m limit fifo u t = Inr v" for u t v
    using that schedule_task_tracks schedule_task_inv assms(4) by blast
  ultimately show ?thesis
    using for_each_invariant [OF assms(1) [unfolded schedule_pass_def], where P = ?P] by blast
qed

text \<open>A returned run has a history of every task, related to the final state of the model.\<close>

lemma run_history:
  assumes "run m default_a2 given timed_out p bindings = Some (Inr (res, warning))"
    and ids: "distinct (map task_id (program_tasks p))"
  shows "\<exists>h config s. related p (sl_sync s) h \<and> completed_of h = sl_completed s \<and>
    set (map fst h) = set (program_tasks p) \<and> distinct (map (task_id \<circ> fst) h) \<and>
    run_audit m config (sl_sync s) = Inr warning \<and> (\<forall>c. given = Some c \<longrightarrow> config = c) \<and>
    sr_records res = sort_key record_order (sl_records s) \<and>
    schedule_inv (sc_max_cycles config) (fifo_predecessors (program_tasks p)) (program_tasks p) s \<and> sl_pending s = []"
proof -
  let ?tasks = "program_tasks p" and ?fifo = "fifo_predecessors (program_tasks p)"
  from assms(1) obtain config st s where reset: "sm_reset m p = Inr st" and given: "\<And>c. given = Some c \<Longrightarrow> config = c"
    and loop: "run_loop m config timed_out ?fifo ?tasks 0 (initial_state st ?tasks) = Some (Inr s)"
    and recs: "sr_records res = sort_key record_order (sl_records s)"
    and audit: "run_audit m config (sl_sync s) = Inr warning"
    by (rule run_Inr) blast
  let ?P = "\<lambda>u. tracks p u \<and> schedule_inv (sc_max_cycles config) ?fifo ?tasks u"
  have "tracks p (initial_state st ?tasks)"
    using reset_related [OF reset] by (auto simp: tracks_def initial_state_def intro: exI [of _ "[]"])
  then have start: "?P (initial_state st ?tasks)" by (simp add: initial_inv)
  have "?P s \<and> sl_pending s = []"
    by (rule run_loop_invariant [OF loop, where P = ?P, OF start])
       (use schedule_pass_tracks schedule_pass_inv ids in blast)
  then have fin: "tracks p s" "schedule_inv (sc_max_cycles config) ?fifo ?tasks s" "sl_pending s = []" by auto
  then obtain h where h: "completed_of h = sl_completed s" "set (map fst h) \<subseteq> set ?tasks" "related p (sl_sync s) h"
    by (auto simp: tracks_def)
  have keys: "map (task_id \<circ> fst) h = map fst (sl_completed s)"
    unfolding h(1) [symmetric] by (simp add: completed_of_def comp_def case_prod_unfold)
  have dom: "set (map fst (sl_completed s)) = set (map task_id ?tasks)" "distinct (map fst (sl_completed s))"
    using fin(2,3) by (auto simp: schedule_inv_def dom_map_of_conv_image_fst)
  have "t \<in> set (map fst h)" if "t \<in> set ?tasks" for t
  proof -
    have "task_id t \<in> set (map (task_id \<circ> fst) h)" using keys dom that by simp
    then obtain e where "e \<in> set h" "task_id (fst e) = task_id t" by auto
    moreover have "fst e \<in> set ?tasks" using h(2) \<open>e \<in> set h\<close> by auto
    ultimately show ?thesis using ids that by (metis distinct_map image_eqI image_set inj_onD)
  qed
  then have "set (map fst h) = set ?tasks" using h(2) by blast
  with h fin keys dom(2) recs audit given show ?thesis by (intro exI [of _ h] exI [of _ config] exI [of _ s]) simp
qed

end

interpretation noop: sync_protocol noop_model "\<lambda>_ _ _. True"
  by unfold_locales auto

section \<open>A pass without progress\<close>

lemma for_each_total:
  assumes "\<And>u x. x \<in> set xs \<Longrightarrow> P u \<Longrightarrow> \<exists>v. body u x = Inr v \<and> P v" and "P s"
  shows "\<exists>t. for_each body s xs = Inr t \<and> P t"
  using assms
proof (induction xs arbitrary: s)
  case (Cons x xs)
  from Cons.prems obtain v where "body s x = Inr v" "P v" by (metis list.set_intros(1))
  with Cons.IH [of v] Cons.prems(1) show ?case by auto
qed simp

definition requires :: "(string, string) dict \<Rightarrow> task \<Rightarrow> string \<Rightarrow> bool" where
  "requires fifo t d \<longleftrightarrow> d \<in> set (execution_dependencies t) \<or> map_of fifo (task_id t) = Some d"

lemma no_progress:
  assumes "for_each (schedule_task m limit fifo) u ts = Inr v" and "\<not> sl_made_progress v"
  shows "sl_completed v = sl_completed u \<and> sl_pending v = sl_pending u \<and> \<not> sl_made_progress u \<and>
    (\<forall>t \<in> set ts. task_id t \<in> set (sl_pending u) \<longrightarrow>
       (\<exists>d. requires fifo t d \<and> \<not> is_done (sl_completed u) d) \<or>
       (\<exists>st st' d. sm_evaluate m st t (sl_completed u) = Inr (st', d) \<and> blocked d))"
  using assms
proof (induction ts arbitrary: u)
  case (Cons t ts)
  then obtain w where step: "schedule_task m limit fifo u t = Inr w" and rest: "for_each (schedule_task m limit fifo) w ts = Inr v"
    by (auto split: sum.splits)
  note IH = Cons.IH [OF rest Cons.prems(2)]
  from step show ?case
  proof (cases rule: schedule_task_cases)
    case (wait missing)
    from wait(2) obtain d where "d \<in> set missing" by (cases missing) auto
    then have "requires fifo t d \<and> \<not> is_done (sl_completed u) d" using wait(3) by (auto simp: requires_def)
    with IH wait(4) show ?thesis by (auto simp: block_task_def)
  next
    case (hold st d)
    with IH show ?thesis by (auto simp: block_task_def)
  next
    case (commit st d)
    then have "sl_made_progress w" using commit_task_pending(2) [OF commit(6)] by simp
    with IH show ?thesis by blast
  qed (use IH in auto)
qed simp

section \<open>Runs without a synchronization model\<close>

definition order_rel :: "task list \<Rightarrow> (string \<times> string) set" where
  "order_rel tasks = {(task_id t, d) | t d. t \<in> set tasks \<and> requires (fifo_predecessors tasks) t d}"

lemma stuck_has_cycle:
  assumes "finite S" "S \<noteq> {}" "\<And>x. x \<in> S \<Longrightarrow> \<exists>y \<in> S. (x, y) \<in> r"
  shows "\<not> acyclic r"
proof
  assume "acyclic r"
  then have "acyclic (r \<inter> S \<times> S)" by (rule acyclic_subset) blast
  then have "wf ((r \<inter> S \<times> S)\<inverse>)" using assms(1) by (intro finite_acyclic_wf_converse) auto
  from wfE_min' [OF this assms(2)] obtain z where "z \<in> S" "\<And>y. (y, z) \<in> (r \<inter> S \<times> S)\<inverse> \<Longrightarrow> y \<notin> S"
    by blast
  with assms(3) [of z] show False by blast
qed

lemma inv_end_of_nonneg:
  assumes "schedule_inv limit fifo tasks s"
  shows "0 \<le> end_of (sl_completed s) tid"
proof (cases "map_of (sl_completed s) tid")
  case (Some r)
  then have "tid \<in> set (map task_id tasks)" using assms unfolding schedule_inv_def by blast
  then obtain t where "t \<in> set tasks" "tid = task_id t" by auto
  with Some assms have "scheduled_ok limit fifo (sl_completed s) t r" unfolding schedule_inv_def by blast
  from scheduled_okD(2,4) [OF this] Some show ?thesis by (simp add: end_of_def)
qed (simp add: end_of_def)

lemma noop_commit_total:
  assumes "schedule_inv limit fifo tasks s" "task_wf t"
  shows "\<exists>s'. commit_task noop_model None deps predecessor noop_evaluate s t = Inr s'"
proof -
  let ?c = "ready_cycles_of (sl_completed s) deps predecessor noop_evaluate"
  have "0 \<le> max_default0 (map (end_of (sl_completed s)) deps)"
    using inv_end_of_nonneg [OF assms(1)] by (intro max_default0_nonneg) auto
  then have "0 \<le> rc_dependency ?c" by (simp add: ready_cycles_of_def)
  then have "wait_records t noop_evaluate ?c = Inr []" "0 \<le> rc_start ?c"
    by (auto simp: wait_records_def Let_def ready_cycles_of_def noop_evaluate_def rc_start_def rc_ready_def)
  moreover have "\<exists>r. from_task t (rc_start ?c) (rc_start ?c + duration_cycles t) ''operation'' None md = Inr r" for md
    using assms(2) \<open>0 \<le> rc_start ?c\<close> from_task_Inr [of t "rc_start ?c" "rc_start ?c + duration_cycles t"]
    by (fastforce simp: task_wf_def)
  ultimately show ?thesis by (auto simp: commit_task_def Let_def limit_exceeded_def noop_model_def)
qed

lemma noop_task_total:
  assumes "schedule_inv limit fifo tasks s" "task_wf t"
  shows "\<exists>s'. schedule_task noop_model None fifo s t = Inr s'"
proof -
  let ?deps = "fromkeys (execution_dependencies t)" and ?q = "map_of fifo (task_id t)"
  obtain s' where "commit_task noop_model None ?deps ?q noop_evaluate s t = Inr s'"
    using noop_commit_total [OF assms] by blast
  moreover have "sm_evaluate noop_model (sl_sync s) t (sl_completed s) = Inr (sl_sync s, noop_evaluate)" "\<not> blocked noop_evaluate"
    by (simp_all add: noop_model_def blocked_def noop_evaluate_def)
  moreover have "s\<lparr>sl_sync := sl_sync s\<rparr> = s" by simp
  ultimately show ?thesis unfolding schedule_task_def Let_def by (simp only: and_then_simps prod.case) auto
qed

lemma fifo_predecessors_known:
  assumes "distinct (map task_id tasks)" "t \<in> set tasks" "map_of (fifo_predecessors tasks) (task_id t) = Some q"
  shows "q \<in> set (map task_id tasks)"
proof -
  obtain j where j: "j < length tasks" "t = tasks ! j" using assms(2) by (auto simp: in_set_conv_nth)
  let ?ts = "on_resource (task_resource t) (take j tasks)"
  have "map_of (fifo_predecessors tasks) (task_id t) = latest ?ts"
    unfolding j(2) by (rule map_of_fifo_predecessors [OF assms(1) j(1)])
  from this [symmetric] assms(3) have "latest ?ts = Some q" by (rule trans)
  then have ts: "?ts \<noteq> [] \<and> task_id (last ?ts) = q" unfolding latest_def by (meson option.distinct(1) option.inject)
  then have "last ?ts \<in> set ?ts" by (intro last_in_set) blast
  then have "last ?ts \<in> set tasks" using in_set_takeD [of "last ?ts" j tasks] by (metis filter_is_subset subsetD)
  with ts show ?thesis by (metis image_eqI image_set)
qed

lemma noop_pass_progress:
  assumes inv: "schedule_inv None (fifo_predecessors tasks) tasks s" and ids: "distinct (map task_id tasks)"
    and wf: "\<forall>t \<in> set tasks. task_wf t" and known: "\<forall>t \<in> set tasks. set (dependencies t) \<subseteq> set (map task_id tasks)"
    and acyc: "acyclic (order_rel tasks)" and "sl_pending s \<noteq> []"
  shows "\<exists>s'. schedule_pass noop_model None (fifo_predecessors tasks) tasks s = Inr s' \<and> sl_made_progress s'"
proof -
  let ?fifo = "fifo_predecessors tasks"
  let ?s = "s\<lparr>sl_made_progress := False, sl_blocked := []\<rparr>"
  have start: "schedule_inv None ?fifo tasks ?s" using inv by (simp add: schedule_inv_def)
  have step: "\<exists>v. schedule_task noop_model None ?fifo u t = Inr v \<and> schedule_inv None ?fifo tasks v"
    if "t \<in> set tasks" "schedule_inv None ?fifo tasks u" for u t
    using noop_task_total [OF that(2)] schedule_task_inv [OF _ that(2) that(1) ids] wf that(1) by blast
  obtain v where v: "for_each (schedule_task noop_model None ?fifo) ?s tasks = Inr v"
    using for_each_total [of tasks "schedule_inv None ?fifo tasks" "schedule_task noop_model None ?fifo", OF step start]
    by blast
  have "sl_made_progress v"
  proof (rule ccontr)
    assume "\<not> sl_made_progress v"
    from no_progress [OF v this] have stuck: "\<exists>d. requires ?fifo t d \<and> \<not> is_done (sl_completed s) d"
      if "t \<in> set tasks" "task_id t \<in> set (sl_pending s)" for t
      using that by (auto simp: noop_model_def blocked_def noop_evaluate_def)
    have "\<not> acyclic (order_rel tasks)"
    proof (rule stuck_has_cycle)
      show "finite (set (sl_pending s))" "set (sl_pending s) \<noteq> {}" using assms(6) by simp_all
      fix x
      assume x: "x \<in> set (sl_pending s)"
      have pending: "set (sl_pending s) \<subseteq> set (map task_id tasks)"
        "dom (map_of (sl_completed s)) = set (map task_id tasks) - set (sl_pending s)"
        using inv unfolding schedule_inv_def by blast+
      with x obtain t where t: "t \<in> set tasks" "x = task_id t" by auto
      with stuck x obtain d where d: "requires ?fifo t d" "\<not> is_done (sl_completed s) d" by blast
      have "d \<in> set (map task_id tasks)"
        using d(1) t(1) known fifo_predecessors_known [OF ids t(1)]
        by (auto simp: requires_def execution_dependencies_def Let_def)
      then have "d \<in> set (sl_pending s)" using pending d(2) by (auto simp: is_done_def)
      with d(1) t show "\<exists>y \<in> set (sl_pending s). (x, y) \<in> order_rel tasks" by (auto simp: order_rel_def)
    qed
    with acyc show False by blast
  qed
  with v show ?thesis by (auto simp: schedule_pass_def)
qed

lemma noop_loop_finishes:
  assumes "schedule_inv None (fifo_predecessors tasks) tasks s" "distinct (map task_id tasks)"
    and "\<forall>t \<in> set tasks. task_wf t" "\<forall>t \<in> set tasks. set (dependencies t) \<subseteq> set (map task_id tasks)"
    and "acyclic (order_rel tasks)" and "sc_max_cycles config = None"
  shows "\<exists>s'. run_loop noop_model config (\<lambda>_. False) (fifo_predecessors tasks) tasks k s = Some (Inr s')"
  using assms(1)
proof (induction "length (sl_pending s)" arbitrary: s k rule: less_induct)
  case less
  show ?case
  proof (cases "sl_pending s = []")
    case True
    then show ?thesis by (subst run_loop.simps) simp
  next
    case False
    obtain s' where s': "schedule_pass noop_model None (fifo_predecessors tasks) tasks s = Inr s'" "sl_made_progress s'"
      using noop_pass_progress [OF less.prems assms(2-5) False] by blast
    then have "\<exists>u. run_loop noop_model config (\<lambda>_. False) (fifo_predecessors tasks) tasks (Suc k) s' = Some (Inr u)"
      using less.hyps [of s'] schedule_pass_pending schedule_pass_inv less.prems assms(2) by blast
    with False s' assms(6) show ?thesis by (subst run_loop.simps) simp
  qed
qed

lemma finished_acyclic:
  assumes "schedule_inv limit (fifo_predecessors tasks) tasks s" "sl_pending s = []" "distinct (map task_id tasks)"
    and "\<forall>t \<in> set tasks. task_wf t"
  shows "acyclic (order_rel tasks)"
proof -
  let ?c = "sl_completed s"
  let ?finish = "\<lambda>tid. er_end_cycle (record_at ?c tid)"
  obtain ok: "\<forall>t \<in> set tasks. scheduled_ok limit (fifo_predecessors tasks) ?c t (record_at ?c (task_id t))"
    by (rule finished_records [OF assms(1-3)])
  have "nat (?finish d) < nat (?finish x)" if "(x, d) \<in> order_rel tasks" for x d
  proof -
    from that obtain t where t: "t \<in> set tasks" and d: "requires (fifo_predecessors tasks) t d" and x: "x = task_id t"
      by (auto simp: order_rel_def)
    note sched = scheduled_okD [OF ok [rule_format, OF t]]
    have "?finish d \<le> er_start_cycle (record_at ?c (task_id t))"
      using d sched(6) sched(7) ends_before_at unfolding requires_def by blast
    moreover have "0 < duration_cycles t" using assms(4) t by (simp add: task_wf_def)
    ultimately show ?thesis using sched(2,3) x by simp
  qed
  then have "(order_rel tasks)\<inverse> \<subseteq> measure (\<lambda>tid. nat (?finish tid))" by auto
  then have "wf ((order_rel tasks)\<inverse>)" by (rule wf_subset [rotated]) simp
  then show ?thesis using wf_acyclic acyclic_converse by blast
qed

text \<open>
  C3: Without a synchronization model and without limits, the loop schedules every task exactly
  when the order the program imposes, its execution dependencies together with the FIFO order of
  its pipes, has no cycle: valid programs never hang and never deadlock for another reason.
\<close>

theorem noop_runs_iff_acyclic:
  assumes "distinct (map task_id tasks)" "\<forall>t \<in> set tasks. task_wf t"
    and "\<forall>t \<in> set tasks. set (dependencies t) \<subseteq> set (map task_id tasks)" and "sc_max_cycles config = None"
  shows "(\<exists>s. run_loop noop_model config (\<lambda>_. False) (fifo_predecessors tasks) tasks 0 (initial_state () tasks) = Some (Inr s))
    \<longleftrightarrow> acyclic (order_rel tasks)"
proof
  assume "\<exists>s. run_loop noop_model config (\<lambda>_. False) (fifo_predecessors tasks) tasks 0 (initial_state () tasks) = Some (Inr s)"
  then obtain s where loop: "run_loop noop_model config (\<lambda>_. False) (fifo_predecessors tasks) tasks 0 (initial_state () tasks) = Some (Inr s)"
    by blast
  have "schedule_inv (sc_max_cycles config) (fifo_predecessors tasks) tasks s \<and> sl_pending s = []"
  proof (rule run_loop_invariant [OF loop, where P = "schedule_inv (sc_max_cycles config) (fifo_predecessors tasks) tasks"])
    show "schedule_inv (sc_max_cycles config) (fifo_predecessors tasks) tasks (initial_state () tasks)" by (rule initial_inv)
    fix u v
    assume "schedule_inv (sc_max_cycles config) (fifo_predecessors tasks) tasks u"
      "schedule_pass noop_model (sc_max_cycles config) (fifo_predecessors tasks) tasks u = Inr v"
    from schedule_pass_inv [OF this(2,1) assms(1)]
    show "schedule_inv (sc_max_cycles config) (fifo_predecessors tasks) tasks v" .
  qed
  with finished_acyclic assms(1,2) show "acyclic (order_rel tasks)" by blast
next
  assume "acyclic (order_rel tasks)"
  from noop_loop_finishes [OF initial_inv assms(1-3) this assms(4)]
  show "\<exists>s. run_loop noop_model config (\<lambda>_. False) (fifo_predecessors tasks) tasks 0 (initial_state () tasks) = Some (Inr s)" .
qed

theorem noop_runs_iff_acyclic_witness:
  "acyclic (order_rel crossed_tasks)"
proof -
  have "is_result (case run_loop noop_model (sample_config\<lparr>sc_max_cycles := None\<rparr>) (\<lambda>_. False)
      (fifo_predecessors crossed_tasks) crossed_tasks 0 (initial_state () crossed_tasks) of Some r \<Rightarrow> r | None \<Rightarrow> Inl (KeyError []))"
    by code_simp
  then have "\<exists>s. run_loop noop_model (sample_config\<lparr>sc_max_cycles := None\<rparr>) (\<lambda>_. False)
      (fifo_predecessors crossed_tasks) crossed_tasks 0 (initial_state () crossed_tasks) = Some (Inr s)"
    by (auto simp: is_result_def split: option.splits sum.splits)
  moreover have "distinct (map task_id crossed_tasks)" "\<forall>t \<in> set crossed_tasks. task_wf t"
    "\<forall>t \<in> set crossed_tasks. set (dependencies t) \<subseteq> set (map task_id crossed_tasks)"
    by code_simp+
  ultimately show ?thesis using noop_runs_iff_acyclic [of crossed_tasks "sample_config\<lparr>sc_max_cycles := None\<rparr>"] by simp
qed

end
