(* ===== verification/Sim_Flags.thy ===== *)
theory Sim_Flags
  imports Sim_Protocol
begin

text \<open>
  The flag and barrier model as an implementation of FIFO event channels.  A history (the scheduled
  tasks in commit order) determines, for every flag key, the SETs that produced credits and the WAITs
  that consumed them.  The token queues of the model are exactly the unconsumed suffix of the SETs;
  the arrivals of collective flags and of \<open>sync_all\<close> are those of the history.
\<close>

declare split_paired_All [simp del] split_paired_Ex [simp del]

section \<open>Which credits a task produces and consumes\<close>

definition keys_or_none :: "'a list res \<Rightarrow> 'a list" where
  "keys_or_none r = (case r of Inr ks \<Rightarrow> ks | Inl _ \<Rightarrow> [])"

definition produced_keys :: "task \<Rightarrow> flag_key list" where
  "produced_keys t =
     (if sync_operation t \<in> set SET_LOCAL then keys_or_none (and_then (local_flag_key t) (\<lambda>k. Inr [k]))
      else if sync_operation t \<in> set SET_CROSS
      then keys_or_none (and_then (cross_mode t) (\<lambda>mode. if mode \<in> {0, 1} then Inr [] else cross_set_keys_mode2 t))
      else [])"

definition consumed_keys :: "(wait_signature, int) dict \<Rightarrow> task \<Rightarrow> flag_key list" where
  "consumed_keys modes t =
     (if sync_operation t \<in> set WAIT_LOCAL then keys_or_none (and_then (local_flag_key t) (\<lambda>k. Inr [k]))
      else if sync_operation t \<in> set WAIT_CROSS
      then keys_or_none (and_then (cross_wait_mode modes t) (\<lambda>mode.
             case mode of None \<Rightarrow> Inr [] | Some m \<Rightarrow> if m \<in> {0, 1} then Inr [] else cross_wait_keys_mode2 t))
      else [])"

definition collective_set_key :: "task \<Rightarrow> collective_key option" where
  "collective_set_key t =
     (if sync_operation t \<in> set SET_CROSS
      then (case and_then (cross_mode t) (\<lambda>mode. if mode \<in> {0, 1} then collective_key_of t mode else Inl (KeyError [])) of
              Inr k \<Rightarrow> Some k | Inl _ \<Rightarrow> None)
      else None)"

definition collective_wait_key :: "(wait_signature, int) dict \<Rightarrow> task \<Rightarrow> collective_key option" where
  "collective_wait_key modes t =
     (if sync_operation t \<in> set WAIT_CROSS
      then (case and_then (cross_wait_mode modes t) (\<lambda>mode.
              if mode \<in> {Some 0, Some 1} then collective_key_of t (the mode) else Inl (KeyError [])) of
              Inr k \<Rightarrow> Some k | Inl _ \<Rightarrow> None)
      else None)"

lemma ops_disjoint:
  "op \<in> set SET_LOCAL \<Longrightarrow> op \<notin> set SET_CROSS \<and> op \<notin> set WAIT_LOCAL \<and> op \<notin> set WAIT_CROSS \<and> op \<notin> set SYNC_ALL"
  "op \<in> set SET_CROSS \<Longrightarrow> op \<notin> set WAIT_LOCAL \<and> op \<notin> set WAIT_CROSS \<and> op \<notin> set SYNC_ALL"
  "op \<in> set WAIT_LOCAL \<Longrightarrow> op \<notin> set WAIT_CROSS \<and> op \<notin> set SYNC_ALL"
  "op \<in> set WAIT_CROSS \<Longrightarrow> op \<notin> set SYNC_ALL"
  by (auto simp: op_sets)

lemma cross_keys_distinct:
  "cross_set_keys_mode2 t = Inr ks \<Longrightarrow> distinct ks" "cross_wait_keys_mode2 t = Inr ks \<Longrightarrow> distinct ks"
  by (auto simp: cross_set_keys_mode2_def cross_wait_keys_mode2_def vector_lane_names_def split: if_splits)

lemma produced_keys_distinct: "distinct (produced_keys t)"
  by (auto simp: produced_keys_def keys_or_none_def dest: cross_keys_distinct split: sum.split)

section \<open>Token queues\<close>

lemma tokens_push [simp]:
  "tokens_of (push_token key token st) k = (if k = key then tokens_of st k @ [token] else tokens_of st k)"
  by (auto simp: push_token_def tokens_of_def dict_get_def)

lemma pop_token_Inr:
  "pop_token st key = Inr st' \<longleftrightarrow> tokens_of st key \<noteq> [] \<and> st' = st\<lparr>ss_tokens := dict_set key (tl (tokens_of st key)) (ss_tokens st)\<rparr>"
  by (auto simp: pop_token_def split: list.splits)

lemma tokens_pop [simp]:
  "tokens_of (st\<lparr>ss_tokens := dict_set key q (ss_tokens st)\<rparr>) k = (if k = key then q else tokens_of st k)"
  by (auto simp: tokens_of_def dict_get_def)

text \<open>The parts of the state other than the token queues.\<close>

definition other_parts where
  "other_parts st = (ss_flag_blocking st, ss_local_flag_depth st, ss_cross_flag_depth st, ss_collective_ready st,
     ss_collective_wait_phase st, ss_cross_wait_modes st, ss_core_ids st, ss_barrier_dependencies st,
     ss_ordering_dependencies st, ss_sync_all_arrivals st, ss_sync_all_task_phase st, ss_sync_all_release st,
     ss_sync_all_expected st)"

lemma for_each_push_cross:
  assumes "for_each (push_cross token) st keys = Inr st'" "distinct keys"
  shows "(\<forall>k. tokens_of st' k = (if k \<in> set keys then tokens_of st k @ [token] else tokens_of st k)) \<and>
    other_parts st' = other_parts st \<and>
    (\<forall>k \<in> set keys. \<not> ss_flag_blocking st \<longrightarrow> length (tokens_of st k) < MAX_CROSS_FLAG_CREDITS)"
  using assms
proof (induction keys arbitrary: st)
  case (Cons k ks)
  from Cons.prems(1) obtain u where u: "push_cross token st k = Inr u" and rest: "for_each (push_cross token) u ks = Inr st'"
    by (auto split: sum.splits)
  from u have eq: "u = push_token k token st" and bound: "\<not> ss_flag_blocking st \<longrightarrow> length (tokens_of st k) < MAX_CROSS_FLAG_CREDITS"
    by (auto simp: push_cross_def split: if_splits)
  have parts: "other_parts u = other_parts st" "ss_flag_blocking u = ss_flag_blocking st"
    by (simp_all add: eq push_token_def other_parts_def)
  have tok: "tokens_of u k' = (if k' = k then tokens_of st k @ [token] else tokens_of st k')" for k'
    by (simp add: eq)
  have k: "k \<notin> set ks" "distinct ks" using Cons.prems(2) by simp_all
  note IH = Cons.IH [OF rest k(2), unfolded parts tok]
  have "tokens_of st' k' = (if k' \<in> set (k # ks) then tokens_of st k' @ [token] else tokens_of st k')" for k'
    using conjunct1 [OF IH, rule_format, of k'] k(1) by auto
  moreover have "\<forall>k' \<in> set (k # ks). \<not> ss_flag_blocking st \<longrightarrow> length (tokens_of st k') < MAX_CROSS_FLAG_CREDITS"
    using conjunct2 [OF conjunct2 [OF IH]] bound k(1) by (metis set_ConsD)
  ultimately show ?case using IH by blast
qed simp

lemma for_each_pop:
  assumes "for_each pop_token st keys = Inr st'" "distinct keys"
  shows "(\<forall>k. tokens_of st' k = (if k \<in> set keys then tl (tokens_of st k) else tokens_of st k)) \<and>
    other_parts st' = other_parts st \<and> (\<forall>k \<in> set keys. tokens_of st k \<noteq> [])"
  using assms
proof (induction keys arbitrary: st)
  case (Cons k ks)
  from Cons.prems(1) obtain u where u: "pop_token st k = Inr u" and rest: "for_each pop_token u ks = Inr st'"
    by (auto split: sum.splits)
  from u have eq: "u = st\<lparr>ss_tokens := dict_set k (tl (tokens_of st k)) (ss_tokens st)\<rparr>" and ne: "tokens_of st k \<noteq> []"
    by (simp_all add: pop_token_Inr)
  have parts: "other_parts u = other_parts st" by (simp add: eq other_parts_def)
  have tok: "tokens_of u k' = (if k' = k then tl (tokens_of st k) else tokens_of st k')" for k'
    by (simp add: eq)
  have k: "k \<notin> set ks" "distinct ks" using Cons.prems(2) by simp_all
  note IH = Cons.IH [OF rest k(2), unfolded parts tok]
  have "tokens_of st' k' = (if k' \<in> set (k # ks) then tl (tokens_of st k') else tokens_of st k')" for k'
    using conjunct1 [OF IH, rule_format, of k'] k(1) by auto
  moreover have "\<forall>k' \<in> set (k # ks). tokens_of st k' \<noteq> []"
    using conjunct2 [OF conjunct2 [OF IH]] ne k(1) by (metis set_ConsD)
  ultimately show ?case using IH by blast
qed simp

section \<open>Views of the state\<close>

definition ready_of :: "sync_state \<Rightarrow> collective_key \<Rightarrow> participant \<Rightarrow> token list" where
  "ready_of st key q = dict_get (dict_get (ss_collective_ready st) key []) q []"

definition phase_of :: "sync_state \<Rightarrow> collective_key \<Rightarrow> participant \<Rightarrow> nat" where
  "phase_of st key q = dict_get (ss_collective_wait_phase st) (key, q) 0"

definition arrival_of :: "sync_state \<Rightarrow> sync_all_key \<Rightarrow> participant \<Rightarrow> token option" where
  "arrival_of st key q = map_of (dict_get (ss_sync_all_arrivals st) key []) q"

definition statics where
  "statics st = (ss_flag_blocking st, ss_local_flag_depth st, ss_cross_flag_depth st, ss_cross_wait_modes st,
     ss_core_ids st, ss_barrier_dependencies st, ss_ordering_dependencies st, ss_sync_all_task_phase st,
     ss_sync_all_release st, ss_sync_all_expected st)"

lemma statics_eq:
  "statics a = statics b \<longleftrightarrow> ss_flag_blocking a = ss_flag_blocking b \<and> ss_local_flag_depth a = ss_local_flag_depth b \<and>
     ss_cross_flag_depth a = ss_cross_flag_depth b \<and> ss_cross_wait_modes a = ss_cross_wait_modes b \<and>
     ss_core_ids a = ss_core_ids b \<and> ss_barrier_dependencies a = ss_barrier_dependencies b \<and>
     ss_ordering_dependencies a = ss_ordering_dependencies b \<and> ss_sync_all_task_phase a = ss_sync_all_task_phase b \<and>
     ss_sync_all_release a = ss_sync_all_release b \<and> ss_sync_all_expected a = ss_sync_all_expected b"
  by (simp add: statics_def)

lemma other_parts_views:
  assumes "other_parts a = other_parts b"
  shows "statics a = statics b" "ready_of a = ready_of b" "phase_of a = phase_of b" "arrival_of a = arrival_of b"
  using assms by (auto simp: other_parts_def statics_def ready_of_def phase_of_def arrival_of_def fun_eq_iff)

lemma dict_get_setdefault [simp]: "dict_get (dict_setdefault k v d) k' v = dict_get d k' v"
  by (auto simp: dict_setdefault_def dict_get_def split: option.splits)

text \<open>States that agree on everything the history determines.\<close>

definition same_views :: "sync_state \<Rightarrow> sync_state \<Rightarrow> bool" where
  "same_views a b \<longleftrightarrow> tokens_of a = tokens_of b \<and> ready_of a = ready_of b \<and> phase_of a = phase_of b \<and>
     arrival_of a = arrival_of b \<and> statics a = statics b"

lemma same_views_refl [simp]: "same_views a a"
  by (simp add: same_views_def)

lemma same_views_setdefault [simp]:
  "same_views (st\<lparr>ss_collective_ready := dict_setdefault key [] (ss_collective_ready st)\<rparr>) st"
  "same_views (st\<lparr>ss_sync_all_arrivals := dict_setdefault key' [] (ss_sync_all_arrivals st)\<rparr>) st"
  by (simp_all add: same_views_def tokens_of_def ready_of_def phase_of_def arrival_of_def statics_def fun_eq_iff)

lemma evaluate_collective_wait_views:
  "evaluate_collective_wait st t mode c = Inr (st', d) \<Longrightarrow> same_views st' st"
  by (auto simp: evaluate_collective_wait_def Let_def split: if_splits)

lemma evaluate_wait_cross_views:
  "evaluate_wait_cross st t c = Inr (st', d) \<Longrightarrow> same_views st' st"
  by (auto simp: evaluate_wait_cross_def Let_def split: if_splits option.splits dest: evaluate_collective_wait_views)

lemma evaluate_release_views:
  "evaluate_release st key c = Inr (st', d) \<Longrightarrow> same_views st' st"
  by (auto simp: evaluate_release_def Let_def split: if_splits option.splits)

text \<open>The branches of \<open>evaluate\<close>, in the order the code tries them.\<close>

lemma evaluate_cases:
  assumes "evaluate st t completed = Inr (st', d)"
  defines "earlier \<equiv> dict_get (ss_ordering_dependencies st) (task_id t) []"
  obtains (order) "\<not> (\<forall>tid \<in> set earlier. is_done completed tid)" "st' = st" "blocked d"
  | (release) key where "\<forall>tid \<in> set earlier. is_done completed tid" "map_of (ss_sync_all_release st) (task_id t) = Some key"
      "evaluate_release st key (latest_end completed earlier) = Inr (st', d)"
  | (full) "map_of (ss_sync_all_release st) (task_id t) = None" "depth_block st t = Inr (Some d)" "st' = st"
  | (wait_local) "\<forall>tid \<in> set earlier. is_done completed tid" "map_of (ss_sync_all_release st) (task_id t) = None"
      "sync_operation t \<in> set WAIT_LOCAL" "evaluate_wait_local st t (latest_end completed earlier) = Inr d" "st' = st"
  | (wait_cross) "\<forall>tid \<in> set earlier. is_done completed tid" "map_of (ss_sync_all_release st) (task_id t) = None"
      "sync_operation t \<in> set WAIT_CROSS" "evaluate_wait_cross st t (latest_end completed earlier) = Inr (st', d)"
  | (barrier) "\<forall>tid \<in> set earlier. is_done completed tid" "map_of (ss_sync_all_release st) (task_id t) = None"
      "sync_operation t \<in> set BARRIER_ALL \<or> sync_operation t \<in> set PIPE_BARRIER \<or> sync_operation t \<in> set SYNC_ALL"
      "sync_operation t \<notin> set WAIT_LOCAL" "sync_operation t \<notin> set WAIT_CROSS"
      "evaluate_barrier st t completed (latest_end completed earlier) = Inr d" "st' = st"
  | (free) "\<forall>tid \<in> set earlier. is_done completed tid" "map_of (ss_sync_all_release st) (task_id t) = None"
      "sync_operation t \<notin> set WAIT_LOCAL" "sync_operation t \<notin> set WAIT_CROSS"
      "\<not> (sync_operation t \<in> set BARRIER_ALL \<or> sync_operation t \<in> set PIPE_BARRIER \<or> sync_operation t \<in> set SYNC_ALL)"
      "SyncDecision (Some (latest_end completed earlier)) None [] [] = Inr d" "st' = st"
proof -
  let ?op = "sync_operation t" and ?missing = "filter (\<lambda>tid. \<not> is_done completed tid) earlier"
  note unfolded = assms(1) [unfolded evaluate_def Let_def earlier_def [symmetric]]
  show thesis
  proof (cases "?missing = []")
    case False
    then have "\<not> (\<forall>tid \<in> set earlier. is_done completed tid)" by (auto simp: filter_empty_conv)
    moreover from unfolded False have "st' = st \<and> block ''synchronization ordering'' (waiting_for ?missing) = Inr d" by auto
    ultimately show thesis by (intro order) (auto simp: blocked_def block_def SyncDecision_def opt_negative_def)
  next
    case True
    then have ready: "\<forall>tid \<in> set earlier. is_done completed tid" by (auto simp: filter_empty_conv)
    show thesis
    proof (cases "map_of (ss_sync_all_release st) (task_id t)")
      case (Some key)
      with unfolded True show thesis by (intro release [OF ready Some]) simp
    next
      case None
      with unfolded True obtain f where f: "depth_block st t = Inr f"
        and rest: "(case f of Some d \<Rightarrow> Inr (st, d) | None \<Rightarrow>
          if ?op \<in> set WAIT_LOCAL then and_then (evaluate_wait_local st t (latest_end completed earlier)) (\<lambda>d. Inr (st, d))
          else if ?op \<in> set WAIT_CROSS then evaluate_wait_cross st t (latest_end completed earlier)
          else if ?op \<in> set BARRIER_ALL \<or> ?op \<in> set PIPE_BARRIER \<or> ?op \<in> set SYNC_ALL
          then and_then (evaluate_barrier st t completed (latest_end completed earlier)) (\<lambda>d. Inr (st, d))
          else and_then (SyncDecision (Some (latest_end completed earlier)) None [] []) (\<lambda>d. Inr (st, d))) = Inr (st', d)"
        by auto
      show thesis
      proof (cases f)
        case (Some d')
        with rest f show thesis by (intro full [OF None]) auto
      next
        case no_block: None
        consider "?op \<in> set WAIT_LOCAL" | "?op \<notin> set WAIT_LOCAL" "?op \<in> set WAIT_CROSS"
          | "?op \<notin> set WAIT_LOCAL" "?op \<notin> set WAIT_CROSS"
            "?op \<in> set BARRIER_ALL \<or> ?op \<in> set PIPE_BARRIER \<or> ?op \<in> set SYNC_ALL"
          | "?op \<notin> set WAIT_LOCAL" "?op \<notin> set WAIT_CROSS"
            "\<not> (?op \<in> set BARRIER_ALL \<or> ?op \<in> set PIPE_BARRIER \<or> ?op \<in> set SYNC_ALL)"
          by blast
        then show thesis
        proof cases
          case 1 with rest no_block show thesis by (intro wait_local [OF ready None]) auto
        next
          case 2 with rest no_block show thesis by (intro wait_cross [OF ready None]) auto
        next
          case 3 with rest no_block show thesis by (intro barrier [OF ready None 3(3,1,2)]) auto
        next
          case 4 with rest no_block show thesis by (intro free [OF ready None 4(1,2,3)]) auto
        qed
      qed
    qed
  qed
qed

lemma evaluate_views:
  assumes "evaluate st t completed = Inr (st', d)"
  shows "same_views st' st"
  using assms by (cases rule: evaluate_cases) (simp_all add: evaluate_release_views evaluate_wait_cross_views)

section \<open>What a scheduled task changes\<close>

lemma on_scheduled_tokens:
  assumes "on_scheduled st t r = Inr st'"
  shows "tokens_of st' k = (if k \<in> set (produced_keys t) then tokens_of st k @ [(er_end_cycle r, task_id t)]
      else if k \<in> set (consumed_keys (ss_cross_wait_modes st) t) then tl (tokens_of st k) else tokens_of st k) \<and>
    (k \<in> set (consumed_keys (ss_cross_wait_modes st) t) \<longrightarrow> tokens_of st k \<noteq> [])"
proof -
  let ?op = "sync_operation t" and ?token = "(er_end_cycle r, task_id t)"
  consider "?op \<in> set SET_LOCAL" | "?op \<in> set SET_CROSS" | "?op \<in> set WAIT_LOCAL" | "?op \<in> set WAIT_CROSS"
    | (other) "?op \<notin> set SET_LOCAL" "?op \<notin> set SET_CROSS" "?op \<notin> set WAIT_LOCAL" "?op \<notin> set WAIT_CROSS"
    by blast
  then show ?thesis
  proof cases
    case 1
    with assms ops_disjoint(1) [OF 1] show ?thesis
      by (auto simp: on_scheduled_def Let_def produced_keys_def consumed_keys_def keys_or_none_def)
  next
    case 2
    note dis = ops_disjoint(2) [OF 2] and not_local = ops_disjoint(1) [of ?op]
    from 2 not_local have nl: "?op \<notin> set SET_LOCAL" by blast
    from assms 2 nl obtain mode where mode: "cross_mode t = Inr mode"
      and eff: "(if mode \<in> {0, 1} then on_collective_set st t mode r
          else and_then (cross_set_keys_mode2 t) (\<lambda>keys. for_each (push_cross ?token) st keys)) = Inr st'"
      by (auto simp: on_scheduled_def Let_def)
    show ?thesis
    proof (cases "mode \<in> {0, 1}")
      case True
      with eff have "tokens_of st' = tokens_of st"
        by (auto simp: on_collective_set_def Let_def tokens_of_def fun_eq_iff split: if_splits)
      with True 2 nl dis mode show ?thesis by (simp add: produced_keys_def consumed_keys_def keys_or_none_def)
    next
      case False
      with eff obtain ks where ks: "cross_set_keys_mode2 t = Inr ks" "for_each (push_cross ?token) st ks = Inr st'"
        by auto
      from for_each_push_cross [OF ks(2) cross_keys_distinct(1) [OF ks(1)]] False 2 nl dis mode ks(1)
      show ?thesis by (simp add: produced_keys_def consumed_keys_def keys_or_none_def)
    qed
  next
    case 3
    have "?op \<notin> set SET_LOCAL" "?op \<notin> set SET_CROSS" using 3 ops_disjoint by blast+
    with assms 3 show ?thesis
      by (auto simp: on_scheduled_def Let_def produced_keys_def consumed_keys_def keys_or_none_def pop_token_Inr)
  next
    case 4
    have not: "?op \<notin> set SET_LOCAL" "?op \<notin> set SET_CROSS" "?op \<notin> set WAIT_LOCAL" using 4 ops_disjoint by blast+
    with assms 4 obtain mode where mode: "cross_wait_mode (ss_cross_wait_modes st) t = Inr (Some mode)"
      and eff: "(if mode \<in> {0, 1} then and_then (collective_key_of t mode) (\<lambda>key.
            let entry = (key, participant_of t)
            in Inr (st\<lparr>ss_collective_wait_phase := dict_set entry
                 (dict_get (ss_collective_wait_phase st) entry 0 + 1) (ss_collective_wait_phase st)\<rparr>))
          else and_then (cross_wait_keys_mode2 t) (\<lambda>keys. for_each pop_token st keys)) = Inr st'"
      by (auto simp: on_scheduled_def Let_def split: option.splits)
    show ?thesis
    proof (cases "mode \<in> {0, 1}")
      case True
      with eff have "tokens_of st' = tokens_of st" by (auto simp: tokens_of_def fun_eq_iff Let_def)
      with True 4 not mode show ?thesis by (simp add: produced_keys_def consumed_keys_def keys_or_none_def)
    next
      case False
      with eff obtain ks where ks: "cross_wait_keys_mode2 t = Inr ks" "for_each pop_token st ks = Inr st'" by auto
      from for_each_pop [OF ks(2) cross_keys_distinct(2) [OF ks(1)]] False 4 not mode ks(1)
      show ?thesis by (simp add: produced_keys_def consumed_keys_def keys_or_none_def)
    qed
  next
    case other
    have arrivals: "tokens_of v = tokens_of st"
      if "for_each (arrive t r key) u ps = Inr v" "tokens_of u = tokens_of st" for u v key ps
      by (rule for_each_invariant [where P = "\<lambda>u. tokens_of u = tokens_of st", OF that])
         (auto simp: arrive_def Let_def tokens_of_def fun_eq_iff split: if_splits)
    have "tokens_of st' = tokens_of st"
      using assms other
      by (auto simp: on_scheduled_def Let_def tokens_of_def fun_eq_iff split: if_splits option.splits
          dest!: arrivals)
    with other show ?thesis by (simp add: produced_keys_def consumed_keys_def)
  qed
qed

lemma for_each_arrive:
  assumes "for_each (arrive t r key) st ps = Inr st'"
  shows "tokens_of st' = tokens_of st \<and> ready_of st' = ready_of st \<and> phase_of st' = phase_of st \<and> statics st' = statics st \<and>
    (\<forall>key' q. arrival_of st' key' q = (if key' = key \<and> q \<in> set ps then Some (er_end_cycle r, task_id t) else arrival_of st key' q))"
  using assms
proof (induction ps arbitrary: st)
  case (Cons p ps)
  from Cons.prems obtain u where u: "arrive t r key st p = Inr u" and rest: "for_each (arrive t r key) u ps = Inr st'"
    by (auto split: sum.splits)
  from u have eq: "u = st\<lparr>ss_sync_all_arrivals := dict_set key (dict_set p (er_end_cycle r, task_id t)
      (dict_get (ss_sync_all_arrivals st) key [])) (ss_sync_all_arrivals st)\<rparr>"
    by (auto simp: arrive_def Let_def split: if_splits)
  have same: "tokens_of u = tokens_of st" "ready_of u = ready_of st" "phase_of u = phase_of st" "statics u = statics st"
    by (simp_all add: eq tokens_of_def ready_of_def phase_of_def statics_def fun_eq_iff)
  have arr: "arrival_of u key' q = (if key' = key \<and> q = p then Some (er_end_cycle r, task_id t) else arrival_of st key' q)" for key' q
    by (auto simp: eq arrival_of_def dict_get_set)
  note IH = Cons.IH [OF rest, unfolded same arr]
  have "arrival_of st' key' q = (if key' = key \<and> q \<in> set (p # ps) then Some (er_end_cycle r, task_id t) else arrival_of st key' q)" for key' q
    using IH by auto
  with IH show ?case by blast
qed simp

text \<open>
  Every operation leaves the statics alone; a collective SET adds one arrival of its participant, a
  collective WAIT moves its participant to the next phase, and \<open>sync_all\<close> records the arrival of the
  participants it stands for.
\<close>

lemma on_scheduled_views:
  assumes "on_scheduled st t r = Inr st'"
  shows "statics st' = statics st \<and>
    (\<forall>key q. ready_of st' key q = ready_of st key q @
       (if collective_set_key t = Some key \<and> q = participant_of t then [(er_end_cycle r, task_id t)] else [])) \<and>
    (\<forall>key q. phase_of st' key q = phase_of st key q +
       (if collective_wait_key (ss_cross_wait_modes st) t = Some key \<and> q = participant_of t then 1 else 0)) \<and>
    (\<forall>key q. arrival_of st' key q =
       (if sync_operation t \<in> set SYNC_ALL \<and> map_of (ss_sync_all_task_phase st) (task_id t) = Some key \<and>
           q \<in> set (sync_all_task_participants t (fst key))
        then Some (er_end_cycle r, task_id t) else arrival_of st key q))"
proof -
  let ?op = "sync_operation t" and ?token = "(er_end_cycle r, task_id t)"
  consider "?op \<in> set SET_LOCAL" | "?op \<in> set SET_CROSS" | "?op \<in> set WAIT_LOCAL" | "?op \<in> set WAIT_CROSS" | "?op \<in> set SYNC_ALL"
    | (other) "?op \<notin> set SET_LOCAL" "?op \<notin> set SET_CROSS" "?op \<notin> set WAIT_LOCAL" "?op \<notin> set WAIT_CROSS" "?op \<notin> set SYNC_ALL"
    by blast
  then show ?thesis
  proof cases
    case 1
    with assms obtain key where "st' = push_token key ?token st" by (auto simp: on_scheduled_def Let_def)
    then have "other_parts st' = other_parts st" by (simp add: push_token_def other_parts_def)
    with other_parts_views [OF this] ops_disjoint(1) [OF 1] show ?thesis
      by (simp add: collective_set_key_def collective_wait_key_def)
  next
    case 2
    note dis = ops_disjoint(2) [OF 2]
    have nl: "?op \<notin> set SET_LOCAL" using 2 ops_disjoint(1) by blast
    from assms 2 nl obtain mode where mode: "cross_mode t = Inr mode"
      and eff: "(if mode \<in> {0, 1} then on_collective_set st t mode r
          else and_then (cross_set_keys_mode2 t) (\<lambda>keys. for_each (push_cross ?token) st keys)) = Inr st'"
      by (auto simp: on_scheduled_def Let_def)
    show ?thesis
    proof (cases "mode \<in> {0, 1}")
      case True
      with eff obtain key where key: "collective_key_of t mode = Inr key"
        and eq: "st' = st\<lparr>ss_collective_ready := dict_set key (dict_set (participant_of t)
            (dict_get (dict_get (ss_collective_ready st) key []) (participant_of t) [] @ [?token])
            (dict_get (ss_collective_ready st) key [])) (ss_collective_ready st)\<rparr>"
        by (auto simp: on_collective_set_def Let_def split: if_splits)
      have "collective_set_key t = Some key" using 2 mode True key by (simp add: collective_set_key_def)
      with 2 dis nl eq show ?thesis
        by (auto simp: collective_wait_key_def ready_of_def phase_of_def arrival_of_def statics_def dict_get_set)
    next
      case False
      with eff obtain ks where ks: "cross_set_keys_mode2 t = Inr ks" "for_each (push_cross ?token) st ks = Inr st'"
        by auto
      from for_each_push_cross [OF ks(2) cross_keys_distinct(1) [OF ks(1)]] have same: "other_parts st' = other_parts st" by blast
      have "collective_set_key t = None" using False mode by (simp add: collective_set_key_def)
      with other_parts_views [OF same] dis show ?thesis by (simp add: collective_wait_key_def)
    qed
  next
    case 3
    have not: "?op \<notin> set SET_LOCAL" "?op \<notin> set SET_CROSS" using 3 ops_disjoint by blast+
    with assms 3 have "other_parts st' = other_parts st"
      by (auto simp: on_scheduled_def Let_def pop_token_Inr other_parts_def)
    with other_parts_views [OF this] ops_disjoint(3) [OF 3] not show ?thesis
      by (simp add: collective_set_key_def collective_wait_key_def)
  next
    case 4
    have not: "?op \<notin> set SET_LOCAL" "?op \<notin> set SET_CROSS" "?op \<notin> set WAIT_LOCAL" "?op \<notin> set SYNC_ALL"
      using 4 ops_disjoint by blast+
    with assms 4 obtain mode where mode: "cross_wait_mode (ss_cross_wait_modes st) t = Inr (Some mode)"
      and eff: "(if mode \<in> {0, 1} then and_then (collective_key_of t mode) (\<lambda>key.
            let entry = (key, participant_of t)
            in Inr (st\<lparr>ss_collective_wait_phase := dict_set entry
                 (dict_get (ss_collective_wait_phase st) entry 0 + 1) (ss_collective_wait_phase st)\<rparr>))
          else and_then (cross_wait_keys_mode2 t) (\<lambda>keys. for_each pop_token st keys)) = Inr st'"
      by (auto simp: on_scheduled_def Let_def split: option.splits)
    show ?thesis
    proof (cases "mode \<in> {0, 1}")
      case True
      with eff obtain key where key: "collective_key_of t mode = Inr key"
        and eq: "st' = st\<lparr>ss_collective_wait_phase := dict_set (key, participant_of t)
            (dict_get (ss_collective_wait_phase st) (key, participant_of t) 0 + 1) (ss_collective_wait_phase st)\<rparr>"
        by (auto simp: Let_def)
      have "collective_wait_key (ss_cross_wait_modes st) t = Some key"
        using 4 mode True key by (auto simp: collective_wait_key_def)
      with 4 not eq show ?thesis
        by (auto simp: collective_set_key_def ready_of_def phase_of_def arrival_of_def statics_def dict_get_set)
    next
      case False
      with eff obtain ks where ks: "cross_wait_keys_mode2 t = Inr ks" "for_each pop_token st ks = Inr st'" by auto
      from for_each_pop [OF ks(2) cross_keys_distinct(2) [OF ks(1)]] have same: "other_parts st' = other_parts st" by blast
      have "collective_wait_key (ss_cross_wait_modes st) t = None"
        using False mode by (auto simp: collective_wait_key_def)
      with other_parts_views [OF same] not show ?thesis by (simp add: collective_set_key_def)
    qed
  next
    case 5
    have not: "?op \<notin> set SET_LOCAL" "?op \<notin> set SET_CROSS" "?op \<notin> set WAIT_LOCAL" "?op \<notin> set WAIT_CROSS"
      using 5 ops_disjoint by blast+
    with assms 5 obtain key where key: "map_of (ss_sync_all_task_phase st) (task_id t) = Some key"
      and eff: "for_each (arrive t r key) (st\<lparr>ss_sync_all_arrivals := dict_setdefault key [] (ss_sync_all_arrivals st)\<rparr>)
         (sync_all_task_participants t (fst key)) = Inr st'"
      by (auto simp: on_scheduled_def Let_def split: option.splits)
    have "same_views (st\<lparr>ss_sync_all_arrivals := dict_setdefault key [] (ss_sync_all_arrivals st)\<rparr>) st" by simp
    with for_each_arrive [OF eff] 5 not key show ?thesis
      by (simp add: same_views_def collective_set_key_def collective_wait_key_def)
  next
    case other
    with assms have "st' = st" by (simp add: on_scheduled_def Let_def)
    with other show ?thesis by (simp add: collective_set_key_def collective_wait_key_def)
  qed
qed

end
