(* ===== verification/Sim_Flag_Protocol.thy ===== *)
theory Sim_Flag_Protocol
  imports Sim_Flags
begin

text \<open>
  The flag and barrier model interprets \<open>sync_protocol\<close>: its state is a function of the history, and
  every commit respects the abstract specification \<open>event_ok\<close> of event channels, collective flags,
  barriers and \<open>sync_all\<close>.
\<close>

section \<open>What an unblocked decision promises\<close>

lemma SyncDecision_ready: "SyncDecision (Some n) reason detail ids = Inr d \<Longrightarrow> sd_ready_cycle d = Some n"
  by (auto simp: SyncDecision_def split: if_splits)

lemma block_blocked: "block reason detail = Inr d \<Longrightarrow> sd_ready_cycle d = None"
  by (auto simp: block_def SyncDecision_def opt_negative_def)

lemma depth_block_blocked: "depth_block st t = Inr (Some d) \<Longrightarrow> sd_ready_cycle d = None"
  by (auto simp: depth_block_def Let_def dest: block_blocked split: if_splits)

lemma latest_end_bounds:
  assumes "\<forall>tid \<in> set tids. is_done completed tid" "latest_end completed tids \<le> c" "tid \<in> set tids"
  shows "ends_before completed tid c"
proof -
  from assms obtain r where r: "map_of completed tid = Some r" by (auto simp: is_done_def)
  have "end_of completed tid \<le> latest_end completed tids"
    unfolding latest_end_def using assms(3) by (intro max_default0_ge) simp
  with r assms(2) show ?thesis by (auto simp: ends_before_def end_of_def)
qed

lemma evaluate_release_ready:
  assumes "evaluate_release st key k = Inr (st', d)" "sd_ready_cycle d = Some c"
  shows "k \<le> c \<and> (\<exists>expected. map_of (ss_sync_all_expected st) (fst key) = Some expected \<and>
    (\<forall>q \<in> set expected. \<exists>cycle tid. arrival_of st key q = Some (cycle, tid) \<and> cycle \<le> c))"
proof -
  let ?arrivals = "dict_get (ss_sync_all_arrivals st) key []"
  obtain expected where e: "map_of (ss_sync_all_expected st) (fst key) = Some expected"
    using assms(1) by (auto simp: evaluate_release_def split: option.splits)
  let ?missing = "filter (\<lambda>p. map_of ?arrivals p = None) expected"
  have none: "?missing = []"
  proof (rule ccontr)
    assume "?missing \<noteq> []"
    with assms(1) e have "\<exists>detail. block ''sync_all'' detail = Inr d" by (auto simp: evaluate_release_def Let_def)
    with assms(2) block_blocked show False by fastforce
  qed
  from assms(1) e none obtain reason detail ids where
    "SyncDecision (Some (max k (Max (set (map (fst \<circ> snd) ?arrivals))))) reason detail ids = Inr d"
    by (auto simp: evaluate_release_def Let_def split: if_splits)
  then have c: "c = max k (Max (set (map (fst \<circ> snd) ?arrivals)))" using assms(2) SyncDecision_ready by fastforce
  have "\<exists>cycle tid. arrival_of st key q = Some (cycle, tid) \<and> cycle \<le> c" if "q \<in> set expected" for q
  proof -
    from that none obtain cycle tid where q: "map_of ?arrivals q = Some (cycle, tid)"
      by (fastforce simp: filter_empty_conv)
    then have "(q, cycle, tid) \<in> set ?arrivals" by (rule map_of_SomeD)
    then have "cycle \<in> set (map (fst \<circ> snd) ?arrivals)" by force
    then have "cycle \<le> Max (set (map (fst \<circ> snd) ?arrivals))" by (intro Max_ge) auto
    with q c show ?thesis by (simp add: arrival_of_def)
  qed
  with e c show ?thesis by auto
qed

lemma evaluate_wait_local_ready:
  assumes "evaluate_wait_local st t k = Inr d" "sd_ready_cycle d = Some c"
  shows "\<exists>key. local_flag_key t = Inr key \<and> tokens_of st key \<noteq> [] \<and> fst (hd (tokens_of st key)) \<le> c \<and> k \<le> c"
proof -
  obtain key where key: "local_flag_key t = Inr key" using assms(1) by (auto simp: evaluate_wait_local_def)
  show ?thesis
  proof (cases "tokens_of st key")
    case Nil
    with assms key block_blocked show ?thesis by (fastforce simp: evaluate_wait_local_def)
  next
    case (Cons token rest)
    then have "SyncDecision (Some (max k (fst token))) (Some ''local flag'') (format_flag_key key) [snd token] = Inr d"
      using assms(1) key by (simp add: evaluate_wait_local_def case_prod_unfold)
    from SyncDecision_ready [OF this] assms(2) key Cons show ?thesis by auto
  qed
qed

lemma evaluate_barrier_ready:
  assumes "evaluate_barrier st t completed k = Inr d" "sd_ready_cycle d = Some c"
  shows "k \<le> c \<and> (\<forall>tid \<in> set (dict_get (ss_barrier_dependencies st) (task_id t) []). ends_before completed tid c)"
proof -
  let ?required = "dict_get (ss_barrier_dependencies st) (task_id t) []"
  let ?missing = "filter (\<lambda>tid. \<not> is_done completed tid) ?required"
  have none: "?missing = []"
  proof (rule ccontr)
    assume "?missing \<noteq> []"
    with assms(1) have "block ''barrier'' (waiting_for ?missing) = Inr d" unfolding evaluate_barrier_def Let_def by (simp only: if_True not_False_eq_True)
    with assms(2) block_blocked show False by fastforce
  qed
  then have "SyncDecision (Some (max (latest_end completed ?required) k)) (Some ''barrier'') [] [] = Inr d"
    using assms(1) by (simp add: evaluate_barrier_def Let_def)
  then have "c = max (latest_end completed ?required) k" using assms(2) SyncDecision_ready by fastforce
  moreover have "\<forall>tid \<in> set ?required. is_done completed tid" using none by (simp add: filter_empty_conv)
  ultimately show ?thesis using latest_end_bounds by auto
qed

lemma evaluate_collective_ready:
  assumes "evaluate_collective_wait st t mode k = Inr (st', d)" "sd_ready_cycle d = Some c"
  shows "\<exists>key expected. collective_key_of t mode = Inr key \<and> collective_participants (ss_core_ids st) key = Inr expected \<and>
    k \<le> c \<and> (\<forall>q \<in> set expected. phase_of st key (participant_of t) < length (ready_of st key q) \<and>
      fst (ready_of st key q ! phase_of st key (participant_of t)) \<le> c)"
proof -
  obtain key expected where key: "collective_key_of t mode = Inr key"
    and expected: "collective_participants (ss_core_ids st) key = Inr expected"
    using assms(1) by (auto simp: evaluate_collective_wait_def)
  let ?phase = "dict_get (ss_collective_wait_phase st) (key, participant_of t) 0"
  let ?ready = "dict_get (ss_collective_ready st) key []"
  let ?missing = "filter (\<lambda>p. length (dict_get ?ready p []) \<le> ?phase) expected"
  let ?cycle = "\<lambda>p. fst (dict_get ?ready p [] ! ?phase)"
  have none: "?missing = []"
  proof (rule ccontr)
    assume "?missing \<noteq> []"
    with assms(1) key expected have "\<exists>detail. block ''cross flag'' detail = Inr d"
      by (auto simp: evaluate_collective_wait_def Let_def)
    with assms(2) block_blocked show False by fastforce
  qed
  have "\<exists>reason detail ids. SyncDecision (Some (max k (Max (?cycle ` set expected)))) reason detail ids = Inr d"
    using assms(1) key expected none by (fastforce simp: evaluate_collective_wait_def Let_def image_comp comp_def split: if_splits)
  then have c: "c = max k (Max (?cycle ` set expected))" using assms(2) SyncDecision_ready by fastforce
  have "?phase < length (dict_get ?ready q []) \<and> fst (dict_get ?ready q [] ! ?phase) \<le> c" if "q \<in> set expected" for q
  proof
    show "?phase < length (dict_get ?ready q [])" using none that by (auto simp: filter_empty_conv)
    have "?cycle q \<le> Max (?cycle ` set expected)" using that by (intro Max_ge) auto
    then show "?cycle q \<le> c" using c by simp
  qed
  with key expected c show ?thesis by (auto simp: ready_of_def phase_of_def)
qed

lemma evaluate_wait_cross_ready:
  assumes "evaluate_wait_cross st t k = Inr (st', d)" "sd_ready_cycle d = Some c" "sync_operation t \<in> set WAIT_CROSS"
  shows "k \<le> c \<and> (\<forall>key \<in> set (consumed_keys (ss_cross_wait_modes st) t). tokens_of st key \<noteq> [] \<and> fst (hd (tokens_of st key)) \<le> c) \<and>
    (\<forall>key. collective_wait_key (ss_cross_wait_modes st) t = Some key \<longrightarrow>
       (\<exists>expected. collective_participants (ss_core_ids st) key = Inr expected \<and>
          (\<forall>q \<in> set expected. phase_of st key (participant_of t) < length (ready_of st key q) \<and>
             fst (ready_of st key q ! phase_of st key (participant_of t)) \<le> c)))"
proof -
  let ?modes = "ss_cross_wait_modes st"
  have not_local: "sync_operation t \<notin> set WAIT_LOCAL" using assms(3) ops_disjoint by blast
  obtain mode where mode: "cross_wait_mode ?modes t = Inr mode"
    using assms(1) by (auto simp: evaluate_wait_cross_def)
  show ?thesis
  proof (cases mode)
    case None
    with assms mode block_blocked show ?thesis by (fastforce simp: evaluate_wait_cross_def)
  next
    case (Some m)
    show ?thesis
    proof (cases "m \<in> {0, 1}")
      case True
      with assms(1) mode Some have "evaluate_collective_wait st t m k = Inr (st', d)" by (simp add: evaluate_wait_cross_def)
      from evaluate_collective_ready [OF this assms(2)] obtain key expected where
        key: "collective_key_of t m = Inr key" "collective_participants (ss_core_ids st) key = Inr expected" "k \<le> c"
        "\<forall>q \<in> set expected. phase_of st key (participant_of t) < length (ready_of st key q) \<and>
          fst (ready_of st key q ! phase_of st key (participant_of t)) \<le> c"
        by blast
      have "consumed_keys ?modes t = []" using not_local assms(3) mode Some True by (simp add: consumed_keys_def keys_or_none_def)
      moreover have "collective_wait_key ?modes t = Some key"
        using assms(3) mode Some True key(1) by (auto simp: collective_wait_key_def)
      ultimately show ?thesis using key by auto
    next
      case False
      with assms(1) mode Some obtain keys where keys: "cross_wait_keys_mode2 t = Inr keys"
        by (auto simp: evaluate_wait_cross_def)
      let ?missing = "filter (\<lambda>key. tokens_of st key = []) keys" and ?cycle = "\<lambda>key. fst (hd (tokens_of st key))"
      have none: "?missing = []"
      proof (rule ccontr)
        assume "?missing \<noteq> []"
        with assms(1) mode Some False keys have "\<exists>detail. block ''cross flag'' detail = Inr d"
          by (auto simp: evaluate_wait_cross_def Let_def)
        with assms(2) block_blocked show False by fastforce
      qed
      have "\<exists>reason detail ids. SyncDecision (Some (max k (Max (?cycle ` set keys)))) reason detail ids = Inr d"
        using assms(1) mode Some False keys none
        by (fastforce simp: evaluate_wait_cross_def Let_def image_comp comp_def split: if_splits)
      then have c: "c = max k (Max (?cycle ` set keys))" using assms(2) SyncDecision_ready by fastforce
      have "tokens_of st key \<noteq> [] \<and> ?cycle key \<le> c" if "key \<in> set keys" for key
      proof
        show "tokens_of st key \<noteq> []" using none that by (auto simp: filter_empty_conv)
        have "?cycle key \<le> Max (?cycle ` set keys)" using that by (intro Max_ge) auto
        then show "?cycle key \<le> c" using c by simp
      qed
      moreover have "consumed_keys ?modes t = keys"
        using not_local assms(3) mode Some False keys by (simp add: consumed_keys_def keys_or_none_def)
      moreover have "collective_wait_key ?modes t = None" using mode Some False by (auto simp: collective_wait_key_def)
      ultimately show ?thesis using c by simp
    qed
  qed
qed

text \<open>Everything a task may rely on once \<open>evaluate\<close> lets it start at cycle \<open>c\<close>.\<close>

definition decision_ok :: "sync_state \<Rightarrow> task \<Rightarrow> completed \<Rightarrow> int \<Rightarrow> bool" where
  "decision_ok st t completed c \<longleftrightarrow>
     (\<forall>tid \<in> set (dict_get (ss_ordering_dependencies st) (task_id t) []). ends_before completed tid c) \<and>
     (case map_of (ss_sync_all_release st) (task_id t) of
        Some key \<Rightarrow> (\<exists>expected. map_of (ss_sync_all_expected st) (fst key) = Some expected \<and>
          (\<forall>q \<in> set expected. \<exists>cycle tid. arrival_of st key q = Some (cycle, tid) \<and> cycle \<le> c))
      | None \<Rightarrow>
          (\<forall>key \<in> set (consumed_keys (ss_cross_wait_modes st) t). tokens_of st key \<noteq> [] \<and> fst (hd (tokens_of st key)) \<le> c) \<and>
          (\<forall>key. collective_wait_key (ss_cross_wait_modes st) t = Some key \<longrightarrow>
             (\<exists>expected. collective_participants (ss_core_ids st) key = Inr expected \<and>
                (\<forall>q \<in> set expected. phase_of st key (participant_of t) < length (ready_of st key q) \<and>
                   fst (ready_of st key q ! phase_of st key (participant_of t)) \<le> c))) \<and>
          (sync_operation t \<in> set BARRIER_ALL \<or> sync_operation t \<in> set PIPE_BARRIER \<or> sync_operation t \<in> set SYNC_ALL \<longrightarrow>
             (\<forall>tid \<in> set (dict_get (ss_barrier_dependencies st) (task_id t) []). ends_before completed tid c)))"

lemma barrier_ops_disjoint:
  "op \<in> set WAIT_LOCAL \<Longrightarrow> \<not> (op \<in> set BARRIER_ALL \<or> op \<in> set PIPE_BARRIER \<or> op \<in> set SYNC_ALL)"
  "op \<in> set WAIT_CROSS \<Longrightarrow> \<not> (op \<in> set BARRIER_ALL \<or> op \<in> set PIPE_BARRIER \<or> op \<in> set SYNC_ALL)"
  by (auto simp: op_sets)

lemma evaluate_ready:
  assumes "evaluate st t completed = Inr (st', d)" "sd_ready_cycle d = Some c"
  shows "decision_ok st t completed c"
  using assms(1)
proof (cases rule: evaluate_cases)
  case order
  with assms(2) show ?thesis by (simp add: blocked_def)
next
  case (release key)
  with evaluate_release_ready [OF release(3) assms(2)] latest_end_bounds show ?thesis
    by (auto simp: decision_ok_def)
next
  case full
  with assms(2) depth_block_blocked show ?thesis by fastforce
next
  case wait_local
  from evaluate_wait_local_ready [OF wait_local(4) assms(2)] obtain key where
    key: "local_flag_key t = Inr key" "tokens_of st key \<noteq> []" "fst (hd (tokens_of st key)) \<le> c"
    "latest_end completed (dict_get (ss_ordering_dependencies st) (task_id t) []) \<le> c"
    by blast
  have "consumed_keys (ss_cross_wait_modes st) t = [key]"
    using wait_local(3) key(1) by (simp add: consumed_keys_def keys_or_none_def)
  moreover have "collective_wait_key (ss_cross_wait_modes st) t = None"
    using ops_disjoint(3) [OF wait_local(3)] by (simp add: collective_wait_key_def)
  ultimately show ?thesis
    using key latest_end_bounds [OF wait_local(1) key(4)] wait_local(2) barrier_ops_disjoint(1) [OF wait_local(3)]
    by (simp add: decision_ok_def)
next
  case wait_cross
  note w = evaluate_wait_cross_ready [OF wait_cross(4) assms(2) wait_cross(3)]
  show ?thesis unfolding decision_ok_def wait_cross(2) option.case
    using w latest_end_bounds [OF wait_cross(1) conjunct1 [OF w]] barrier_ops_disjoint(2) [OF wait_cross(3)] by blast
next
  case barrier
  note b = evaluate_barrier_ready [OF barrier(6) assms(2)]
  show ?thesis unfolding decision_ok_def barrier(2) option.case
    using b latest_end_bounds [OF barrier(1) conjunct1 [OF b]] barrier(4,5)
    by (simp add: consumed_keys_def collective_wait_key_def)
next
  case free
  then have "c = latest_end completed (dict_get (ss_ordering_dependencies st) (task_id t) [])"
    using assms(2) SyncDecision_ready by fastforce
  with free latest_end_bounds show ?thesis
    by (simp add: decision_ok_def consumed_keys_def collective_wait_key_def)
qed

section \<open>The abstract specification\<close>

definition token_of :: "task \<times> exec_record \<Rightarrow> token" where
  "token_of e = (er_end_cycle (snd e), task_id (fst e))"

definition sets_of :: "flag_key \<Rightarrow> history \<Rightarrow> token list" where
  "sets_of key h = map token_of (filter (\<lambda>e. key \<in> set (produced_keys (fst e))) h)"

definition waits_of :: "(wait_signature, int) dict \<Rightarrow> flag_key \<Rightarrow> history \<Rightarrow> nat" where
  "waits_of modes key h = length (filter (\<lambda>e. key \<in> set (consumed_keys modes (fst e))) h)"

definition collective_sets :: "collective_key \<Rightarrow> participant \<Rightarrow> history \<Rightarrow> token list" where
  "collective_sets key q h =
     map token_of (filter (\<lambda>e. collective_set_key (fst e) = Some key \<and> participant_of (fst e) = q) h)"

definition collective_waits :: "(wait_signature, int) dict \<Rightarrow> collective_key \<Rightarrow> participant \<Rightarrow> history \<Rightarrow> nat" where
  "collective_waits modes key q h =
     length (filter (\<lambda>e. collective_wait_key modes (fst e) = Some key \<and> participant_of (fst e) = q) h)"

text \<open>\<open>e\<close> brought participant \<open>q\<close> to the rendezvous \<open>key\<close>.\<close>

definition arrives :: "sync_state \<Rightarrow> sync_all_key \<Rightarrow> participant \<Rightarrow> task \<times> exec_record \<Rightarrow> bool" where
  "arrives st0 key q e \<longleftrightarrow> sync_operation (fst e) \<in> set SYNC_ALL \<and>
     map_of (ss_sync_all_task_phase st0) (task_id (fst e)) = Some key \<and> q \<in> set (sync_all_task_participants (fst e) (fst key))"

text \<open>
  What scheduling \<open>t\<close> with record \<open>r\<close> after the history \<open>h\<close> must respect; \<open>st0\<close> holds the tables
  \<open>reset\<close> computes from the program.
\<close>

definition event_ok :: "sync_state \<Rightarrow> history \<Rightarrow> task \<Rightarrow> exec_record \<Rightarrow> bool" where
  "event_ok st0 h t r \<longleftrightarrow>
     (\<forall>tid \<in> set (dict_get (ss_ordering_dependencies st0) (task_id t) []). ends_before (completed_of h) tid (er_start_cycle r)) \<and>
     (\<forall>key \<in> set (consumed_keys (ss_cross_wait_modes st0) t). waits_of (ss_cross_wait_modes st0) key h < length (sets_of key h)) \<and>
     (\<forall>core direction lane n. CrossFlag core direction lane n \<in> set (produced_keys t) \<longrightarrow> \<not> ss_flag_blocking st0 \<longrightarrow>
        length (sets_of (CrossFlag core direction lane n) h) <
          waits_of (ss_cross_wait_modes st0) (CrossFlag core direction lane n) h + MAX_CROSS_FLAG_CREDITS) \<and>
     (case map_of (ss_sync_all_release st0) (task_id t) of
        Some key \<Rightarrow> (\<exists>expected. map_of (ss_sync_all_expected st0) (fst key) = Some expected \<and>
          (\<forall>q \<in> set expected. \<exists>e \<in> set h. arrives st0 key q e \<and> er_end_cycle (snd e) \<le> er_start_cycle r))
      | None \<Rightarrow>
          (\<forall>key \<in> set (consumed_keys (ss_cross_wait_modes st0) t).
             fst (sets_of key h ! waits_of (ss_cross_wait_modes st0) key h) \<le> er_start_cycle r) \<and>
          (\<forall>key. collective_wait_key (ss_cross_wait_modes st0) t = Some key \<longrightarrow>
             (\<exists>expected. collective_participants (ss_core_ids st0) key = Inr expected \<and>
                (\<forall>q \<in> set expected. let n = collective_waits (ss_cross_wait_modes st0) key (participant_of t) h
                   in n < length (collective_sets key q h) \<and> fst (collective_sets key q h ! n) \<le> er_start_cycle r))) \<and>
          (sync_operation t \<in> set BARRIER_ALL \<or> sync_operation t \<in> set PIPE_BARRIER \<or> sync_operation t \<in> set SYNC_ALL \<longrightarrow>
             (\<forall>tid \<in> set (dict_get (ss_barrier_dependencies st0) (task_id t) []).
                ends_before (completed_of h) tid (er_start_cycle r))))"

definition history_ok :: "sync_state \<Rightarrow> history \<Rightarrow> bool" where
  "history_ok st0 h \<longleftrightarrow> (\<forall>i < length h. event_ok st0 (take i h) (fst (h ! i)) (snd (h ! i)))"

lemma history_ok_append:
  "history_ok st0 h \<Longrightarrow> event_ok st0 h t r \<Longrightarrow> history_ok st0 (h @ [(t, r)])"
  by (auto simp: history_ok_def nth_append less_Suc_eq)

section \<open>The state is a function of the history\<close>

definition abstracts :: "sync_state \<Rightarrow> sync_state \<Rightarrow> history \<Rightarrow> bool" where
  "abstracts st0 st h \<longleftrightarrow> statics st = statics st0 \<and>
     (\<forall>key. waits_of (ss_cross_wait_modes st0) key h \<le> length (sets_of key h) \<and>
        tokens_of st key = drop (waits_of (ss_cross_wait_modes st0) key h) (sets_of key h)) \<and>
     (\<forall>key q. ready_of st key q = collective_sets key q h) \<and>
     (\<forall>key q. phase_of st key q = collective_waits (ss_cross_wait_modes st0) key q h) \<and>
     (\<forall>key q cycle tid. arrival_of st key q = Some (cycle, tid) \<longrightarrow>
        (\<exists>e \<in> set h. arrives st0 key q e \<and> er_end_cycle (snd e) = cycle))"

lemma abstracts_views: "same_views st' st \<Longrightarrow> abstracts st0 st h \<Longrightarrow> abstracts st0 st' h"
  by (simp add: abstracts_def same_views_def)

lemma produced_consumed_disjoint: "k \<in> set (produced_keys t) \<Longrightarrow> consumed_keys modes t = []"
  using ops_disjoint(1,2) [of "sync_operation t"]
  by (auto simp: produced_keys_def consumed_keys_def split: if_splits)

lemma abstracts_commit:
  assumes abs: "abstracts st0 st h" and step: "on_scheduled st t r = Inr st'" and rid: "er_task_id r = task_id t"
  shows "abstracts st0 st' (h @ [(t, r)])"
proof -
  let ?modes = "ss_cross_wait_modes st0"
  have modes: "ss_cross_wait_modes st = ?modes" "ss_sync_all_task_phase st = ss_sync_all_task_phase st0" "statics st = statics st0"
    using abs by (auto simp: abstracts_def statics_eq)
  note tokens = on_scheduled_tokens [OF step, unfolded modes] and views = on_scheduled_views [OF step, unfolded modes]
  have old: "waits_of ?modes key h \<le> length (sets_of key h)" "tokens_of st key = drop (waits_of ?modes key h) (sets_of key h)" for key
    using abs by (auto simp: abstracts_def)
  have fifo: "waits_of ?modes key (h @ [(t, r)]) \<le> length (sets_of key (h @ [(t, r)])) \<and>
      tokens_of st' key = drop (waits_of ?modes key (h @ [(t, r)])) (sets_of key (h @ [(t, r)]))" for key
  proof (cases "key \<in> set (produced_keys t)")
    case True
    with produced_consumed_disjoint [OF True] tokens [of key] old [of key] show ?thesis
      by (simp add: waits_of_def sets_of_def token_of_def)
  next
    case False
    show ?thesis
    proof (cases "key \<in> set (consumed_keys ?modes t)")
      case True
      with False tokens [of key] have t: "tokens_of st key \<noteq> []" "tokens_of st' key = tl (tokens_of st key)" by auto
      then have "waits_of ?modes key h < length (sets_of key h)" unfolding old(2) by (simp add: not_le)
      with t True False old [of key] show ?thesis
        by (simp add: waits_of_def sets_of_def tl_drop drop_Suc [symmetric])
    next
      case no: False
      with False tokens [of key] old [of key] show ?thesis by (simp add: waits_of_def sets_of_def)
    qed
  qed
  have arr: "\<exists>e \<in> set (h @ [(t, r)]). arrives st0 key q e \<and> er_end_cycle (snd e) = cycle"
    if "arrival_of st' key q = Some (cycle, tid)" for key q cycle tid
  proof (cases "sync_operation t \<in> set SYNC_ALL \<and> map_of (ss_sync_all_task_phase st0) (task_id t) = Some key \<and>
      q \<in> set (sync_all_task_participants t (fst key))")
    case True
    with that views have "cycle = er_end_cycle r" by auto
    with True show ?thesis by (auto simp: arrives_def)
  next
    case False
    with that views have "arrival_of st key q = Some (cycle, tid)" by metis
    with abs show ?thesis unfolding abstracts_def by fastforce
  qed
  have "ready_of st' key q = collective_sets key q (h @ [(t, r)])"
    "phase_of st' key q = collective_waits ?modes key q (h @ [(t, r)])" for key q
    using views abs by (auto simp: abstracts_def collective_sets_def collective_waits_def token_of_def)
  with fifo arr views modes show ?thesis unfolding abstracts_def by metis
qed

lemma in_keys_or_none: "k \<in> set (keys_or_none r) \<longleftrightarrow> (\<exists>ks. r = Inr ks \<and> k \<in> set ks)"
  by (cases r) (auto simp: keys_or_none_def)

lemma cross_produced_by_cross_set:
  "CrossFlag core direction lane n \<in> set (produced_keys t) \<Longrightarrow> sync_operation t \<in> set SET_CROSS"
  by (auto simp: produced_keys_def in_keys_or_none local_flag_key_def Let_def split: if_splits)

lemma on_scheduled_cross_bound:
  assumes step: "on_scheduled st t r = Inr st'" and key: "CrossFlag core direction lane n \<in> set (produced_keys t)"
    and "\<not> ss_flag_blocking st"
  shows "length (tokens_of st (CrossFlag core direction lane n)) < MAX_CROSS_FLAG_CREDITS"
proof -
  have op: "sync_operation t \<in> set SET_CROSS" using key by (rule cross_produced_by_cross_set)
  then have nl: "sync_operation t \<notin> set SET_LOCAL" using ops_disjoint(1) by blast
  from key op nl obtain mode ks where mode: "cross_mode t = Inr mode" "mode \<notin> {0, 1}" "cross_set_keys_mode2 t = Inr ks"
    and k: "CrossFlag core direction lane n \<in> set ks"
    by (auto simp: produced_keys_def in_keys_or_none split: if_splits)
  with step op nl have "for_each (push_cross (er_end_cycle r, task_id t)) st ks = Inr st'"
    by (auto simp: on_scheduled_def Let_def split: if_splits)
  from for_each_push_cross [OF this cross_keys_distinct(1) [OF mode(3)]] k assms(3) show ?thesis by blast
qed

lemma ends_before_mono: "ends_before completed tid c \<Longrightarrow> c \<le> c' \<Longrightarrow> ends_before completed tid c'"
  by (auto simp: ends_before_def)

lemma event_ok_commit:
  assumes abs: "abstracts st0 st h" and dec: "decision_ok st t (completed_of h) c" and start: "c \<le> er_start_cycle r"
    and step: "on_scheduled st' t r = Inr st''" and views: "same_views st' st"
  shows "event_ok st0 h t r"
proof -
  let ?modes = "ss_cross_wait_modes st0"
  have statics: "ss_cross_wait_modes st = ?modes" "ss_ordering_dependencies st = ss_ordering_dependencies st0"
    "ss_sync_all_release st = ss_sync_all_release st0" "ss_sync_all_expected st = ss_sync_all_expected st0"
    "ss_core_ids st = ss_core_ids st0" "ss_barrier_dependencies st = ss_barrier_dependencies st0"
    "ss_flag_blocking st' = ss_flag_blocking st0" "ss_cross_wait_modes st' = ?modes"
    using abs views by (auto simp: abstracts_def same_views_def statics_eq)
  have tokens: "tokens_of st key = drop (waits_of ?modes key h) (sets_of key h)"
    "waits_of ?modes key h \<le> length (sets_of key h)" "tokens_of st' key = tokens_of st key" for key
    using abs views by (auto simp: abstracts_def same_views_def)
  have cons: "waits_of ?modes key h < length (sets_of key h)" if "key \<in> set (consumed_keys ?modes t)" for key
  proof -
    have "tokens_of st' key \<noteq> []" using on_scheduled_tokens [OF step, of key] that statics(8) by auto
    then show ?thesis unfolding tokens(3) tokens(1) by (simp add: not_le)
  qed
  have head: "fst (hd (tokens_of st key)) = fst (sets_of key h ! waits_of ?modes key h)"
    if "waits_of ?modes key h < length (sets_of key h)" for key
    using that by (simp add: tokens(1) hd_drop_conv_nth)
  have bound: "length (sets_of (CrossFlag core direction lane n) h) < waits_of ?modes (CrossFlag core direction lane n) h + MAX_CROSS_FLAG_CREDITS"
    if "CrossFlag core direction lane n \<in> set (produced_keys t)" "\<not> ss_flag_blocking st0" for core direction lane n
    using on_scheduled_cross_bound [OF step that(1)] that(2) statics(7) by (simp add: tokens less_diff_conv2)
  have arrivals: "\<exists>e \<in> set h. arrives st0 key q e \<and> er_end_cycle (snd e) = cycle"
    if "arrival_of st key q = Some (cycle, tid)" for key q cycle tid
    using abs that unfolding abstracts_def by blast
  have ready: "ready_of st key q = collective_sets key q h" "phase_of st key q = collective_waits ?modes key q h" for key q
    using abs by (auto simp: abstracts_def)
  have order: "\<forall>tid \<in> set (dict_get (ss_ordering_dependencies st0) (task_id t) []). ends_before (completed_of h) tid (er_start_cycle r)"
    using dec start ends_before_mono unfolding decision_ok_def statics by blast
  show ?thesis
  proof (cases "map_of (ss_sync_all_release st0) (task_id t)")
    case (Some key)
    with dec obtain expected where e: "map_of (ss_sync_all_expected st0) (fst key) = Some expected"
      "\<forall>q \<in> set expected. \<exists>cycle tid. arrival_of st key q = Some (cycle, tid) \<and> cycle \<le> c"
      unfolding decision_ok_def statics by auto
    have "\<forall>q \<in> set expected. \<exists>v \<in> set h. arrives st0 key q v \<and> er_end_cycle (snd v) \<le> er_start_cycle r"
    proof
      fix q
      assume "q \<in> set expected"
      with e(2) obtain cycle tid where "arrival_of st key q = Some (cycle, tid)" "cycle \<le> c" by blast
      with arrivals [OF this(1)] start show "\<exists>v \<in> set h. arrives st0 key q v \<and> er_end_cycle (snd v) \<le> er_start_cycle r"
        by fastforce
    qed
    with order cons bound e(1) Some show ?thesis unfolding event_ok_def by simp
  next
    case None
    with dec have d: "\<forall>key \<in> set (consumed_keys ?modes t). fst (hd (tokens_of st key)) \<le> c"
      "\<forall>key. collective_wait_key ?modes t = Some key \<longrightarrow>
         (\<exists>expected. collective_participants (ss_core_ids st0) key = Inr expected \<and>
            (\<forall>q \<in> set expected. phase_of st key (participant_of t) < length (ready_of st key q) \<and>
               fst (ready_of st key q ! phase_of st key (participant_of t)) \<le> c))"
      "sync_operation t \<in> set BARRIER_ALL \<or> sync_operation t \<in> set PIPE_BARRIER \<or> sync_operation t \<in> set SYNC_ALL \<longrightarrow>
         (\<forall>tid \<in> set (dict_get (ss_barrier_dependencies st0) (task_id t) []). ends_before (completed_of h) tid c)"
      unfolding decision_ok_def statics by auto
    have "\<forall>key \<in> set (consumed_keys ?modes t). fst (sets_of key h ! waits_of ?modes key h) \<le> er_start_cycle r"
      using d(1) head cons start by force
    moreover have "\<forall>key. collective_wait_key ?modes t = Some key \<longrightarrow>
         (\<exists>expected. collective_participants (ss_core_ids st0) key = Inr expected \<and>
            (\<forall>q \<in> set expected. let n = collective_waits ?modes key (participant_of t) h
               in n < length (collective_sets key q h) \<and> fst (collective_sets key q h ! n) \<le> er_start_cycle r))"
      using d(2) start unfolding ready Let_def by (meson order_trans)
    moreover have "sync_operation t \<in> set BARRIER_ALL \<or> sync_operation t \<in> set PIPE_BARRIER \<or> sync_operation t \<in> set SYNC_ALL \<longrightarrow>
         (\<forall>tid \<in> set (dict_get (ss_barrier_dependencies st0) (task_id t) []). ends_before (completed_of h) tid (er_start_cycle r))"
      using d(3) start ends_before_mono by blast
    ultimately show ?thesis using order cons bound None unfolding event_ok_def by simp
  qed
qed

section \<open>The flag model is a protocol\<close>

definition flag_related :: "bool \<Rightarrow> int \<Rightarrow> int \<Rightarrow> kernel_program \<Rightarrow> sync_state \<Rightarrow> history \<Rightarrow> bool" where
  "flag_related flag_blocking local_depth cross_depth p st h \<longleftrightarrow>
     (\<exists>st0. sync_reset flag_blocking local_depth cross_depth p = Inr st0 \<and> abstracts st0 st h \<and> history_ok st0 h)"

lemma reset_abstracts:
  assumes "sync_reset flag_blocking local_depth cross_depth p = Inr st"
  shows "abstracts st st [] \<and> history_ok st []"
proof -
  have "ss_tokens st = []" "ss_collective_ready st = []" "ss_collective_wait_phase st = []" "ss_sync_all_arrivals st = []"
    using assms by (auto simp: sync_reset_def Let_def split: prod.splits)
  then show ?thesis
    by (simp add: abstracts_def history_ok_def tokens_of_def ready_of_def phase_of_def arrival_of_def dict_get_def
        sets_of_def waits_of_def collective_sets_def collective_waits_def)
qed

interpretation flags: sync_protocol "flag_model flag_blocking local_depth cross_depth"
  "flag_related flag_blocking local_depth cross_depth" for flag_blocking local_depth cross_depth
proof (unfold_locales, goal_cases)
  case (1 p st)
  then show ?case using reset_abstracts by (auto simp: flag_model_def flag_related_def)
next
  case (2 p st h t st' d)
  then have "same_views st' st" by (simp add: flag_model_def evaluate_views)
  with 2 abstracts_views show ?case unfolding flag_related_def by blast
next
  case (3 p st h t st' d c r st'')
  then have eval: "evaluate st t (completed_of h) = Inr (st', d)" and step: "on_scheduled st' t r = Inr st''"
    by (simp_all add: flag_model_def)
  from 3(1) obtain st0 where st0: "sync_reset flag_blocking local_depth cross_depth p = Inr st0" "abstracts st0 st h" "history_ok st0 h"
    unfolding flag_related_def by blast
  note views = evaluate_views [OF eval]
  have "event_ok st0 h t r"
    by (rule event_ok_commit [OF st0(2) evaluate_ready [OF eval 3(3)] 3(4) step views])
  moreover have "abstracts st0 st'' (h @ [(t, r)])"
    by (rule abstracts_commit [OF abstracts_views [OF views st0(2)] step 3(5)])
  ultimately show ?case using st0 history_ok_append unfolding flag_related_def by blast
qed

section \<open>Properties\<close>


lemma residual_tokens_Nil:
  assumes "residual_tokens st = []"
  shows "tokens_of st (LocalFlag core lane src dst n) = []"
proof (rule ccontr)
  let ?key = "LocalFlag core lane src dst n"
  assume "tokens_of st ?key \<noteq> []"
  then have "map_of (ss_tokens st) ?key = Some (tokens_of st ?key)" "tokens_of st ?key \<noteq> []"
    by (auto simp: tokens_of_def dict_get_def split: option.splits)
  then have "(?key, tokens_of st ?key) \<in> set (ss_tokens st)" by (auto dest: map_of_SomeD)
  with \<open>tokens_of st ?key \<noteq> []\<close> assms show False
    by (auto simp: residual_tokens_def filter_empty_conv)
qed

lemma for_each_extends:
  assumes "for_each body (s :: 'a list) xs = Inr []" and "\<And>u x v. body u x = Inr v \<Longrightarrow> \<exists>w. v = u @ w"
  shows "s = []"
proof -
  have "\<exists>w. t = s @ w" if "for_each body s xs = Inr t" for t
    by (rule for_each_invariant [where P = "\<lambda>t. \<exists>w. t = s @ w", OF that]) (auto dest: assms(2))
  from this [OF assms(1)] show ?thesis by simp
qed

lemma flag_residual_Nil: "flag_residual st = Inr [] \<Longrightarrow> residual_tokens st = []"
proof -
  assume "flag_residual st = Inr []"
  then obtain residual where c: "for_each (residual_collective st) (residual_tokens st)
      (sort_key (collective_key_text \<circ> fst) (ss_collective_ready st)) = Inr residual"
    and a: "for_each (residual_sync_all st) residual (sort_key fst (ss_sync_all_arrivals st)) = Inr []"
    by (auto simp: flag_residual_def)
  have "residual = []"
    by (rule for_each_extends [OF a]) (auto simp: residual_sync_all_def Let_def split: option.splits if_splits prod.splits)
  with c have "for_each (residual_collective st) (residual_tokens st)
      (sort_key (collective_key_text \<circ> fst) (ss_collective_ready st)) = Inr []" by simp
  then show ?thesis
    by (rule for_each_extends) (auto simp: residual_collective_def split: prod.splits)
qed

text \<open>
  C6: When a run with \<open>flag_balance_check='error'\<close> returns, the local flags balance: the WAITs
  scheduled on a key are as many as its SETs, so every SET was consumed by exactly one WAIT.
\<close>

theorem balanced_local_flags:
  assumes "run (flag_model flag_blocking local_depth cross_depth) default_a2 (Some config) timed_out p bindings =
      Some (Inr (res, warning))"
    and "distinct (map task_id (program_tasks p))" and "sc_flag_balance_check config = ''error''"
  shows "\<exists>st0 h. sync_reset flag_blocking local_depth cross_depth p = Inr st0 \<and> set (map fst h) = set (program_tasks p) \<and>
    distinct (map (task_id \<circ> fst) h) \<and>
    (\<forall>core lane src dst n. waits_of (ss_cross_wait_modes st0) (LocalFlag core lane src dst n) h =
       length (sets_of (LocalFlag core lane src dst n) h))"
proof -
  from flags.run_history [OF assms(1,2)] obtain h config' and s :: "sync_state schedule_state" where
    h: "flag_related flag_blocking local_depth cross_depth p (sl_sync s) h"
      "set (map fst h) = set (program_tasks p)" "distinct (map (task_id \<circ> fst) h)"
    and audit: "run_audit (flag_model flag_blocking local_depth cross_depth) config' (sl_sync s) = Inr warning"
    and config: "\<forall>c. Some config = Some c \<longrightarrow> config' = c"
    by blast
  have "audit_flag_balance (sl_sync s) ''error'' = Inr warning"
    using audit config assms(3) by (simp add: run_audit_def flag_model_def)
  then have "flag_residual (sl_sync s) = Inr []"
    by (auto simp: audit_flag_balance_def Let_def split: if_splits)
  then have empty: "tokens_of (sl_sync s) (LocalFlag core lane src dst n) = []" for core lane src dst n
    by (intro residual_tokens_Nil flag_residual_Nil)
  from h(1) obtain st0 where st0: "sync_reset flag_blocking local_depth cross_depth p = Inr st0" "abstracts st0 (sl_sync s) h"
    unfolding flag_related_def by blast
  have "waits_of (ss_cross_wait_modes st0) (LocalFlag core lane src dst n) h = length (sets_of (LocalFlag core lane src dst n) h)"
    for core lane src dst n
    using st0(2) empty [of core lane src dst n] unfolding abstracts_def
    by (metis drop_eq_Nil le_antisym)
  with st0(1) h(2,3) show ?thesis by blast
qed

section \<open>Witnesses, and the release after \<open>sync_all\<close>\<close>


theorem balanced_local_flags_witness:
  "\<exists>st0 h. sync_reset False 1 15 fenced_program = Inr st0 \<and> set (map fst h) = set fenced_tasks \<and>
    waits_of (ss_cross_wait_modes st0) (LocalFlag 0 ''vector0'' ''mte2'' ''v'' 0) h =
      length (sets_of (LocalFlag 0 ''vector0'' ''mte2'' ''v'' 0) h)"
proof -
  have tasks: "program_tasks fenced_program = fenced_tasks" by (simp add: fenced_program_def program_tasks_def)
  have ids: "distinct (map task_id (program_tasks fenced_program))" unfolding tasks by code_simp
  have check: "sc_flag_balance_check sample_config = ''error''" by (simp add: sample_config_def)
  obtain res w where "run_sample fenced_program = Some (Inr (res, w))" using fenced_program_runs by blast
  from balanced_local_flags [OF this [unfolded run_sample_def] ids check] show ?thesis unfolding tasks by blast
qed

definition released_tasks :: "task list" where
  "released_tasks = [flag_task ''all0'' ''sync_all'' SCALAR [], (flag_task ''all1'' ''sync_all'' SCALAR [])\<lparr>task_lane := VECTOR_1\<rparr>,
     flag_task ''load'' ''copy'' MTE2 [], flag_task ''set'' ''set_flag'' MTE2 mte2_to_v,
     flag_task ''wait'' ''wait_flag'' VECTOR mte2_to_v, flag_task ''add'' ''add'' VECTOR []]"

definition released_program :: kernel_program where
  "released_program = \<lparr>kp_name = ''k'', kp_platform = ''A2'',
     kp_cores = [\<lparr>cp_core_id = 0, cp_tasks = released_tasks\<rparr>], kp_buffers = [], kp_metadata = []\<rparr>"

definition starts_before_end :: "exec_record list \<Rightarrow> string \<Rightarrow> string \<Rightarrow> bool" where
  "starts_before_end records a b \<longleftrightarrow> list_ex (\<lambda>x. er_task_id x = a \<and> list_ex (\<lambda>y. er_task_id y = b \<and>
     er_start_cycle x < er_end_cycle y) records) records"


end
