(* ===== verification/Sim_Trace.thy ===== *)
theory Sim_Trace
  imports Sim_Stats Sim_Fences
begin

text \<open>
  The Chrome trace exporter of \<^verbatim>\<open>tilelang/simulator/trace.py\<close>.  A trace event is a dictionary with
  a fixed set of keys, a record here, in which an absent optional key is \<open>None\<close>; \<open>event_json\<close>
  writes it out.  \<open>write\<close> only serialises the document to a file.
\<close>

section \<open>JSON values\<close>

text \<open>\<open>JFloat\<close> carries the text of a float of the metadata, \<open>JRat\<close> the exact value of a computed one.\<close>

datatype json =
    JNull
  | JBool bool
  | JInt int
  | JFloat string
  | JRat rat
  | JStr string
  | JArr "json list"
  | JObj "(string \<times> json) list"

definition TRACE_SCHEMA_VERSION :: string where
  "TRACE_SCHEMA_VERSION = ''1.0''"

text \<open>
  \<open>_json_safe\<close>: plain values stay, enums give their value, dataclasses the object of their
  fields, anything else its text; the text of a value that is no runtime integer is not carried by
  \<open>rt_int\<close> and comes out empty.
\<close>

definition affine_json :: "affine_int \<Rightarrow> json" where
  "affine_json a = JObj
     [(''terms'', JArr (map (\<lambda>(name, coefficient). JArr [JStr name, JInt coefficient]) (affine_terms a))),
      (''constant'', JInt (affine_constant a))]"

fun rt_json :: "rt_int \<Rightarrow> json" where
  "rt_json (RInt n) = JInt n"
| "rt_json (RBool b) = JBool b"
| "rt_json (RAffine a) = affine_json a"
| "rt_json (RSymbolic op arguments) =
     JObj [(''operation'', JStr op), (''arguments'', JArr (map rt_json arguments))]"
| "rt_json RNonInt = JStr []"

definition optional_json :: "('a \<Rightarrow> json) \<Rightarrow> 'a option \<Rightarrow> json" where
  "optional_json f v = (case v of None \<Rightarrow> JNull | Some x \<Rightarrow> f x)"

definition region_json :: "buffer_region \<Rightarrow> json" where
  "region_json r = JObj
     [(''buffer'', JStr (br_buffer r)), (''scope'', JStr (scope_value (br_scope r))),
      (''shape'', JArr (map rt_json (br_shape r))), (''dtype'', JStr (br_dtype r)),
      (''byte_offset'', rt_json (br_byte_offset r)),
      (''strides_bytes'', optional_json (\<lambda>strides. JArr (map rt_json strides)) (br_strides_bytes r)),
      (''core_id'', optional_json JInt (br_core_id r))]"

fun json_safe :: "pyval \<Rightarrow> json" where
  "json_safe PNone = JNull"
| "json_safe (PBool b) = JBool b"
| "json_safe (PInt n) = JInt n"
| "json_safe (PFloat t) = JFloat t"
| "json_safe (PStr s) = JStr s"
| "json_safe (PAffine a) = affine_json a"
| "json_safe (PSymbolic op arguments) = rt_json (RSymbolic op arguments)"
| "json_safe (PRegion r) = region_json r"
| "json_safe (PSeq items) = JArr (map json_safe items)"
| "json_safe (PMap d) = JObj (map (\<lambda>(key, item). (key, json_safe item)) d)"
| "json_safe (POther t) = JStr t"

section \<open>Events\<close>

record trace_event =
  te_name :: string
  te_cat :: "string option"
  te_ph :: string
  te_ts :: "int option"
  te_dur :: "int option"
  te_id :: "string option"
  te_bp :: "string option"
  te_pid :: string
  te_tid :: json
  te_args :: "(string, json) dict"

definition present :: "string \<Rightarrow> ('a \<Rightarrow> json) \<Rightarrow> 'a option \<Rightarrow> (string, json) dict" where
  "present key f v = (case v of None \<Rightarrow> [] | Some x \<Rightarrow> [(key, f x)])"

definition event_json :: "trace_event \<Rightarrow> json" where
  "event_json ev = JObj
     ([(''name'', JStr (te_name ev))] @ present ''cat'' JStr (te_cat ev) @ [(''ph'', JStr (te_ph ev))] @
      present ''bp'' JStr (te_bp ev) @ present ''id'' JStr (te_id ev) @ present ''ts'' JInt (te_ts ev) @
      present ''dur'' JInt (te_dur ev) @
      [(''pid'', JStr (te_pid ev)), (''tid'', te_tid ev), (''args'', JObj (te_args ev))])"

definition core_pid :: "int \<Rightarrow> string" where
  "core_pid core = ''core-'' @ str_of_int core"

definition metadata_event :: "string \<Rightarrow> string \<Rightarrow> json \<Rightarrow> (string, json) dict \<Rightarrow> trace_event" where
  "metadata_event name pid tid args = \<lparr>te_name = name, te_cat = None, te_ph = ''M'', te_ts = None,
     te_dur = None, te_id = None, te_bp = None, te_pid = pid, te_tid = tid, te_args = args\<rparr>"

definition counter_event :: "string \<Rightarrow> int \<Rightarrow> string \<Rightarrow> string \<Rightarrow> (string, json) dict \<Rightarrow> trace_event" where
  "counter_event name ts pid tid args = \<lparr>te_name = name, te_cat = Some ''counter'', te_ph = ''C'',
     te_ts = Some ts, te_dur = None, te_id = None, te_bp = None, te_pid = pid, te_tid = JStr tid,
     te_args = args\<rparr>"

section \<open>The active-core counter\<close>

text \<open>\<open>d.setdefault(k, []).append(x)\<close>.\<close>

definition dict_append :: "'k \<Rightarrow> 'a \<Rightarrow> ('k, 'a list) dict \<Rightarrow> ('k, 'a list) dict" where
  "dict_append k x d = dict_set k (dict_get d k [] @ [x]) d"

definition record_interval :: "exec_record \<Rightarrow> interval" where
  "record_interval r = (er_start_cycle r, er_end_cycle r)"

definition runs_operation :: "exec_record \<Rightarrow> bool" where
  "runs_operation r \<longleftrightarrow> \<not> (er_category r \<noteq> ''operation'' \<or> er_duration_cycles r = 0)"

definition group_by_core :: "(exec_record \<Rightarrow> bool) \<Rightarrow> exec_record list \<Rightarrow> (int, interval list) dict" where
  "group_by_core keep records =
     foldl (\<lambda>d r. if keep r then dict_append (er_core_id r) (record_interval r) d else d) [] records"

definition intervals_by_core :: "exec_record list \<Rightarrow> (int, interval list) dict" where
  "intervals_by_core records = group_by_core runs_operation records"

definition core_transitions :: "(int, int) dict \<Rightarrow> interval list \<Rightarrow> (int, int) dict" where
  "core_transitions transitions intervals =
     foldl (\<lambda>d (start, stop). dict_add stop (- 1) (dict_add start 1 d)) transitions (merge_intervals intervals)"

definition active_transitions :: "exec_record list \<Rightarrow> (int, int) dict" where
  "active_transitions records = foldl core_transitions [] (map snd (intervals_by_core records))"

fun running :: "int \<Rightarrow> (int \<times> int) list \<Rightarrow> (int \<times> int) list" where
  "running active [] = []"
| "running active ((cycle, delta) # rest) = (cycle, active + delta) # running (active + delta) rest"

definition active_core_event :: "int \<times> int \<Rightarrow> trace_event" where
  "active_core_event = (\<lambda>(cycle, active).
     counter_event ''active_cores'' cycle ''simulator'' ''counters'' [(''active_cores'', JInt active)])"

definition active_core_events :: "exec_record list \<Rightarrow> trace_event list" where
  "active_core_events records = map active_core_event (running 0 (sort (active_transitions records)))"

section \<open>The queue-depth counters\<close>

text \<open>The cycle at which a record's task began to wait behind FIFO work, when it did.\<close>

definition queued_at :: "exec_record \<Rightarrow> int option" where
  "queued_at r =
     (case py_int (md_get (er_metadata r) ''queue_enter_cycle'') of
        None \<Rightarrow> None
      | Some n \<Rightarrow> if n \<ge> er_start_cycle r then None else Some n)"

type_synonym queue_key = "int \<times> string \<times> int"

definition queue_step :: "(queue_key, int) dict \<Rightarrow> exec_record \<Rightarrow> (queue_key, int) dict" where
  "queue_step transitions r =
     (if er_category r \<noteq> ''operation'' then transitions
      else case queued_at r of
        None \<Rightarrow> transitions
      | Some n \<Rightarrow> dict_add (er_core_id r, er_resource r, er_start_cycle r) (- 1)
                    (dict_add (er_core_id r, er_resource r, n) 1 transitions))"

definition queue_transitions :: "exec_record list \<Rightarrow> (queue_key, int) dict" where
  "queue_transitions records = foldl queue_step [] records"

fun depth_samples ::
  "(int \<times> string, int) dict \<Rightarrow> (queue_key \<times> int) list \<Rightarrow> (queue_key \<times> int) list" where
  "depth_samples depths [] = []"
| "depth_samples depths (((core, resource, cycle), delta) # rest) =
     (let depths' = dict_add (core, resource) delta depths
      in ((core, resource, cycle), dict_get depths' (core, resource) 0) # depth_samples depths' rest)"

definition queue_depth_event :: "queue_key \<times> int \<Rightarrow> trace_event" where
  "queue_depth_event = (\<lambda>((core, resource, cycle), depth).
     counter_event ''queue_depth'' cycle (core_pid core) resource [(''queue_depth'', JInt depth)])"

definition queue_depth_events :: "exec_record list \<Rightarrow> trace_event list" where
  "queue_depth_events records = map queue_depth_event (depth_samples [] (sort (queue_transitions records)))"

section \<open>The document\<close>

record exporter =
  ex_platform :: string
  ex_calibration :: string
  ex_timing_limitations :: "string list"

record trace_document =
  td_schemaVersion :: string
  td_traceEvents :: "trace_event list"
  td_displayTimeUnit :: string

definition header_events :: "exporter \<Rightarrow> trace_event list" where
  "header_events ex =
     [metadata_event ''process_name'' ''simulator'' (JInt 0)
        [(''name'', JStr (''TileLang Ascend '' @ ex_platform ex @ '' simulator''))],
      metadata_event ''simulator_metadata'' ''simulator'' (JInt 0)
        [(''schema_version'', JStr TRACE_SCHEMA_VERSION), (''platform'', JStr (ex_platform ex)),
         (''timestamp_unit'', JStr ''simulator_cycle''), (''calibration'', JStr (ex_calibration ex)),
         (''timing_limitations'', JArr (map JStr (ex_timing_limitations ex)))]]"

definition thread_events :: "exec_record list \<Rightarrow> trace_event list" where
  "thread_events records =
     map (\<lambda>(core, resource). metadata_event ''thread_name'' (core_pid core) (JStr resource)
            [(''name'', JStr resource)])
       (sorted_list_of_set (set (map (\<lambda>r. (er_core_id r, er_resource r)) records)))"

definition memory_event :: "int \<times> (string, int) dict \<Rightarrow> trace_event" where
  "memory_event = (\<lambda>(cycle, usage). counter_event ''live_local_memory_bytes'' cycle ''simulator'' ''counters''
     (map (\<lambda>(scope, n). (scope, JInt n)) usage))"

definition record_event :: "exec_record \<Rightarrow> trace_event" where
  "record_event r =
     (let args = map (\<lambda>(key, item). (key, json_safe item)) (er_metadata r);
          args = dict_set ''task_id'' (JStr (er_task_id r)) args;
          args = dict_set ''cycle_begin'' (JInt (er_start_cycle r)) args;
          args = dict_set ''cycle_end'' (JInt (er_end_cycle r)) args;
          args = (case er_stall_reason r of
                    None \<Rightarrow> args | Some reason \<Rightarrow> dict_set ''stall_reason'' (JStr reason) args)
      in \<lparr>te_name = er_operation r, te_cat = Some (er_category r), te_ph = ''X'',
          te_ts = Some (er_start_cycle r), te_dur = Some (er_duration_cycles r), te_id = None,
          te_bp = None, te_pid = core_pid (er_core_id r), te_tid = JStr (er_resource r), te_args = args\<rparr>)"

text \<open>\<open>{record.task_id: record for record in records if record.category == "operation"}\<close>.\<close>

definition records_by_id :: "exec_record list \<Rightarrow> (string, exec_record) dict" where
  "records_by_id records =
     foldl (\<lambda>d r. dict_set (er_task_id r) r d) [] (filter (\<lambda>r. er_category r = ''operation'') records)"

definition flow_pair :: "string \<Rightarrow> exec_record \<Rightarrow> exec_record \<Rightarrow> trace_event list" where
  "flow_pair flow_name producer consumer =
     (let flow_id = flow_name @ '':'' @ er_task_id producer @ '':'' @ er_task_id consumer;
          args = [(''from'', JStr (er_task_id producer)), (''to'', JStr (er_task_id consumer))]
      in [\<lparr>te_name = flow_name, te_cat = Some ''dependency'', te_ph = ''s'',
           te_ts = Some (er_end_cycle producer), te_dur = None, te_id = Some flow_id, te_bp = None,
           te_pid = core_pid (er_core_id producer), te_tid = JStr (er_resource producer), te_args = args\<rparr>,
          \<lparr>te_name = flow_name, te_cat = Some ''dependency'', te_ph = ''f'',
           te_ts = Some (er_start_cycle consumer), te_dur = None, te_id = Some flow_id, te_bp = Some ''e'',
           te_pid = core_pid (er_core_id consumer), te_tid = JStr (er_resource consumer), te_args = args\<rparr>])"

definition producer_flows ::
  "(string, exec_record) dict \<Rightarrow> string \<Rightarrow> exec_record \<Rightarrow> pyval \<Rightarrow> trace_event list" where
  "producer_flows by_id flow_name consumer producer_id =
     (case map_of by_id (py_str producer_id) of
        None \<Rightarrow> []
      | Some producer \<Rightarrow> flow_pair flow_name producer consumer)"

definition group_flows ::
  "(string, exec_record) dict \<Rightarrow> exec_record \<Rightarrow> string \<times> string \<Rightarrow> trace_event list res" where
  "group_flows by_id consumer = (\<lambda>(flow_name, key).
     map_sum id (\<lambda>producer_ids. concat (map (producer_flows by_id flow_name consumer) producer_ids))
       (py_iter (dict_get (er_metadata consumer) key (PSeq []))))"

definition dependency_groups :: "(string \<times> string) list" where
  "dependency_groups =
     [(''memory_dependency'', ''memory_dependencies''), (''flag_dependency'', ''sync_producers'')]"

definition consumer_flows :: "(string, exec_record) dict \<Rightarrow> exec_record \<Rightarrow> trace_event list res" where
  "consumer_flows by_id consumer = map_sum id concat (map_res (group_flows by_id consumer) dependency_groups)"

definition flow_events :: "exec_record list \<Rightarrow> trace_event list res" where
  "flow_events records =
     (let by_id = records_by_id records
      in map_sum id concat (map_res (consumer_flows by_id) (map snd by_id)))"

definition trace_to_dict ::
  "exporter \<Rightarrow> exec_record list \<Rightarrow> (int \<times> (string, int) dict) list \<Rightarrow> trace_document res" where
  "trace_to_dict ex records local_memory_timeline =
     (case flow_events records of
        Inl e \<Rightarrow> Inl e
      | Inr flows \<Rightarrow>
          Inr \<lparr>td_schemaVersion = TRACE_SCHEMA_VERSION,
               td_traceEvents = header_events ex @ thread_events records @ active_core_events records @
                 queue_depth_events records @ map memory_event local_memory_timeline @
                 map record_event records @ flows,
               td_displayTimeUnit = ''ns''\<rparr>)"

definition trace_json :: "trace_document \<Rightarrow> json" where
  "trace_json doc = JObj
     [(''schemaVersion'', JStr (td_schemaVersion doc)),
      (''traceEvents'', JArr (map event_json (td_traceEvents doc))),
      (''displayTimeUnit'', JStr (td_displayTimeUnit doc))]"

end
