(* ===== verification/Sim_Floats.thy ===== *)
theory Sim_Floats
  imports Complex_Main Sim_Prelude
begin

text \<open>
  IEEE binary floating point on exact rationals: rounding to nearest, ties to even, with a
  significand of \<open>p\<close> bits.  The exponent range is not bounded; the sources stay far from
  overflow and from subnormal numbers.
\<close>

definition round_half_even :: "rat \<Rightarrow> int" where
  "round_half_even x =
     (let below = \<lfloor>x\<rfloor>; rest = x - rat_of_int below
      in if rest < 1 / 2 then below
         else if rest > 1 / 2 then below + 1
         else if even below then below else below + 1)"

fun log2_floor :: "nat \<Rightarrow> nat" where
  "log2_floor n = (if n < 2 then 0 else Suc (log2_floor (n div 2)))"

declare log2_floor.simps [simp del]

definition log2_ceil :: "nat \<Rightarrow> nat" where
  "log2_ceil n = (if n \<le> 1 then 0 else Suc (log2_floor (n - 1)))"

text \<open>The exponent of a positive rational: \<open>2 ^ e \<le> x < 2 ^ (e + 1)\<close>.\<close>

definition float_exponent :: "rat \<Rightarrow> int" where
  "float_exponent x =
     (if 1 \<le> x then int (log2_floor (nat \<lfloor>x\<rfloor>)) else - int (log2_ceil (nat \<lceil>1 / x\<rceil>)))"

definition pow2 :: "int \<Rightarrow> rat" where
  "pow2 e = (if 0 \<le> e then 2 ^ nat e else 1 / 2 ^ nat (- e))"

definition fl :: "nat \<Rightarrow> rat \<Rightarrow> rat" where
  "fl p x =
     (if x = 0 then 0
      else let ulp = pow2 (float_exponent \<bar>x\<bar> - int p + 1)
           in sgn x * rat_of_int (round_half_even (\<bar>x\<bar> / ulp)) * ulp)"

abbreviation f32 :: "rat \<Rightarrow> rat" where
  "f32 \<equiv> fl 24"

abbreviation f64 :: "rat \<Rightarrow> rat" where
  "f64 \<equiv> fl 53"

lemma round_half_even_near: "\<bar>rat_of_int (round_half_even x) - x\<bar> \<le> 1 / 2"
proof -
  have bounds: "0 \<le> x - rat_of_int \<lfloor>x\<rfloor>" "x - rat_of_int \<lfloor>x\<rfloor> < 1"
    using floor_correct [of x] by simp_all
  consider "round_half_even x = \<lfloor>x\<rfloor>" "x - rat_of_int \<lfloor>x\<rfloor> \<le> 1 / 2"
    | "round_half_even x = \<lfloor>x\<rfloor> + 1" "1 / 2 \<le> x - rat_of_int \<lfloor>x\<rfloor>"
    unfolding round_half_even_def Let_def by (metis linorder_not_less order_less_imp_le)
  then show ?thesis
  proof cases
    case 1
    with bounds show ?thesis unfolding 1(1) abs_le_iff by linarith
  next
    case 2
    with bounds show ?thesis unfolding 2(1) abs_le_iff of_int_add of_int_1 by linarith
  qed
qed

lemma round_half_even_of_int [simp]: "round_half_even (rat_of_int n) = n"
  by (simp add: round_half_even_def)

lemma round_half_even_nonneg: "0 \<le> x \<Longrightarrow> 0 \<le> round_half_even x"
  by (auto simp: round_half_even_def Let_def)

lemma pow2_pos [simp]: "0 < pow2 e"
  by (simp add: pow2_def)

lemma fl_nonneg: "0 \<le> x \<Longrightarrow> 0 \<le> fl p x"
  by (auto simp: fl_def Let_def less_imp_le [OF pow2_pos]
      intro!: mult_nonneg_nonneg round_half_even_nonneg divide_nonneg_nonneg)

text \<open>Rounding moves a number by at most half a unit in the last place.\<close>

lemma fl_error: "\<bar>fl p x - x\<bar> \<le> pow2 (float_exponent \<bar>x\<bar> - int p + 1) / 2"
proof (cases "x = 0")
  case True
  then show ?thesis by (simp add: fl_def less_imp_le)
next
  case False
  let ?u = "pow2 (float_exponent \<bar>x\<bar> - int p + 1)"
  have "fl p x - x = sgn x * (rat_of_int (round_half_even (\<bar>x\<bar> / ?u)) - \<bar>x\<bar> / ?u) * ?u"
    using False less_imp_neq [OF pow2_pos, symmetric]
    by (simp add: fl_def Let_def right_diff_distrib left_diff_distrib) (simp add: sgn_if)
  then have "\<bar>fl p x - x\<bar> = \<bar>rat_of_int (round_half_even (\<bar>x\<bar> / ?u)) - \<bar>x\<bar> / ?u\<bar> * ?u"
    using False by (simp add: abs_mult abs_sgn_eq less_imp_le)
  also have "\<dots> \<le> 1 / 2 * ?u" by (intro mult_right_mono round_half_even_near less_imp_le [OF pow2_pos])
  finally show ?thesis by simp
qed

end
