(* ===== verification/Sim_Report.thy ===== *)
theory Sim_Report
  imports Sim_Scheduler Sim_Trace Sim_Floats
begin

text \<open>
  \<^verbatim>\<open>tilelang/simulator/report.py\<close>: the performance report of a schedule.  The dictionaries it builds
  have fixed keys and are records here; a float is the exact rational it approximates.
  \<open>write_json\<close> only serialises the document to a file.
\<close>

section \<open>Documents\<close>

definition REPORT_SCHEMA_VERSION :: string where
  "REPORT_SCHEMA_VERSION = ''1.0''"

record chain_step =
  cs_task_id :: string
  cs_operation :: string
  cs_resource :: string
  cs_start_cycle :: int
  cs_end_cycle :: int
  cs_duration_cycles :: int
  cs_to_successor :: "string option"

record chain_summary =
  cc_scope :: string
  cc_terminal_task_id :: string
  cc_span_cycles :: int
  cc_operation_cycles :: int
  cc_steps :: "chain_step list"

text \<open>The two values of \<open>"status"\<close>, with the entries that go with each.\<close>

datatype critical_path = Unavailable string | ScheduleDerived chain_summary

record performance_report =
  pr_platform :: string
  pr_calibration :: string
  pr_timing_estimator :: string
  pr_sync_only :: bool
  pr_trace_path :: "string option"
  pr_stats :: simulation_stats
  pr_critical_path :: critical_path
  pr_schedule_records :: "exec_record list"
  pr_timing_limitations :: "string list"

section \<open>The critical chain\<close>

text \<open>\<open>max(x, *xs, key=f)\<close>: the first of the largest.\<close>

fun max_key :: "('a \<Rightarrow> 'b :: linorder) \<Rightarrow> 'a \<Rightarrow> 'a list \<Rightarrow> 'a" where
  "max_key f x [] = x"
| "max_key f x (y # ys) = max_key f (if f x < f y then y else x) ys"

type_synonym candidate = "int \<times> string \<times> string \<times> exec_record"

text \<open>
  The tuples compare by end cycle, kind and task id; two that agree there hold the same record,
  since \<open>operations\<close> has one record per task id.
\<close>

definition candidate_key :: "candidate \<Rightarrow> int \<times> string \<times> string" where
  "candidate_key = (\<lambda>(end_cycle, kind, tid, _). (end_cycle, kind, tid))"

definition kind_candidates ::
  "(string, exec_record) dict \<Rightarrow> string list \<Rightarrow> exec_record \<Rightarrow> string \<Rightarrow> pyval \<Rightarrow> candidate list" where
  "kind_candidates operations visited current kind task_ids =
     (case task_ids of
        PSeq ids \<Rightarrow> concat (map (\<lambda>tid.
          case map_of operations (py_str tid) of
            None \<Rightarrow> []
          | Some predecessor \<Rightarrow>
              if er_task_id predecessor \<notin> set visited \<and> er_end_cycle predecessor \<le> er_start_cycle current
              then [(er_end_cycle predecessor, kind, er_task_id predecessor, predecessor)] else []) ids)
      | _ \<Rightarrow> [])"

definition candidates ::
  "(string, exec_record) dict \<Rightarrow> string list \<Rightarrow> exec_record \<Rightarrow> candidate list" where
  "candidates operations visited current =
     (case dict_get (er_metadata current) ''critical_predecessors'' (PMap []) of
        PMap raw_predecessors \<Rightarrow>
          concat (map (\<lambda>(kind, task_ids). kind_candidates operations visited current kind task_ids) raw_predecessors)
      | _ \<Rightarrow> [])"

lemma candidates_member:
  assumes "(stop, kind, tid, p) \<in> set (candidates operations visited current)"
  shows "p \<in> snd ` set operations \<and> er_task_id p \<notin> set visited \<and> tid = er_task_id p \<and>
    stop = er_end_cycle p \<and> er_end_cycle p \<le> er_start_cycle current"
proof -
  from assms obtain task_ids where "(stop, kind, tid, p) \<in> set (kind_candidates operations visited current kind task_ids)"
    by (auto simp: candidates_def kind_candidates_def split: pyval.splits option.splits if_splits)
  then show ?thesis
    by (auto simp: kind_candidates_def split: pyval.splits option.splits if_splits
        dest!: map_of_SomeD [OF sym] intro: rev_image_eqI)
qed

lemma max_key_member: "max_key f x xs \<in> set (x # xs)"
  by (induction f x xs rule: max_key.induct) (auto split: if_splits)

text \<open>The loop: every round visits one more record, so there are at most as many as operations.\<close>

function chain_back ::
  "(string, exec_record) dict \<Rightarrow> string list \<Rightarrow> exec_record \<Rightarrow> (exec_record \<times> string option) list \<Rightarrow>
     (exec_record \<times> string option) list" where
  "chain_back operations visited current reverse_chain =
     (case candidates operations visited current of
        [] \<Rightarrow> reverse_chain
      | c # cs \<Rightarrow>
          (case max_key candidate_key c cs of
             (_, kind, _, predecessor) \<Rightarrow>
               chain_back operations (er_task_id predecessor # visited) predecessor
                 (reverse_chain @ [(predecessor, Some kind)])))"
  by pat_completeness auto
termination
proof (relation "measure (\<lambda>(operations, visited, _, _). card (er_task_id ` snd ` set operations - set visited))",
    goal_cases)
  case (2 operations visited current reverse_chain c cs stop rest kind rest' tid p)
  have "(stop, kind, tid, p) \<in> set (candidates operations visited current)"
    using 2 max_key_member [of candidate_key c cs] by simp
  from candidates_member [OF this]
  have "er_task_id p \<in> er_task_id ` snd ` set operations - set visited" by blast
  then have "card (er_task_id ` snd ` set operations - set visited - {er_task_id p}) <
      card (er_task_id ` snd ` set operations - set visited)"
    by (intro card_Diff1_less) auto
  moreover have "er_task_id ` snd ` set operations - set (er_task_id p # visited) =
      er_task_id ` snd ` set operations - set visited - {er_task_id p}" by auto
  ultimately show ?case by (simp only: in_measure prod.case)
qed simp

declare chain_back.simps [simp del]

definition chain_scope :: string where
  "chain_scope = ''explicit execution dependencies, same-resource FIFO order, and '' @
     ''matched synchronization producers only; not a hardware timing proof''"

definition chain_steps :: "(exec_record \<times> string option) list \<Rightarrow> chain_step list" where
  "chain_steps chain = map (\<lambda>(index, (r, relationship_to_successor)).
     \<lparr>cs_task_id = er_task_id r, cs_operation = er_operation r, cs_resource = resource_name r,
      cs_start_cycle = er_start_cycle r, cs_end_cycle = er_end_cycle r,
      cs_duration_cycles = er_duration_cycles r,
      cs_to_successor = (if index + 1 < int (length chain) then relationship_to_successor else None)\<rparr>)
     (enumerated chain)"

definition terminal_key :: "exec_record \<Rightarrow> int \<times> int \<times> string" where
  "terminal_key r = (er_end_cycle r, er_start_cycle r, er_task_id r)"

definition critical_chain :: "exec_record list \<Rightarrow> critical_path" where
  "critical_chain records =
     (let operations = records_by_id records
      in case map snd operations of
           [] \<Rightarrow> Unavailable ''schedule contains no operation records''
         | r # rs \<Rightarrow>
             (let current = max_key terminal_key r rs;
                  chain = rev (chain_back operations [er_task_id current] current [(current, None)]);
                  first = fst (hd chain); terminal = fst (last chain)
              in ScheduleDerived
                   \<lparr>cc_scope = chain_scope, cc_terminal_task_id = er_task_id terminal,
                    cc_span_cycles = er_end_cycle terminal - er_start_cycle first,
                    cc_operation_cycles = sum_list (map (\<lambda>(r, _). er_duration_cycles r) chain),
                    cc_steps = chain_steps chain\<rparr>))"

section \<open>Construction\<close>

definition from_stats :: "simulation_stats \<Rightarrow> simulator_config \<Rightarrow> string option \<Rightarrow> performance_report" where
  "from_stats stats config trace_path =
     \<lparr>pr_platform = sc_platform config, pr_calibration = tp_calibration (sc_timing_profile config),
      pr_timing_estimator = tp_estimator (sc_timing_profile config), pr_sync_only = sc_sync_only config,
      pr_trace_path = trace_path, pr_stats = stats,
      pr_critical_path = Unavailable ''a schedule result is required for critical-chain extraction'',
      pr_schedule_records = [], pr_timing_limitations = []\<rparr>"

definition from_schedule :: "schedule_result \<Rightarrow> simulator_config \<Rightarrow> string option \<Rightarrow> performance_report" where
  "from_schedule result config trace_path =
     \<lparr>pr_platform = sc_platform config, pr_calibration = tp_calibration (sc_timing_profile config),
      pr_timing_estimator = tp_estimator (sc_timing_profile config), pr_sync_only = sc_sync_only config,
      pr_trace_path = trace_path, pr_stats = sr_stats result,
      pr_critical_path = critical_chain (sr_records result),
      pr_schedule_records = sr_records result, pr_timing_limitations = []\<rparr>"

definition operation_records :: "performance_report \<Rightarrow> exec_record list" where
  "operation_records rep = filter (\<lambda>r. er_category r = ''operation'') (pr_schedule_records rep)"

section \<open>Inactive intervals\<close>

record inactive_interval =
  ii_core_id :: int
  ii_start_cycle :: int
  ii_end_cycle :: int
  ii_duration_cycles :: int

definition inactive :: "int \<Rightarrow> int \<Rightarrow> int \<Rightarrow> inactive_interval" where
  "inactive core start stop = \<lparr>ii_core_id = core, ii_start_cycle = start, ii_end_cycle = stop,
     ii_duration_cycles = stop - start\<rparr>"

fun core_gaps :: "int \<Rightarrow> int \<Rightarrow> int \<Rightarrow> interval list \<Rightarrow> inactive_interval list" where
  "core_gaps core makespan cursor [] = (if cursor < makespan then [inactive core cursor makespan] else [])"
| "core_gaps core makespan cursor ((start, stop) # rest) =
     (if start > cursor then [inactive core cursor start] else []) @
     core_gaps core makespan (max cursor stop) rest"

definition has_duration :: "exec_record \<Rightarrow> bool" where
  "has_duration r \<longleftrightarrow> er_duration_cycles r \<noteq> 0"

definition inactive_intervals :: "performance_report \<Rightarrow> inactive_interval list" where
  "inactive_intervals rep =
     concat (map (\<lambda>(core, raw_intervals).
         core_gaps core (st_makespan_cycles (pr_stats rep)) 0 (merge_intervals raw_intervals))
       (group_by_core has_duration (operation_records rep)))"

definition inactive_key :: "inactive_interval \<Rightarrow> int \<times> int \<times> int" where
  "inactive_key iv = (- ii_duration_cycles iv, ii_core_id iv, ii_start_cycle iv)"

definition top_inactive_intervals :: "performance_report \<Rightarrow> inactive_interval list" where
  "top_inactive_intervals rep = take 5 (sort_key inactive_key (inactive_intervals rep))"

section \<open>Copies overlapped with compute\<close>

record core_overlap =
  co_core_id :: int
  co_cycles :: int

record overlap_summary =
  os_scope :: string
  os_total_per_core_cycles :: int
  os_by_core :: "core_overlap list"

definition is_copy :: "exec_record \<Rightarrow> bool" where
  "is_copy r =
     (let op = py_lower (er_operation r)
      in py_startswith op ''copy'' \<or> py_contains op ''datacopy'' \<or> py_contains op ''data_copy'')"

type_synonym core_groups = "(int, interval list) dict"

definition overlap_step :: "core_groups \<times> core_groups \<Rightarrow> exec_record \<Rightarrow> core_groups \<times> core_groups" where
  "overlap_step = (\<lambda>(copies, compute) r.
     if er_duration_cycles r = 0 then (copies, compute)
     else if is_copy r then (dict_append (er_core_id r) (record_interval r) copies, compute)
     else if pipe_value (er_pipe r) \<in> {''m'', ''v'', ''fix''}
     then (copies, dict_append (er_core_id r) (record_interval r) compute)
     else (copies, compute))"

definition core_overlaps :: "exec_record list \<Rightarrow> core_overlap list" where
  "core_overlaps records =
     (let (copies, compute) = foldl overlap_step ([], []) records;
          cores = sorted_list_of_set (set (map fst copies) \<inter> set (map fst compute))
      in filter (\<lambda>item. co_cycles item \<noteq> 0)
           (map (\<lambda>core. \<lparr>co_core_id = core,
              co_cycles = intersection_length (merge_intervals (dict_get copies core []))
                (merge_intervals (dict_get compute core []))\<rparr>) cores))"

definition copy_compute_overlap :: "performance_report \<Rightarrow> overlap_summary" where
  "copy_compute_overlap rep =
     (let by_core = core_overlaps (operation_records rep)
      in \<lparr>os_scope = ''per-core union of copy and compute intervals; not a bandwidth estimate'',
          os_total_per_core_cycles = sum_list (map co_cycles by_core),
          os_by_core = take 5 by_core\<rparr>)"

section \<open>Resource pressure\<close>

record pressure_entry =
  pe_operation_count :: int
  pe_fifo_queued_task_cycles :: int

record pressure_item =
  pi_resource :: string
  pi_busy_cycles :: int
  pi_utilization :: rat
  pi_operation_count :: int
  pi_fifo_queued_task_cycles :: int

record pressure_summary =
  ps_scope :: string
  ps_top_resources :: "pressure_item list"

definition pressure_step :: "(string, pressure_entry) dict \<Rightarrow> exec_record \<Rightarrow> (string, pressure_entry) dict" where
  "pressure_step pressure r =
     (let entry = dict_get pressure (resource_name r) \<lparr>pe_operation_count = 0, pe_fifo_queued_task_cycles = 0\<rparr>;
          queued = (case queued_at r of None \<Rightarrow> 0 | Some n \<Rightarrow> er_start_cycle r - n)
      in dict_set (resource_name r)
           \<lparr>pe_operation_count = pe_operation_count entry + 1,
            pe_fifo_queued_task_cycles = pe_fifo_queued_task_cycles entry + queued\<rparr> pressure)"

definition pressure_items :: "performance_report \<Rightarrow> pressure_item list" where
  "pressure_items rep =
     map (\<lambda>(resource, entry).
        \<lparr>pi_resource = resource,
         pi_busy_cycles = dict_get (st_busy_cycles_by_resource (pr_stats rep)) resource 0,
         pi_utilization = dict_get (st_utilization_by_resource (pr_stats rep)) resource 0,
         pi_operation_count = pe_operation_count entry,
         pi_fifo_queued_task_cycles = pe_fifo_queued_task_cycles entry\<rparr>)
       (foldl pressure_step [] (operation_records rep))"

definition pressure_key :: "pressure_item \<Rightarrow> int \<times> rat \<times> string" where
  "pressure_key item = (- pi_fifo_queued_task_cycles item, - pi_utilization item, pi_resource item)"

definition resource_pressure :: "performance_report \<Rightarrow> pressure_summary" where
  "resource_pressure rep =
     \<lparr>ps_scope = ''schedule-derived FIFO queued task-cycles then utilization; '' @
        ''not physical queue depth or hardware saturation'',
      ps_top_resources = take 5 (sort_key pressure_key (pressure_items rep))\<rparr>"

section \<open>The report document\<close>

record top_resource =
  tr_resource :: string
  tr_utilization :: rat
  tr_busy_cycles :: int

record report_document =
  rd_schema_version :: string
  rd_platform :: string
  rd_simulation_mode :: string
  rd_calibration :: string
  rd_estimator :: string
  rd_measured :: bool
  rd_limitations :: "string list"
  rd_interpretation :: string
  rd_schedule :: stats_document
  rd_top_resources :: "top_resource list"
  rd_major_stalls :: "(string \<times> int) list"
  rd_critical_path :: critical_path
  rd_top_inactive_intervals :: "inactive_interval list"
  rd_copy_compute_overlap :: overlap_summary
  rd_resource_pressure :: pressure_summary
  rd_trace_path :: "string option"

text \<open>\<open>sorted(d, key=lambda k: (-d[k], k))[:5]\<close>: the five keys with the largest values.\<close>

definition top_keys :: "(string, 'v :: {linorder, uminus, zero}) dict \<Rightarrow> string list" where
  "top_keys d = take 5 (sort_key (\<lambda>k. (- dict_get d k 0, k)) (map fst d))"

definition busiest_resource :: "performance_report \<Rightarrow> string \<Rightarrow> top_resource res" where
  "busiest_resource rep resource =
     (case map_of (st_busy_cycles_by_resource (pr_stats rep)) resource of
        None \<Rightarrow> Inl (KeyError resource)
      | Some cycles \<Rightarrow> Inr \<lparr>tr_resource = resource,
          tr_utilization = dict_get (st_utilization_by_resource (pr_stats rep)) resource 0,
          tr_busy_cycles = cycles\<rparr>)"

definition report_to_dict :: "performance_report \<Rightarrow> report_document res" where
  "report_to_dict rep =
     (let utilization = st_utilization_by_resource (pr_stats rep);
          waits = st_wait_cycles_by_reason (pr_stats rep);
          measured = (py_startswith (pr_calibration rep) ''measured-'' \<and> pr_timing_limitations rep = [])
      in case map_res (busiest_resource rep) (top_keys utilization) of
           Inl e \<Rightarrow> Inl e
         | Inr top_resources \<Rightarrow>
             Inr \<lparr>rd_schema_version = REPORT_SCHEMA_VERSION, rd_platform = pr_platform rep,
                  rd_simulation_mode = (if pr_sync_only rep then ''sync_only'' else ''functional''),
                  rd_calibration = pr_calibration rep, rd_estimator = pr_timing_estimator rep,
                  rd_measured = measured, rd_limitations = pr_timing_limitations rep,
                  rd_interpretation = (if measured then ''measured hardware timing''
                    else ''analytical schedule estimate; not measured hardware latency''),
                  rd_schedule = stats_to_dict (pr_stats rep), rd_top_resources = top_resources,
                  rd_major_stalls = map (\<lambda>reason. (reason, dict_get waits reason 0)) (top_keys waits),
                  rd_critical_path = pr_critical_path rep,
                  rd_top_inactive_intervals = top_inactive_intervals rep,
                  rd_copy_compute_overlap = copy_compute_overlap rep,
                  rd_resource_pressure = resource_pressure rep,
                  rd_trace_path = pr_trace_path rep\<rparr>)"

section \<open>Comparison of two reports\<close>

record utilization_change =
  uc_resource :: string
  uc_baseline_utilization :: rat
  uc_candidate_utilization :: rat
  uc_delta :: rat

record wait_change =
  wc_reason :: string
  wc_baseline_cycles :: int
  wc_candidate_cycles :: int
  wc_delta_cycles :: int

record comparison =
  cmp_schema_version :: string
  cmp_scope :: string
  cmp_platform :: string
  cmp_timing_comparable :: bool
  cmp_makespan_baseline :: int
  cmp_makespan_candidate :: int
  cmp_makespan_delta :: int
  cmp_makespan_ratio :: "rat option"
  cmp_chain_span_baseline :: "int option"
  cmp_chain_span_candidate :: "int option"
  cmp_overlap_baseline :: int
  cmp_overlap_candidate :: int
  cmp_overlap_delta :: int
  cmp_top_resource_utilization_changes :: "utilization_change list"
  cmp_top_wait_cycle_changes :: "wait_change list"

text \<open>\<open>critical_path.get("span_cycles")\<close>.\<close>

fun span_cycles :: "critical_path \<Rightarrow> int option" where
  "span_cycles (Unavailable _) = None"
| "span_cycles (ScheduleDerived summary) = Some (cc_span_cycles summary)"

definition both_keys :: "(string, 'v) dict \<Rightarrow> (string, 'v) dict \<Rightarrow> string list" where
  "both_keys left right = sorted_list_of_set (set (map fst left) \<union> set (map fst right))"

definition utilization_changes :: "(string, rat) dict \<Rightarrow> (string, rat) dict \<Rightarrow> utilization_change list" where
  "utilization_changes baseline candidate =
     sort_key (\<lambda>item. (- \<bar>uc_delta item\<bar>, uc_resource item))
       (map (\<lambda>resource.
          let before = dict_get baseline resource 0; after = dict_get candidate resource 0
          in \<lparr>uc_resource = resource, uc_baseline_utilization = before, uc_candidate_utilization = after,
              uc_delta = after - before\<rparr>) (both_keys baseline candidate))"

definition wait_changes :: "(string, int) dict \<Rightarrow> (string, int) dict \<Rightarrow> wait_change list" where
  "wait_changes baseline candidate =
     sort_key (\<lambda>item. (- \<bar>wc_delta_cycles item\<bar>, wc_reason item))
       (map (\<lambda>reason.
          let before = dict_get baseline reason 0; after = dict_get candidate reason 0
          in \<lparr>wc_reason = reason, wc_baseline_cycles = before, wc_candidate_cycles = after,
              wc_delta_cycles = after - before\<rparr>) (both_keys baseline candidate))"

definition compare :: "performance_report \<Rightarrow> performance_report \<Rightarrow> comparison res" where
  "compare baseline candidate =
     (if pr_platform baseline \<noteq> pr_platform candidate
      then Inl (ValueError ''cannot compare simulator reports from different platforms'')
      else case report_to_dict baseline of
        Inl e \<Rightarrow> Inl e
      | Inr baseline_document \<Rightarrow> (case report_to_dict candidate of
          Inl e \<Rightarrow> Inl e
        | Inr candidate_document \<Rightarrow>
            (let baseline_schedule = rd_schedule baseline_document;
                 candidate_schedule = rd_schedule candidate_document;
                 baseline_makespan = sd_makespan_cycles baseline_schedule;
                 candidate_makespan = sd_makespan_cycles candidate_schedule;
                 baseline_overlap = os_total_per_core_cycles (rd_copy_compute_overlap baseline_document);
                 candidate_overlap = os_total_per_core_cycles (rd_copy_compute_overlap candidate_document)
             in Inr \<lparr>cmp_schema_version = REPORT_SCHEMA_VERSION,
                  cmp_scope = ''comparison of simulator schedules; candidate minus baseline; '' @
                    ''not a measured hardware-performance comparison'',
                  cmp_platform = pr_platform candidate,
                  cmp_timing_comparable = (pr_calibration baseline = pr_calibration candidate \<and>
                    pr_timing_estimator baseline = pr_timing_estimator candidate),
                  cmp_makespan_baseline = baseline_makespan, cmp_makespan_candidate = candidate_makespan,
                  cmp_makespan_delta = candidate_makespan - baseline_makespan,
                  cmp_makespan_ratio = (if baseline_makespan = 0 then None
                    else Some (rat_of_int candidate_makespan / rat_of_int baseline_makespan)),
                  cmp_chain_span_baseline = span_cycles (rd_critical_path baseline_document),
                  cmp_chain_span_candidate = span_cycles (rd_critical_path candidate_document),
                  cmp_overlap_baseline = baseline_overlap, cmp_overlap_candidate = candidate_overlap,
                  cmp_overlap_delta = candidate_overlap - baseline_overlap,
                  cmp_top_resource_utilization_changes = take 5 (utilization_changes
                    (sd_utilization_by_resource baseline_schedule) (sd_utilization_by_resource candidate_schedule)),
                  cmp_top_wait_cycle_changes = take 5 (wait_changes
                    (sd_wait_cycles_by_reason baseline_schedule) (sd_wait_cycles_by_reason candidate_schedule))\<rparr>)))"

section \<open>The text summary\<close>

text \<open>\<open>f"{x:.1%}"\<close> of the exact value.\<close>

definition format_percent :: "rat \<Rightarrow> string" where
  "format_percent x =
     (let n = round_half_even (\<bar>x\<bar> * 1000)
      in (if x < 0 then ''-'' else []) @ str_of_int (n div 10) @ ''.'' @ str_of_int (n mod 10) @ ''%'')"

definition report_lines :: "performance_report \<Rightarrow> report_document \<Rightarrow> string list" where
  "report_lines rep doc =
     [''Simulator performance report: '' @ pr_platform rep @ '' ('' @ rd_simulation_mode doc @ '')'',
      ''makespan='' @ str_of_int (sd_makespan_cycles (rd_schedule doc)) @ '' cycles, '' @
      ''tasks='' @ str_of_int (sd_task_count (rd_schedule doc)) @ '', '' @
      ''load_imbalance='' @ str_of_int (sd_load_imbalance_cycles (rd_schedule doc)) @ '' cycles'',
      ''timing='' @ rd_calibration doc @ '': '' @ rd_interpretation doc] @
     map (\<lambda>limitation. ''timing limitation: '' @ limitation) (pr_timing_limitations rep) @
     (if rd_top_resources doc = [] then []
      else [''top_resources='' @ py_join '', '' (map (\<lambda>item.
              tr_resource item @ '' ('' @ format_percent (tr_utilization item) @ '')'')
            (take 3 (rd_top_resources doc)))]) @
     (if rd_major_stalls doc = [] then []
      else [''major_stalls='' @ py_join '', '' (map (\<lambda>(reason, cycles).
              reason @ '' ('' @ str_of_int cycles @ '' cycles)'') (take 3 (rd_major_stalls doc)))])"

definition to_text :: "performance_report \<Rightarrow> string res" where
  "to_text rep = map_sum id (\<lambda>doc. py_join [CHR 10] (report_lines rep doc)) (report_to_dict rep)"

end
