(* ===== verification/Sim_Trace_Props.thy ===== *)
theory Sim_Trace_Props
  imports Sim_Trace "HOL-Library.Multiset"
begin

text \<open>
  The counters of an exported trace.  A counter track is a list of samples, each valid until the
  next; its value at every cycle is what the records say: the number of cores with a running
  operation, and the number of tasks waiting in front of a resource.
\<close>

section \<open>Step functions\<close>

text \<open>The value a track shows at cycle \<open>t\<close>: the last sample taken by then, at first \<open>v\<close>.\<close>

definition counter_from :: "int \<Rightarrow> (int \<times> int) list \<Rightarrow> int \<Rightarrow> int" where
  "counter_from v samples t = foldl (\<lambda>acc (cycle, x). if cycle \<le> t then x else acc) v samples"

abbreviation counter_at :: "(int \<times> int) list \<Rightarrow> int \<Rightarrow> int" where
  "counter_at \<equiv> counter_from 0"

text \<open>The sum of the entries of a dictionary whose keys satisfy a predicate.\<close>

definition sum_where :: "('k \<Rightarrow> bool) \<Rightarrow> ('k \<times> int) list \<Rightarrow> int" where
  "sum_where P d = sum_list (map snd (filter (\<lambda>e. P (fst e)) d))"

lemma sum_where_simps [simp]:
  "sum_where P [] = 0" "sum_where P ((k, v) # d) = (if P k then v else 0) + sum_where P d"
  by (simp_all add: sum_where_def)

lemma sum_where_dict_add [simp]: "sum_where P (dict_add k n d) = sum_where P d + (if P k then n else 0)"
  by (induction d) (auto simp: dict_add_def dict_get_def)

lemma sum_where_mset: "mset xs = mset ys \<Longrightarrow> sum_where P xs = sum_where P ys"
  unfolding sum_where_def sum_mset_sum_list [symmetric] mset_map mset_filter by simp

lemma sum_where_sort [simp]: "sum_where P (sort d) = sum_where P (d :: ('k :: linorder \<times> int) list)"
  by (rule sum_where_mset) simp

lemma sum_where_none: "(\<And>k v. (k, v) \<in> set d \<Longrightarrow> \<not> P k) \<Longrightarrow> sum_where P d = 0"
  by (subgoal_tac "filter (\<lambda>e. P (fst e)) d = []") (auto simp: sum_where_def filter_empty_conv)

lemma counter_from_late: "(\<And>cycle x. (cycle, x) \<in> set samples \<Longrightarrow> t < cycle) \<Longrightarrow> counter_from v samples t = v"
  by (induction samples) (fastforce simp: counter_from_def)+

lemma running_cycles [simp]: "map fst (running v xs) = map fst xs"
  by (induction v xs rule: running.induct) auto

lemma counter_from_running:
  "sorted (map fst xs) \<Longrightarrow> counter_from v (running v xs) t = v + sum_where (\<lambda>cycle. cycle \<le> t) xs"
proof (induction v xs rule: running.induct)
  case (2 v cycle delta rest)
  show ?case
  proof (cases "cycle \<le> t")
    case True
    with 2 show ?thesis by (simp add: counter_from_def)
  next
    case False
    have later: "t < c" if "c \<in> fst ` set rest" for c
      using "2.prems" False that by fastforce
    have "fst ` set (running (v + delta) rest) = fst ` set rest"
      by (metis running_cycles set_map)
    then have "counter_from v (running (v + delta) rest) t = v"
      using later by (intro counter_from_late) force
    moreover have "sum_where (\<lambda>c. c \<le> t) rest = 0"
      using later by (intro sum_where_none) force
    ultimately show ?thesis using False by (simp add: counter_from_def)
  qed
qed (simp add: counter_from_def)

lemma sorted_map_fst: "sorted d \<Longrightarrow> sorted (map fst (d :: ('a :: linorder \<times> 'b :: linorder) list))"
  by (induction d) (auto simp: less_eq_prod_def)

section \<open>Grouping by core\<close>

lemma map_of_dict_append:
  "map_of (dict_append k x d) = (map_of d)(k \<mapsto> dict_get d k [] @ [x])"
  by (simp add: dict_append_def)

lemma group_by_core_snoc:
  "group_by_core keep (records @ [r]) = (if keep r
     then dict_append (er_core_id r) (record_interval r) (group_by_core keep records)
     else group_by_core keep records)"
  by (simp add: group_by_core_def)

lemma group_by_core_keys:
  "distinct (map fst (group_by_core keep records)) \<and>
   fst ` set (group_by_core keep records) = er_core_id ` {r \<in> set records. keep r}"
  by (induction records rule: rev_induct)
    (auto simp: group_by_core_snoc dict_append_def group_by_core_def [of _ "[]"])

lemma group_by_core_get:
  "dict_get (group_by_core keep records) core [] =
     map record_interval (filter (\<lambda>r. keep r \<and> er_core_id r = core) records)"
  by (induction records rule: rev_induct)
    (auto simp: group_by_core_snoc dict_append_def dict_get_set, simp add: group_by_core_def dict_get_def)

lemma group_by_core_mem:
  "(core, ivs) \<in> set (group_by_core keep records) \<longleftrightarrow>
     core \<in> er_core_id ` {r \<in> set records. keep r} \<and>
     ivs = map record_interval (filter (\<lambda>r. keep r \<and> er_core_id r = core) records)"
proof -
  let ?d = "group_by_core keep records"
  have "(core, ivs) \<in> set ?d \<longleftrightarrow> map_of ?d core = Some ivs"
    using group_by_core_keys [of keep records] by simp
  also have "\<dots> \<longleftrightarrow> core \<in> fst ` set ?d \<and> dict_get ?d core [] = ivs"
    by (auto simp: dict_get_def dom_map_of_conv_image_fst [symmetric] split: option.splits)
  finally show ?thesis using group_by_core_keys [of keep records] group_by_core_get [of keep records core] by auto
qed

lemma record_intervals_proper:
  "\<forall>r \<in> set records. record_wf r \<Longrightarrow> proper (map record_interval (filter P records))"
  by (auto simp: proper_def record_interval_def record_wf_def)

lemma cover_record_intervals:
  "cover (map record_interval (filter P records)) =
     (\<Union>r \<in> {r \<in> set records. P r}. {er_start_cycle r..<er_end_cycle r})"
  by (auto simp: cover_def record_interval_def)

section \<open>Active cores\<close>

lemma sum_where_merged:
  assumes "proper ivs" "separated ivs"
  shows "sum_where (\<lambda>cycle. cycle \<le> t)
    (foldl (\<lambda>d (start, stop). dict_add stop (- 1) (dict_add start 1 d)) d ivs) =
    sum_where (\<lambda>cycle. cycle \<le> t) d + (if t \<in> cover ivs then 1 else 0)"
  using assms
proof (induction ivs arbitrary: d)
  case (Cons iv ivs)
  obtain s e where iv: "iv = (s, e)" by (cases iv)
  have rest: "proper ivs" "separated ivs" "s \<le> e"
    using Cons.prems separated_ConsD [of s e ivs] by (auto simp: iv)
  have "t \<in> cover ivs \<Longrightarrow> e < t"
    using Cons.prems cover_separated_disjoint [of s e ivs t] by (simp add: iv)
  with rest show ?case by (auto simp: iv Cons.IH)
qed simp

lemma sum_where_core_transitions:
  "proper ivs \<Longrightarrow> sum_where (\<lambda>cycle. cycle \<le> t) (core_transitions d ivs) =
     sum_where (\<lambda>cycle. cycle \<le> t) d + (if t \<in> cover ivs then 1 else 0)"
  using merge_intervals_correct [of ivs] by (simp add: core_transitions_def sum_where_merged)

lemma sum_where_all_transitions:
  assumes "\<forall>(core, ivs) \<in> set groups. proper ivs" "distinct (map fst groups)"
  shows "sum_where (\<lambda>cycle. cycle \<le> t) (foldl core_transitions d (map snd groups)) =
    sum_where (\<lambda>cycle. cycle \<le> t) d + int (card {core. \<exists>ivs. (core, ivs) \<in> set groups \<and> t \<in> cover ivs})"
  using assms
proof (induction groups arbitrary: d)
  case (Cons g groups)
  obtain core ivs where g: "g = (core, ivs)" by (cases g)
  let ?busy = "\<lambda>groups. {core. \<exists>ivs. (core, ivs) \<in> set groups \<and> t \<in> cover ivs}"
  have sub: "?busy groups \<subseteq> fst ` set groups" by force
  then have "finite (?busy groups)" by (rule finite_subset) simp
  moreover have "core \<notin> ?busy groups" using Cons.prems(2) sub by (auto simp: g)
  moreover have "?busy (g # groups) = (if t \<in> cover ivs then insert core (?busy groups) else ?busy groups)"
    by (auto simp: g)
  ultimately show ?case using Cons by (simp add: g sum_where_core_transitions)
qed simp

definition busy_cores :: "exec_record list \<Rightarrow> int \<Rightarrow> int set" where
  "busy_cores records t = er_core_id ` set (filter (\<lambda>r. er_category r = ''operation'' \<and>
     er_start_cycle r \<le> t \<and> t < er_end_cycle r) records)"

lemma active_samples:
  assumes "\<forall>r \<in> set records. record_wf r"
  shows "counter_at (running 0 (sort (active_transitions records))) t = int (card (busy_cores records t))"
proof -
  let ?groups = "group_by_core runs_operation records"
  have "\<forall>(core, ivs) \<in> set ?groups. proper ivs"
    using record_intervals_proper [OF assms] by (auto simp: group_by_core_mem)
  then have "sum_where (\<lambda>cycle. cycle \<le> t) (active_transitions records) =
      int (card {core. \<exists>ivs. (core, ivs) \<in> set ?groups \<and> t \<in> cover ivs})"
    using group_by_core_keys [of runs_operation records] sum_where_all_transitions [of ?groups t "[]"]
    by (simp add: active_transitions_def intervals_by_core_def)
  also have "{core. \<exists>ivs. (core, ivs) \<in> set ?groups \<and> t \<in> cover ivs} = busy_cores records t"
    by (auto simp: group_by_core_mem cover_record_intervals busy_cores_def runs_operation_def
        er_duration_cycles_def image_iff) metis+
  finally show ?thesis by (simp add: counter_from_running sorted_map_fst)
qed


section \<open>Queue depths\<close>

abbreviation same_queue :: "int \<Rightarrow> string \<Rightarrow> queue_key \<times> int \<Rightarrow> bool" where
  "same_queue core resource \<equiv> (\<lambda>((c, r, _), _). c = core \<and> r = resource)"

abbreviation drop_queue :: "queue_key \<times> int \<Rightarrow> int \<times> int" where
  "drop_queue \<equiv> (\<lambda>((_, _, cycle), v). (cycle, v))"

text \<open>Seen from one resource, the interleaved depth samples are the running sum of its own changes.\<close>

lemma depth_samples_running:
  "map drop_queue (filter (same_queue core resource) (depth_samples depths xs)) =
     running (dict_get depths (core, resource) 0) (map drop_queue (filter (same_queue core resource) xs))"
  by (induction depths xs rule: depth_samples.induct) (auto simp: Let_def dict_get_add)

lemma sorted_queue_cycles:
  "sorted xs \<Longrightarrow> sorted (map fst (map drop_queue (filter (same_queue core resource) xs)))"
  by (induction xs) (auto simp: less_eq_prod_def)

definition queue_until :: "int \<Rightarrow> string \<Rightarrow> int \<Rightarrow> queue_key \<Rightarrow> bool" where
  "queue_until core resource t key \<longleftrightarrow>
     fst key = core \<and> fst (snd key) = resource \<and> snd (snd key) \<le> t"

lemma sum_where_queue:
  "sum_where (\<lambda>cycle. cycle \<le> t) (map drop_queue (filter (same_queue core resource) xs)) =
     sum_where (queue_until core resource t) xs"
proof (induction xs)
  case (Cons x xs)
  obtain c r cycle v where "x = ((c, r, cycle), v)" by (metis prod.collapse)
  with Cons show ?case by (simp add: queue_until_def)
qed simp

definition waiting_tasks :: "exec_record list \<Rightarrow> int \<Rightarrow> string \<Rightarrow> int \<Rightarrow> exec_record list" where
  "waiting_tasks records core resource t =
     filter (\<lambda>r. er_category r = ''operation'' \<and> er_core_id r = core \<and> er_resource r = resource \<and>
       (case queued_at r of None \<Rightarrow> False | Some n \<Rightarrow> n \<le> t \<and> t < er_start_cycle r)) records"

lemma queued_at_less: "queued_at r = Some n \<Longrightarrow> n < er_start_cycle r"
  by (auto simp: queued_at_def split: option.splits if_splits)

lemma sum_where_queue_transitions:
  "sum_where (queue_until core resource t) (queue_transitions records) =
     int (length (waiting_tasks records core resource t))"
proof (induction records rule: rev_induct)
  case (snoc r records)
  have "sum_where (queue_until core resource t) (queue_transitions (records @ [r])) =
      sum_where (queue_until core resource t) (queue_transitions records) +
      int (length (waiting_tasks [r] core resource t))"
    using queued_at_less [of r]
    by (auto simp: queue_transitions_def queue_step_def waiting_tasks_def queue_until_def split: option.splits)
  with snoc show ?case by (simp add: waiting_tasks_def)
qed (simp add: queue_transitions_def waiting_tasks_def)

lemma queue_samples:
  "counter_at (map drop_queue (filter (same_queue core resource)
     (depth_samples [] (sort (queue_transitions records))))) t =
   int (length (waiting_tasks records core resource t))"
  unfolding depth_samples_running
  using counter_from_running [OF sorted_queue_cycles [OF sorted_sort], of 0 core resource "queue_transitions records" t]
  by (simp add: dict_get_def sum_where_queue sum_where_queue_transitions)

section \<open>Reading a track back from the document\<close>

definition read_counter :: "string \<Rightarrow> trace_event \<Rightarrow> (int \<times> int) option" where
  "read_counter name ev =
     (case (te_ts ev, map_of (te_args ev) name) of (Some ts, Some (JInt n)) \<Rightarrow> Some (ts, n) | _ \<Rightarrow> None)"

definition on_track :: "string \<Rightarrow> string \<Rightarrow> string \<Rightarrow> trace_event \<Rightarrow> bool" where
  "on_track name pid tid ev \<longleftrightarrow> te_ph ev = ''C'' \<and> te_name ev = name \<and> te_pid ev = pid \<and> te_tid ev = JStr tid"

definition counter_track :: "string \<Rightarrow> string \<Rightarrow> string \<Rightarrow> trace_event list \<Rightarrow> (int \<times> int) list" where
  "counter_track name pid tid events = List.map_filter (read_counter name) (filter (on_track name pid tid) events)"

lemma counter_track_append [simp]:
  "counter_track name pid tid (xs @ ys) = counter_track name pid tid xs @ counter_track name pid tid ys"
  by (simp add: counter_track_def List.map_filter_def)

lemma counter_track_none: "(\<And>ev. ev \<in> set evs \<Longrightarrow> \<not> on_track name pid tid ev) \<Longrightarrow> counter_track name pid tid evs = []"
  by (simp add: counter_track_def List.map_filter_def filter_empty_conv filter_False)

lemma concat_res_member:
  "map_sum id concat (map_res f xs) = Inr ys \<Longrightarrow> y \<in> set ys \<Longrightarrow> \<exists>x \<in> set xs. \<exists>zs. f x = Inr zs \<and> y \<in> set zs"
proof (induction xs arbitrary: ys)
  case (Cons x xs)
  then show ?case by (fastforce split: sum.splits)
qed simp

text \<open>Every flow event belongs to a pair that joins two operation records of the trace.\<close>

lemma flow_events_pairs:
  assumes "flow_events records = Inr flows" "ev \<in> set flows"
  shows "\<exists>flow_name producer consumer. producer \<in> snd ` set (records_by_id records) \<and>
    consumer \<in> snd ` set (records_by_id records) \<and> ev \<in> set (flow_pair flow_name producer consumer)"
proof -
  let ?d = "records_by_id records"
  obtain consumer zs where consumer: "consumer \<in> snd ` set ?d" "consumer_flows ?d consumer = Inr zs" "ev \<in> set zs"
    using concat_res_member [of "consumer_flows ?d" "map snd ?d" flows ev] assms by (auto simp: flow_events_def Let_def)
  then obtain flow_name key ws where "group_flows ?d consumer (flow_name, key) = Inr ws" "ev \<in> set ws"
    using concat_res_member [of "group_flows ?d consumer" dependency_groups zs ev] by (auto simp: consumer_flows_def)
  then obtain producer_id where "ev \<in> set (producer_flows ?d flow_name consumer producer_id)"
    by (cases "py_iter (dict_get (er_metadata consumer) key (PSeq []))") (auto simp: group_flows_def)
  then obtain producer where "map_of ?d (py_str producer_id) = Some producer"
    "ev \<in> set (flow_pair flow_name producer consumer)"
    by (cases "map_of ?d (py_str producer_id)") (auto simp: producer_flows_def)
  with consumer(1) show ?thesis by (metis image_eqI map_of_SomeD snd_conv)
qed

lemma flow_phase: "ev \<in> set (flow_pair flow_name producer consumer) \<Longrightarrow> te_ph ev = ''s'' \<or> te_ph ev = ''f''"
  by (auto simp: flow_pair_def Let_def)

lemma core_pid_inject [simp]: "core_pid c = core_pid c' \<longleftrightarrow> c = c'" "core_pid c \<noteq> ''simulator''"
  by (simp_all add: core_pid_def)

lemma other_tracks:
  "name \<noteq> ''live_local_memory_bytes'' \<Longrightarrow> counter_track name pid tid (map memory_event timeline) = []"
  "counter_track name pid tid (map record_event records) = []"
  "counter_track name pid tid (header_events ex) = []"
  "counter_track name pid tid (thread_events records) = []"
  by (rule counter_track_none, auto simp: on_track_def memory_event_def counter_event_def record_event_def Let_def
      header_events_def thread_events_def metadata_event_def)+

lemma flow_tracks: "flow_events records = Inr flows \<Longrightarrow> counter_track name pid tid flows = []"
  by (rule counter_track_none) (auto simp: on_track_def dest!: flow_events_pairs flow_phase)

lemma track_of_active:
  "counter_track ''active_cores'' ''simulator'' ''counters'' (map active_core_event xs) = xs"
  "counter_track ''queue_depth'' pid tid (map active_core_event xs) = []"
  by (induction xs) (auto simp: counter_track_def List.map_filter_def active_core_event_def on_track_def
      counter_event_def read_counter_def)

lemma track_of_queues:
  "counter_track ''queue_depth'' (core_pid core) resource (map queue_depth_event xs) =
     map drop_queue (filter (same_queue core resource) xs)"
  "counter_track ''active_cores'' pid tid (map queue_depth_event xs) = []"
  by (induction xs) (auto simp: counter_track_def List.map_filter_def queue_depth_event_def on_track_def
      counter_event_def read_counter_def)

section \<open>Properties\<close>

text \<open>
  C34: In an exported trace the \<open>active_cores\<close> counter shows, at every cycle, the number of cores
  that have an operation running, however the operations of a core overlap.
\<close>

theorem active_core_counter_is_exact:
  assumes "trace_to_dict ex records timeline = Inr doc" and "\<forall>r \<in> set records. record_wf r"
  shows "counter_at (counter_track ''active_cores'' ''simulator'' ''counters'' (td_traceEvents doc)) t =
    int (card (busy_cores records t))"
proof -
  from assms(1) obtain flows where "flow_events records = Inr flows" "td_traceEvents doc = header_events ex @
      thread_events records @ active_core_events records @ queue_depth_events records @
      map memory_event timeline @ map record_event records @ flows"
    by (auto simp: trace_to_dict_def split: sum.splits)
  then show ?thesis
    using active_samples [OF assms(2)]
    by (simp add: other_tracks flow_tracks active_core_events_def queue_depth_events_def track_of_active track_of_queues)
qed

definition sample_exporter :: exporter where
  "sample_exporter = \<lparr>ex_platform = ''A2'', ex_calibration = ''analytical'', ex_timing_limitations = []\<rparr>"

definition queued_record :: exec_record where
  "queued_record = (sample_record ''u'' 6 8)\<lparr>er_metadata := [(''queue_enter_cycle'', PInt 2)]\<rparr>"

lemma sample_trace:
  "\<exists>doc. trace_to_dict ex [sample_record ''t'' 0 4, queued_record] [] = Inr doc"
  by (simp add: trace_to_dict_def flow_events_def records_by_id_def consumer_flows_def dependency_groups_def
      group_flows_def dict_get_def sample_record_def queued_record_def)

theorem active_core_counter_is_exact_witness:
  "\<exists>doc. trace_to_dict sample_exporter [sample_record ''t'' 0 4, queued_record] [] = Inr doc \<and>
    counter_at (counter_track ''active_cores'' ''simulator'' ''counters'' (td_traceEvents doc)) 3 = 1 \<and>
    counter_at (counter_track ''active_cores'' ''simulator'' ''counters'' (td_traceEvents doc)) 5 = 0"
proof -
  let ?rs = "[sample_record ''t'' 0 4, queued_record]"
  obtain doc where doc: "trace_to_dict sample_exporter ?rs [] = Inr doc" using sample_trace by blast
  have wf: "\<forall>r \<in> set ?rs. record_wf r" by (simp add: sample_record_wf queued_record_def record_wf_def sample_record_def)
  have "busy_cores ?rs 3 = {0}" "busy_cores ?rs 5 = {}"
    by (auto simp: busy_cores_def sample_record_def queued_record_def)
  then show ?thesis
    using active_core_counter_is_exact [OF doc wf, of 3] active_core_counter_is_exact [OF doc wf, of 5] doc by simp
qed

text \<open>
  C35: The \<open>queue_depth\<close> counter of a resource shows, at every cycle, the number of its tasks that
  are ready but wait behind earlier work of the same queue; it is therefore never negative.
\<close>

theorem queue_depth_counter_is_exact:
  assumes "trace_to_dict ex records timeline = Inr doc"
  shows "counter_at (counter_track ''queue_depth'' (core_pid core) resource (td_traceEvents doc)) t =
    int (length (waiting_tasks records core resource t))"
proof -
  from assms obtain flows where "flow_events records = Inr flows" "td_traceEvents doc = header_events ex @
      thread_events records @ active_core_events records @ queue_depth_events records @
      map memory_event timeline @ map record_event records @ flows"
    by (auto simp: trace_to_dict_def split: sum.splits)
  then show ?thesis
    using queue_samples [of core resource records t]
    by (simp add: other_tracks flow_tracks active_core_events_def queue_depth_events_def track_of_active track_of_queues)
qed

theorem queue_depth_counter_is_exact_witness:
  "\<exists>doc. trace_to_dict sample_exporter [sample_record ''t'' 0 4, queued_record] [] = Inr doc \<and>
    counter_at (counter_track ''queue_depth'' (core_pid 0) ''vector0/v'' (td_traceEvents doc)) 4 = 1 \<and>
    counter_at (counter_track ''queue_depth'' (core_pid 0) ''vector0/v'' (td_traceEvents doc)) 6 = 0"
proof -
  let ?rs = "[sample_record ''t'' 0 4, queued_record]"
  obtain doc where doc: "trace_to_dict sample_exporter ?rs [] = Inr doc" using sample_trace by blast
  have "waiting_tasks ?rs 0 ''vector0/v'' 4 = [queued_record]" "waiting_tasks ?rs 0 ''vector0/v'' 6 = []"
    by (auto simp: waiting_tasks_def queued_at_def sample_record_def queued_record_def er_resource_def
        md_get_def dict_get_def)
  then show ?thesis
    using queue_depth_counter_is_exact [OF doc, of 0 "''vector0/v''" 4]
      queue_depth_counter_is_exact [OF doc, of 0 "''vector0/v''" 6] doc by simp
qed

end
