(* ===== verification/Sim_Report_Props.thy ===== *)
theory Sim_Report_Props
  imports Sim_Report Sim_Trace_Props Sim_Scheduler_Props
begin

text \<open>
  What the performance report says of a schedule: its critical chain is a chain of the schedule's
  records in time, its inactive intervals are exactly the cycles a core does not work, its overlap
  counts the cycles in which copies and compute run together, and comparing two reports is
  antisymmetric.
\<close>

section \<open>The critical chain\<close>

definition follows :: "exec_record \<times> string option \<Rightarrow> exec_record \<times> string option \<Rightarrow> bool" where
  "follows later earlier \<longleftrightarrow> er_end_cycle (fst earlier) \<le> er_start_cycle (fst later)"

definition chain_inv ::
  "(string, exec_record) dict \<Rightarrow> string list \<Rightarrow> exec_record \<Rightarrow> (exec_record \<times> string option) list \<Rightarrow> bool" where
  "chain_inv operations visited current rc \<longleftrightarrow> rc \<noteq> [] \<and> fst (last rc) = current \<and> successively follows rc \<and>
     fst ` set rc \<subseteq> snd ` set operations \<and> set visited = er_task_id ` fst ` set rc \<and>
     distinct (map (\<lambda>link. er_task_id (fst link)) rc)"

lemma chain_inv_step:
  assumes "chain_inv operations visited current rc"
    and "(stop, kind, tid, p) \<in> set (candidates operations visited current)"
  shows "chain_inv operations (er_task_id p # visited) p (rc @ [(p, Some kind)])"
  using assms(1) candidates_member [OF assms(2)]
  by (auto simp: chain_inv_def successively_append_iff follows_def)

lemma chain_back_inv:
  "chain_inv operations visited current rc \<Longrightarrow>
   \<exists>visited' current'. chain_inv operations visited' current' (chain_back operations visited current rc) \<and>
     candidates operations visited' current' = [] \<and> hd (chain_back operations visited current rc) = hd rc"
proof (induction operations visited current rc rule: chain_back.induct)
  case (1 operations visited current rc)
  show ?case
  proof (cases "candidates operations visited current")
    case Nil
    with "1.prems" show ?thesis by (auto simp: chain_back.simps [of operations visited current rc])
  next
    case (Cons c cs)
    obtain stop kind tid p where m: "max_key candidate_key c cs = (stop, kind, tid, p)" by (metis prod_cases4)
    then have "(stop, kind, tid, p) \<in> set (candidates operations visited current)"
      using max_key_member [of candidate_key c cs] by (simp add: Cons)
    from chain_inv_step [OF "1.prems" this]
      "1.IH" [OF Cons m [symmetric] refl refl] m "1.prems"
    show ?thesis by (auto simp: chain_back.simps [of operations visited current rc] Cons chain_inv_def)
  qed
qed

lemma max_key_greatest: "y \<in> set (x # xs) \<Longrightarrow> f y \<le> f (max_key f x xs)"
  by (induction f x xs arbitrary: y rule: max_key.induct) (auto split: if_splits, fastforce+)

lemma candidates_cong: "set visited = set visited' \<Longrightarrow> candidates operations visited = candidates operations visited'"
proof -
  assume "set visited = set visited'"
  then have "kind_candidates operations visited = kind_candidates operations visited'"
    unfolding kind_candidates_def [abs_def] by (simp only:)
  then show ?thesis unfolding candidates_def [abs_def] by (simp only:)
qed

lemma chain_durations:
  assumes "chain \<noteq> []" "successively (\<lambda>a b. follows b a) chain" "\<forall>link \<in> set chain. record_wf (fst link)"
  shows "0 \<le> sum_list (map (\<lambda>(r, _). er_duration_cycles r) chain) \<and>
    sum_list (map (\<lambda>(r, _). er_duration_cycles r) chain) \<le>
      er_end_cycle (fst (last chain)) - er_start_cycle (fst (hd chain))"
  using assms
proof (induction chain rule: list_nonempty_induct)
  case (single link)
  then show ?case by (auto simp: er_duration_cycles_def record_wf_def split: prod.splits)
next
  case (cons link chain)
  then have "successively (\<lambda>a b. follows b a) chain" "follows (hd chain) link" by (auto simp: successively_Cons)
  moreover have "er_start_cycle (fst link) \<le> er_end_cycle (fst link)" using cons.prems by (simp add: record_wf_def)
  ultimately show ?case using cons
    by (auto simp: er_duration_cycles_def follows_def split: prod.splits)
qed

definition operation_values :: "exec_record list \<Rightarrow> exec_record set" where
  "operation_values records = snd ` set (records_by_id records)"

lemma values_dict_set: "snd ` set (dict_set k v d) \<subseteq> insert v (snd ` set d)"
  by (induction d) auto

lemma operation_values_subset:
  "operation_values records \<subseteq> {r \<in> set records. er_category r = ''operation''}"
proof -
  have "snd ` set (foldl (\<lambda>d r. dict_set (er_task_id r) r d) d rs) \<subseteq> snd ` set d \<union> set rs" for d rs
  proof (induction rs arbitrary: d)
    case (Cons r rs)
    from values_dict_set [of "er_task_id r" r d] Cons.IH [of "dict_set (er_task_id r) r d"] show ?case
      unfolding foldl_Cons list.set by blast
  qed simp
  from this [of "[]"] show ?thesis by (force simp: operation_values_def records_by_id_def)
qed

lemma operation_values_distinct:
  assumes "distinct (map er_task_id (filter (\<lambda>r. er_category r = ''operation'') records))"
  shows "operation_values records = {r \<in> set records. er_category r = ''operation''}"
proof -
  have "set (map fst d) \<inter> set (map er_task_id rs) = {} \<Longrightarrow> distinct (map er_task_id rs) \<Longrightarrow>
      snd ` set (foldl (\<lambda>d r. dict_set (er_task_id r) r d) d rs) = snd ` set d \<union> set rs"
    for d :: "(string, exec_record) dict" and rs
  proof (induction rs arbitrary: d)
    case (Cons r rs)
    then have "dict_set (er_task_id r) r d = d @ [(er_task_id r, r)]"
      by (intro dict_set_fresh) (auto simp: map_of_eq_None_iff)
    with Cons show ?case by auto
  qed simp
  from this [of "[]"] assms show ?thesis by (simp add: operation_values_def records_by_id_def)
qed

lemma records_by_id_nonempty:
  assumes "\<exists>r \<in> set records. er_category r = ''operation''"
  shows "map snd (records_by_id records) \<noteq> []"
proof -
  have "foldl (\<lambda>d r. dict_set (er_task_id r) r d) d rs \<noteq> []" if "d \<noteq> [] \<or> rs \<noteq> []" for d and rs :: "exec_record list"
    using that
  proof (induction rs arbitrary: d)
    case (Cons r rs)
    have "dict_set (er_task_id r) r d \<noteq> []" by (cases d) auto
    with Cons.IH show ?case by simp
  qed simp
  with assms show ?thesis by (auto simp: records_by_id_def filter_empty_conv)
qed

lemma terminal_is_last:
  assumes "map snd (records_by_id records) = r # rs"
  shows "max_key terminal_key r rs \<in> operation_values records"
    and "er_end_cycle (max_key terminal_key r rs) = Max (er_end_cycle ` operation_values records)"
proof -
  let ?top = "max_key terminal_key r rs"
  have vals: "operation_values records = set (r # rs)"
    using assms by (metis operation_values_def set_map)
  then show member: "?top \<in> operation_values records" by (simp only: max_key_member)
  have "er_end_cycle y \<le> er_end_cycle ?top" if "y \<in> operation_values records" for y
    using max_key_greatest [of y r rs terminal_key] that unfolding vals
    by (auto simp: terminal_key_def less_eq_prod_def)
  with member show "er_end_cycle ?top = Max (er_end_cycle ` operation_values records)"
    by (intro Max_eqI [symmetric]) (auto simp: operation_values_def)
qed

lemma chain_inv_rev:
  assumes "chain_inv operations visited current rc"
  shows "rev rc \<noteq> []" "fst (hd (rev rc)) = current" "successively (\<lambda>a b. follows b a) (rev rc)"
    "fst ` set (rev rc) \<subseteq> snd ` set operations" "distinct (map (\<lambda>link. er_task_id (fst link)) (rev rc))"
    "set visited = set (map (\<lambda>link. er_task_id (fst link)) (rev rc))"
  using assms by (auto simp: chain_inv_def hd_rev rev_map [symmetric] successively_rev image_image)

lemma critical_chain_facts:
  assumes "\<forall>r \<in> set records. record_wf r" and "\<exists>r \<in> set records. er_category r = ''operation''"
  shows "\<exists>summary chain. critical_chain records = ScheduleDerived summary \<and> cc_steps summary = chain_steps chain \<and>
    chain \<noteq> [] \<and> fst ` set chain \<subseteq> {r \<in> set records. er_category r = ''operation''} \<and>
    distinct (map (\<lambda>link. er_task_id (fst link)) chain) \<and> successively (\<lambda>a b. follows b a) chain \<and>
    er_end_cycle (fst (last chain)) = Max (er_end_cycle ` operation_values records) \<and>
    candidates (records_by_id records) (map (\<lambda>link. er_task_id (fst link)) chain) (fst (hd chain)) = [] \<and>
    cc_span_cycles summary = er_end_cycle (fst (last chain)) - er_start_cycle (fst (hd chain)) \<and>
    0 \<le> cc_operation_cycles summary \<and> cc_operation_cycles summary \<le> cc_span_cycles summary"
proof -
  let ?ops = "records_by_id records"
  obtain r rs where vals: "map snd ?ops = r # rs" using assms(2) records_by_id_nonempty by (metis list.exhaust)
  define top where "top = max_key terminal_key r rs"
  have top: "top \<in> operation_values records" "er_end_cycle top = Max (er_end_cycle ` operation_values records)"
    using terminal_is_last [OF vals] by (simp_all add: top_def)
  let ?rc = "chain_back ?ops [er_task_id top] top [(top, None)]"
  have "chain_inv ?ops [er_task_id top] top [(top, None)]"
    using top(1) by (simp add: chain_inv_def operation_values_def)
  from chain_back_inv [OF this] obtain visited current where
    rc: "chain_inv ?ops visited current ?rc" "candidates ?ops visited current = []" "hd ?rc = (top, None)" by auto
  note props = chain_inv_rev [OF rc(1)]
  have members: "fst ` set (rev ?rc) \<subseteq> {r \<in> set records. er_category r = ''operation''}"
    using props(4) operation_values_subset [of records] by (auto simp: operation_values_def)
  have ends: "er_end_cycle (fst (last (rev ?rc))) = Max (er_end_cycle ` operation_values records)"
    using rc(3) props(1) top(2) by (simp add: last_rev)
  have stuck: "candidates ?ops (map (\<lambda>link. er_task_id (fst link)) (rev ?rc)) (fst (hd (rev ?rc))) = []"
    unfolding props(2) candidates_cong [OF props(6), symmetric] by (rule rc(2))
  have "\<forall>link \<in> set (rev ?rc). record_wf (fst link)" using members assms(1) by blast
  from chain_durations [OF props(1,3) this] members ends stuck props(1,3,5) show ?thesis
    by (auto simp: critical_chain_def Let_def vals top_def [symmetric] simp del: set_rev map_map)
qed



section \<open>Inactive intervals\<close>

definition gap_cycles :: "inactive_interval list \<Rightarrow> int set" where
  "gap_cycles gaps = (\<Union>iv \<in> set gaps. {ii_start_cycle iv..<ii_end_cycle iv})"

lemma gap_cycles_simps [simp]: "gap_cycles [] = {}" "gap_cycles (xs @ ys) = gap_cycles xs \<union> gap_cycles ys"
  "gap_cycles [inactive core start stop] = {start..<stop}"
  by (auto simp: gap_cycles_def inactive_def)

text \<open>The gaps of a core are what its merged intervals leave of the schedule.\<close>

lemma core_gaps_cycles:
  assumes "proper ivs" "separated ivs" "\<forall>(start, stop) \<in> set ivs. cursor \<le> start \<and> stop \<le> makespan"
  shows "gap_cycles (core_gaps core makespan cursor ivs) = {cursor..<makespan} - cover ivs"
  using assms
proof (induction core makespan cursor ivs rule: core_gaps.induct)
  case (1 core makespan cursor)
  then show ?case by auto
next
  case (2 core makespan cursor start stop rest)
  have later: "separated rest" "\<forall>(a, b) \<in> set rest. stop < a"
    using separated_ConsD [OF "2.prems"(2,1)] by auto
  have bounds: "cursor \<le> start" "start \<le> stop" "stop \<le> makespan" using "2.prems" by auto
  have cursor: "max cursor stop = stop" using bounds by simp
  have within: "\<forall>(a, b) \<in> set rest. stop \<le> a \<and> b \<le> makespan" using "2.prems"(3) later(2) by fastforce
  have "gap_cycles (core_gaps core makespan stop rest) = {stop..<makespan} - cover rest"
    using "2.IH" [unfolded cursor] "2.prems"(1) later(1) within by simp
  then have "gap_cycles (core_gaps core makespan cursor ((start, stop) # rest)) =
      {cursor..<start} \<union> ({stop..<makespan} - cover rest)"
    using bounds by (simp add: cursor)
  moreover have "x \<in> cover rest \<Longrightarrow> stop < x" for x
    by (rule cover_separated_disjoint [OF "2.prems"(2,1)])
  ultimately show ?case using bounds by (force simp del: core_gaps.simps)
qed

lemma core_gaps_core: "iv \<in> set (core_gaps core makespan cursor ivs) \<Longrightarrow>
    ii_core_id iv = core \<and> ii_duration_cycles iv = ii_end_cycle iv - ii_start_cycle iv \<and> 0 < ii_duration_cycles iv"
  by (induction core makespan cursor ivs rule: core_gaps.induct) (auto simp: inactive_def split: if_splits)

lemma take_sort_key_least:
  assumes "x \<in> set (take n (sort_key f xs))" "y \<in> set xs" "y \<notin> set (take n (sort_key f xs))"
  shows "f x \<le> f y"
proof -
  have "y \<in> set (sort_key f xs)" using assms(2) by simp
  then have "y \<in> set (drop n (sort_key f xs))"
    using assms(3) by (metis Un_iff append_take_drop_id set_append)
  moreover have "sorted (map f (take n (sort_key f xs)) @ map f (drop n (sort_key f xs)))"
    by (metis append_take_drop_id map_append sorted_sort_key)
  ultimately show ?thesis using assms(1) by (auto simp: sorted_append)
qed

definition working_cycles :: "performance_report \<Rightarrow> int \<Rightarrow> int set" where
  "working_cycles rep core =
     (\<Union>r \<in> set (filter (\<lambda>r. er_core_id r = core) (operation_records rep)). {er_start_cycle r..<er_end_cycle r})"

lemma record_ends_in_makespan:
  assumes "from_records records bindings diagnostics watermark = Inr st" "r \<in> set records"
  shows "er_end_cycle r \<le> st_makespan_cycles st"
  using assms by (auto simp: from_records_def Let_def split: if_splits sum.splits)

abbreviation core_work :: "performance_report \<Rightarrow> int \<Rightarrow> interval list" where
  "core_work rep core \<equiv>
     map record_interval (filter (\<lambda>r. has_duration r \<and> er_core_id r = core) (operation_records rep))"

lemma core_work_merged:
  assumes "from_records (pr_schedule_records rep) bindings diagnostics watermark = Inr (pr_stats rep)"
    and "\<forall>r \<in> set (pr_schedule_records rep). record_wf r"
  shows "gap_cycles (core_gaps core (st_makespan_cycles (pr_stats rep)) 0 (merge_intervals (core_work rep core))) =
    {0..<st_makespan_cycles (pr_stats rep)} - working_cycles rep core"
proof -
  let ?ivs = "core_work rep core"
  have member: "r \<in> set (operation_records rep) \<Longrightarrow> r \<in> set (pr_schedule_records rep)" for r
    by (simp add: operation_records_def)
  have "proper ?ivs" using record_intervals_proper [of "operation_records rep"] assms(2) member by blast
  from merge_intervals_correct [OF this]
  have merged: "proper (merge_intervals ?ivs)" "separated (merge_intervals ?ivs)" "cover (merge_intervals ?ivs) = cover ?ivs"
    by auto
  have within: "0 \<le> start \<and> stop \<le> st_makespan_cycles (pr_stats rep)" if "(start, stop) \<in> set (merge_intervals ?ivs)" for start stop
  proof -
    from merge_intervals_ends [OF that] obtain r q where
      "r \<in> set (pr_schedule_records rep)" "start = er_start_cycle r"
      "q \<in> set (pr_schedule_records rep)" "stop = er_end_cycle q"
      by (auto simp: record_interval_def operation_records_def)
    then show ?thesis using assms(2) record_ends_in_makespan [OF assms(1)] by (auto simp: record_wf_def)
  qed
  have "cover ?ivs = working_cycles rep core"
    by (auto simp: cover_record_intervals working_cycles_def has_duration_def er_duration_cycles_def)
  with core_gaps_cycles [OF merged(1,2), of 0 "st_makespan_cycles (pr_stats rep)" core] within merged(3)
  show ?thesis by auto
qed

text \<open>
  C37: For a core that runs an operation, the inactive intervals of a report cover exactly the
  cycles of the schedule in which the core runs none; none of them is empty, and no interval left
  out of the five reported ones is longer than a reported one.
\<close>

theorem inactive_intervals_are_exact:
  assumes "from_records (pr_schedule_records rep) bindings diagnostics watermark = Inr (pr_stats rep)"
    and "\<forall>r \<in> set (pr_schedule_records rep). record_wf r"
    and "core \<in> er_core_id ` {r \<in> set (operation_records rep). has_duration r}"
  shows "gap_cycles (filter (\<lambda>iv. ii_core_id iv = core) (inactive_intervals rep)) =
      {0..<st_makespan_cycles (pr_stats rep)} - working_cycles rep core \<and>
    (\<forall>iv \<in> set (inactive_intervals rep). ii_start_cycle iv < ii_end_cycle iv) \<and>
    (\<forall>iv \<in> set (top_inactive_intervals rep). \<forall>other \<in> set (inactive_intervals rep).
       other \<notin> set (top_inactive_intervals rep) \<longrightarrow> ii_duration_cycles other \<le> ii_duration_cycles iv)"
proof (intro conjI ballI impI)
  let ?gaps = "\<lambda>core. core_gaps core (st_makespan_cycles (pr_stats rep)) 0 (merge_intervals (core_work rep core))"
  have members: "iv \<in> set (inactive_intervals rep) \<longleftrightarrow>
      (\<exists>core \<in> er_core_id ` {r \<in> set (operation_records rep). has_duration r}. iv \<in> set (?gaps core))" for iv
    by (force simp: inactive_intervals_def group_by_core_mem)
  have "set (filter (\<lambda>iv. ii_core_id iv = core) (inactive_intervals rep)) = set (?gaps core)"
    using assms(3) core_gaps_core by (fastforce simp: members)
  then have "gap_cycles (filter (\<lambda>iv. ii_core_id iv = core) (inactive_intervals rep)) = gap_cycles (?gaps core)"
    by (simp only: gap_cycles_def)
  then show "gap_cycles (filter (\<lambda>iv. ii_core_id iv = core) (inactive_intervals rep)) =
      {0..<st_makespan_cycles (pr_stats rep)} - working_cycles rep core"
    by (simp only: core_work_merged [OF assms(1,2)])
  show "ii_start_cycle iv < ii_end_cycle iv" if "iv \<in> set (inactive_intervals rep)" for iv
    using that core_gaps_core by (fastforce simp: members)
  show "ii_duration_cycles other \<le> ii_duration_cycles iv" if "iv \<in> set (top_inactive_intervals rep)"
    "other \<in> set (inactive_intervals rep)" "other \<notin> set (top_inactive_intervals rep)" for iv other
    using take_sort_key_least [OF that(1) [unfolded top_inactive_intervals_def] that(2)] that(3)
    by (auto simp: top_inactive_intervals_def inactive_key_def less_eq_prod_def)
qed

definition sample_stats_empty :: simulation_stats where
  "sample_stats_empty = \<lparr>st_makespan_cycles = 0, st_task_count = 0, st_busy_cycles_by_resource = [],
     st_utilization_by_resource = [], st_wait_cycles_by_reason = [], st_completion_cycle_by_core = [],
     st_operation_counts = [], st_memory_bytes_by_path = [], st_hazard_counts = [],
     st_peak_local_memory_bytes_by_scope = [], st_load_imbalance_cycles = 0\<rparr>"

definition sample_report :: "simulation_stats \<Rightarrow> performance_report" where
  "sample_report st =
     \<lparr>pr_platform = ''A2'', pr_calibration = ''analytical'', pr_timing_estimator = ''operation'',
      pr_sync_only = False, pr_trace_path = None, pr_stats = st,
      pr_critical_path = critical_chain [sample_record ''t'' 0 4, sample_record ''u'' 6 8],
      pr_schedule_records = [sample_record ''t'' 0 4, sample_record ''u'' 6 8], pr_timing_limitations = []\<rparr>"

theorem inactive_intervals_are_exact_witness:
  "\<exists>st. from_records [sample_record ''t'' 0 4, sample_record ''u'' 6 8] Map.empty [] [] = Inr st \<and>
    gap_cycles (filter (\<lambda>iv. ii_core_id iv = 0) (inactive_intervals (sample_report st))) = {4..<6}"
proof -
  obtain st where st: "from_records [sample_record ''t'' 0 4, sample_record ''u'' 6 8] Map.empty [] [] = Inr st"
    "st_makespan_cycles st = 8" using sample_stats by blast
  have ops: "operation_records (sample_report st) = [sample_record ''t'' 0 4, sample_record ''u'' 6 8]"
    by (simp add: operation_records_def sample_report_def sample_record_def)
  have "working_cycles (sample_report st) 0 = {0..<4} \<union> {6..<8}"
    by (simp add: working_cycles_def ops) (simp add: sample_record_def)
  moreover have "0 \<in> er_core_id ` {r \<in> set (operation_records (sample_report st)). has_duration r}"
    unfolding ops by (rule image_eqI [of _ _ "sample_record ''t'' 0 4"])
      (simp_all add: sample_record_def has_duration_def er_duration_cycles_def)
  ultimately show ?thesis
    using inactive_intervals_are_exact [of "sample_report st" Map.empty "[]" "[]" 0] st
    by (auto simp: sample_report_def sample_record_wf)
qed

section \<open>Copies overlapped with compute\<close>

definition is_compute :: "exec_record \<Rightarrow> bool" where
  "is_compute r \<longleftrightarrow> \<not> is_copy r \<and> er_pipe r \<in> {MATRIX, VECTOR, FIX}"

definition class_cycles :: "(exec_record \<Rightarrow> bool) \<Rightarrow> exec_record list \<Rightarrow> int \<Rightarrow> int set" where
  "class_cycles P records core =
     (\<Union>r \<in> set (filter (\<lambda>r. P r \<and> er_core_id r = core) records). {er_start_cycle r..<er_end_cycle r})"

lemma overlap_groups:
  "foldl overlap_step ([], []) records =
     (group_by_core (\<lambda>r. has_duration r \<and> is_copy r) records,
      group_by_core (\<lambda>r. has_duration r \<and> is_compute r) records)"
proof (induction records rule: rev_induct)
  case (snoc r records)
  have "pipe_value (er_pipe r) \<in> {''m'', ''v'', ''fix''} \<longleftrightarrow> er_pipe r \<in> {MATRIX, VECTOR, FIX}"
    by (cases "er_pipe r") auto
  with snoc show ?case
    by (auto simp: group_by_core_snoc overlap_step_def has_duration_def is_compute_def)
qed (simp add: group_by_core_def)

lemma group_overlap:
  assumes "\<forall>r \<in> set records. record_wf r"
  shows "intersection_length (merge_intervals (dict_get (group_by_core P records) core []))
      (merge_intervals (dict_get (group_by_core Q records) core [])) =
    int (card (class_cycles P records core \<inter> class_cycles Q records core))"
proof -
  have merged: "proper (merge_intervals (dict_get (group_by_core R records) core [])) \<and>
      separated (merge_intervals (dict_get (group_by_core R records) core [])) \<and>
      cover (merge_intervals (dict_get (group_by_core R records) core [])) = class_cycles R records core" for R
    using merge_intervals_correct [OF record_intervals_proper [OF assms]]
    by (simp add: group_by_core_get cover_record_intervals class_cycles_def)
  show ?thesis
    using merged [of P] merged [of Q] by (simp add: intersection_length_def intersection_sweep_card)
qed

lemma class_cycles_duration: "class_cycles (\<lambda>r. has_duration r \<and> P r) records core = class_cycles P records core"
  by (auto simp: class_cycles_def has_duration_def er_duration_cycles_def)

lemma class_cycles_none: "core \<notin> er_core_id ` {r \<in> set records. P r} \<Longrightarrow> class_cycles P records core = {}"
  by (auto simp: class_cycles_def)

lemma sum_list_nonzero: "sum_list (map f (filter (\<lambda>x. f x \<noteq> 0) xs)) = sum_list (map f (xs :: 'a list) :: int list)"
  by (induction xs) auto

text \<open>
  The reported overlap is the sum over the cores of the number of cycles in which the core runs
  both a copy and a compute operation, whatever the pipes and however the operations overlap.
\<close>

theorem copy_compute_overlap_counts_cycles:
  assumes "\<forall>r \<in> set (pr_schedule_records rep). record_wf r"
  shows "os_total_per_core_cycles (copy_compute_overlap rep) =
    (\<Sum>core \<in> er_core_id ` set (operation_records rep).
       int (card (class_cycles is_copy (operation_records rep) core \<inter> class_cycles is_compute (operation_records rep) core)))"
proof -
  let ?rs = "operation_records rep"
  let ?P = "\<lambda>r. has_duration r \<and> is_copy r" and ?Q = "\<lambda>r. has_duration r \<and> is_compute r"
  let ?both = "er_core_id ` {r \<in> set ?rs. ?P r} \<inter> er_core_id ` {r \<in> set ?rs. ?Q r}"
  let ?count = "\<lambda>core. int (card (class_cycles is_copy ?rs core \<inter> class_cycles is_compute ?rs core))"
  have wf: "\<forall>r \<in> set ?rs. record_wf r" using assms by (simp add: operation_records_def)
  have "core_overlaps ?rs = filter (\<lambda>item. co_cycles item \<noteq> 0)
      (map (\<lambda>core. \<lparr>co_core_id = core, co_cycles = ?count core\<rparr>) (sorted_list_of_set ?both))"
    using group_by_core_keys [of ?P ?rs] group_by_core_keys [of ?Q ?rs]
    by (simp add: core_overlaps_def overlap_groups group_overlap [OF wf] class_cycles_duration del: sorted_list_of_set_nonempty)
  then have "os_total_per_core_cycles (copy_compute_overlap rep) =
      sum_list (map co_cycles (map (\<lambda>core. \<lparr>co_core_id = core, co_cycles = ?count core\<rparr>) (sorted_list_of_set ?both)))"
    by (simp only: copy_compute_overlap_def Let_def overlap_summary.simps sum_list_nonzero)
  also have "\<dots> = sum ?count ?both"
    by (simp add: o_def sum_list_distinct_conv_sum_set)
  also have "\<dots> = sum ?count (er_core_id ` set ?rs)"
  proof (rule sum.mono_neutral_left)
    have none: "class_cycles is_copy ?rs core \<inter> class_cycles is_compute ?rs core = {}" if "core \<notin> ?both" for core
      using that class_cycles_none [of core ?rs ?P] class_cycles_none [of core ?rs ?Q]
      unfolding class_cycles_duration by blast
    show "\<forall>core \<in> er_core_id ` set ?rs - ?both. ?count core = 0"
    proof
      fix core assume "core \<in> er_core_id ` set ?rs - ?both"
      then have "core \<notin> ?both" by blast
      from none [OF this] show "?count core = 0" by (simp only: card.empty of_nat_0)
    qed
  qed auto
  finally show ?thesis .
qed

definition copying_record :: exec_record where
  "copying_record = (sample_record ''c'' 2 8)\<lparr>er_operation := ''copy_gm_to_ub'', er_pipe := MTE2\<rparr>"

theorem copy_compute_overlap_counts_cycles_witness:
  "os_total_per_core_cycles (copy_compute_overlap
     ((sample_report sample_stats_empty)\<lparr>pr_schedule_records := [sample_record ''t'' 0 4, copying_record]\<rparr>)) = 2"
proof -
  let ?rep = "(sample_report sample_stats_empty)\<lparr>pr_schedule_records := [sample_record ''t'' 0 4, copying_record]\<rparr>"
  have ops: "operation_records ?rep = [sample_record ''t'' 0 4, copying_record]"
    by (simp add: operation_records_def sample_record_def copying_record_def)
  have copy: "\<not> is_copy (sample_record ''t'' 0 4)" "is_copy copying_record"
    by (simp_all add: is_copy_def sample_record_def copying_record_def py_lower_def lower_char_def)
  have "class_cycles is_copy (operation_records ?rep) 0 = {2..<8}"
    "class_cycles is_compute (operation_records ?rep) 0 = {0..<4}"
    by (simp_all add: ops class_cycles_def is_compute_def copy) (simp_all add: sample_record_def copying_record_def)
  moreover have "er_core_id ` set (operation_records ?rep) = {0}"
    by (simp add: ops) (simp add: sample_record_def copying_record_def)
  moreover have "{2..<8} \<inter> {0..<4} = {2..<4 :: int}" by auto
  moreover have "\<forall>r \<in> set (pr_schedule_records ?rep). record_wf r"
    by (simp add: sample_record_wf) (simp add: copying_record_def record_wf_def sample_record_def)
  ultimately show ?thesis using copy_compute_overlap_counts_cycles [of ?rep] by simp
qed

section \<open>Comparison\<close>

lemma insort_key_map: "insort_key k (f x) (map f xs) = map f (insort_key (\<lambda>y. k (f y)) x xs)"
  by (induction xs) auto

lemma sort_key_map: "sort_key k (map f xs) = map f (sort_key (\<lambda>y. k (f y)) xs)"
  by (induction xs) (simp_all add: insort_key_map)

definition swap_utilization :: "utilization_change \<Rightarrow> utilization_change" where
  "swap_utilization item = \<lparr>uc_resource = uc_resource item,
     uc_baseline_utilization = uc_candidate_utilization item,
     uc_candidate_utilization = uc_baseline_utilization item, uc_delta = - uc_delta item\<rparr>"

definition swap_wait :: "wait_change \<Rightarrow> wait_change" where
  "swap_wait item = \<lparr>wc_reason = wc_reason item, wc_baseline_cycles = wc_candidate_cycles item,
     wc_candidate_cycles = wc_baseline_cycles item, wc_delta_cycles = - wc_delta_cycles item\<rparr>"

lemma both_keys_commute: "both_keys left right = both_keys right left"
  by (simp add: both_keys_def Un_commute)

lemma utilization_changes_swap: "utilization_changes right left = map swap_utilization (utilization_changes left right)"
  by (simp add: utilization_changes_def sort_key_map both_keys_commute [of right left] Let_def
      swap_utilization_def abs_minus_commute)

lemma wait_changes_swap: "wait_changes right left = map swap_wait (wait_changes left right)"
  by (simp add: wait_changes_def sort_key_map both_keys_commute [of right left] Let_def
      swap_wait_def abs_minus_commute)

lemma from_records_keys:
  "from_records records bindings diagnostics watermark = Inr st \<Longrightarrow>
     fst ` set (st_utilization_by_resource st) = fst ` set (st_busy_cycles_by_resource st)"
  by (auto simp: from_records_def Let_def image_image case_prod_beta split: if_splits sum.splits)

lemma report_has_document:
  assumes "from_records records bindings diagnostics watermark = Inr (pr_stats rep)"
  shows "\<exists>doc. report_to_dict rep = Inr doc"
proof -
  have "\<exists>item. busiest_resource rep resource = Inr item" if "resource \<in> set (top_keys (st_utilization_by_resource (pr_stats rep)))" for resource
  proof -
    have "resource \<in> fst ` set (st_busy_cycles_by_resource (pr_stats rep))"
      using that from_records_keys [OF assms] by (auto simp: top_keys_def dest: in_set_takeD)
    then obtain cycles where "map_of (st_busy_cycles_by_resource (pr_stats rep)) resource = Some cycles"
      by (metis domD dom_map_of_conv_image_fst)
    then show ?thesis by (simp add: busiest_resource_def)
  qed
  then obtain f where f: "\<And>resource. resource \<in> set (top_keys (st_utilization_by_resource (pr_stats rep))) \<Longrightarrow>
      busiest_resource rep resource = Inr (f resource)" by metis
  have "map_res (busiest_resource rep) (top_keys (st_utilization_by_resource (pr_stats rep))) =
      Inr (map f (top_keys (st_utilization_by_resource (pr_stats rep))))"
    by (rule map_res_all_Inr) (rule f)
  then show ?thesis by (simp add: report_to_dict_def Let_def)
qed

text \<open>
  Reports whose statistics were computed from records can always be compared, unless they are
  of different platforms, which is an error; swapping the two negates every delta and keeps the
  order of the reported changes.
\<close>

theorem comparison_is_antisymmetric:
  assumes "from_records records bindings diagnostics watermark = Inr (pr_stats baseline)"
    and "from_records records' bindings' diagnostics' watermark' = Inr (pr_stats candidate)"
  shows "if pr_platform baseline \<noteq> pr_platform candidate
    then compare baseline candidate = Inl (ValueError ''cannot compare simulator reports from different platforms'')
    else \<exists>there back. compare baseline candidate = Inr there \<and> compare candidate baseline = Inr back \<and>
       cmp_makespan_delta there = st_makespan_cycles (pr_stats candidate) - st_makespan_cycles (pr_stats baseline) \<and>
       cmp_makespan_delta back = - cmp_makespan_delta there \<and> cmp_overlap_delta back = - cmp_overlap_delta there \<and>
       cmp_chain_span_baseline back = cmp_chain_span_candidate there \<and>
       cmp_chain_span_candidate back = cmp_chain_span_baseline there \<and>
       cmp_timing_comparable back = cmp_timing_comparable there \<and>
       cmp_top_resource_utilization_changes back = map swap_utilization (cmp_top_resource_utilization_changes there) \<and>
       cmp_top_wait_cycle_changes back = map swap_wait (cmp_top_wait_cycle_changes there)"
proof (cases "pr_platform baseline = pr_platform candidate")
  case False
  then show ?thesis by (simp add: compare_def)
next
  case True
  obtain b c where b: "report_to_dict baseline = Inr b" and c: "report_to_dict candidate = Inr c"
    using report_has_document [OF assms(1)] report_has_document [OF assms(2)] by blast
  have "rd_schedule b = stats_to_dict (pr_stats baseline)" "rd_schedule c = stats_to_dict (pr_stats candidate)"
    using b c by (auto simp: report_to_dict_def Let_def split: sum.splits)
  with True show ?thesis
    by (auto simp: compare_def b c Let_def take_map stats_to_dict_def
        utilization_changes_swap [of "st_utilization_by_resource (pr_stats candidate)" "st_utilization_by_resource (pr_stats baseline)"]
        wait_changes_swap [of "st_wait_cycles_by_reason (pr_stats candidate)" "st_wait_cycles_by_reason (pr_stats baseline)"])
qed

theorem comparison_is_antisymmetric_witness:
  "\<exists>there back. compare (sample_report sample_stats_empty) (sample_report sample_stats_empty) = Inr there \<and>
    compare (sample_report sample_stats_empty) (sample_report sample_stats_empty) = Inr back \<and>
    cmp_makespan_delta back = - cmp_makespan_delta there"
proof -
  have "from_records [] Map.empty [] [] = Inr (pr_stats (sample_report sample_stats_empty))"
    by (simp add: from_records_def sample_report_def sample_stats_empty_def hazard_counts_def)
  from comparison_is_antisymmetric [OF this this] show ?thesis by simp blast
qed

end
