(* ===== verification/Sim_Run_Report.thy ===== *)
theory Sim_Run_Report
  imports Sim_Report_Props
begin

text \<open>
  From a run to its report: the records a run returns are well formed, so everything shown of
  statistics, traces and reports applies to them.
\<close>

definition run_records_ok :: "'st schedule_state \<Rightarrow> bool" where
  "run_records_ok s \<longleftrightarrow> (\<forall>r \<in> set (sl_records s). record_wf r) \<and>
     (\<forall>tid r. map_of (sl_completed s) tid = Some r \<longrightarrow> er_category r = ''operation'')"

lemma commit_task_records:
  assumes "commit_task m limit deps predecessor d s t = Inr s'" "run_records_ok s"
  shows "run_records_ok s'"
proof -
  from assms(1) obtain waits r where w: "wait_records t d (ready_cycles_of (sl_completed s) deps predecessor d) = Inr waits"
    and r: "record_wf r" "er_category r = ''operation''"
    and s': "sl_records s' = sl_records s @ waits @ [r]" "sl_completed s' = dict_set (task_id t) r (sl_completed s)"
    by (auto simp: commit_task_def Let_def dest!: from_task_InrD)
  have "\<forall>w \<in> set waits. record_wf w" using w by (auto simp: wait_records_def Let_def split: if_splits)
  with assms(2) r s' show ?thesis by (auto simp: run_records_ok_def)
qed

lemma schedule_task_records:
  assumes "schedule_task m limit fifo s t = Inr s'" "run_records_ok s"
  shows "run_records_ok s'"
  using assms(1)
proof (cases rule: schedule_task_cases)
  case (commit st d)
  then show ?thesis using assms(2) by (intro commit_task_records [OF commit(6)]) (simp add: run_records_ok_def)
qed (use assms(2) in \<open>simp_all add: run_records_ok_def block_task_def\<close>)

lemma schedule_pass_records:
  assumes "schedule_pass m limit fifo tasks s = Inr s'" "run_records_ok s"
  shows "run_records_ok s'"
proof -
  have "run_records_ok (s\<lparr>sl_made_progress := False, sl_blocked := []\<rparr>)" using assms(2) by (simp add: run_records_ok_def)
  with for_each_invariant [OF assms(1) [unfolded schedule_pass_def], where P = run_records_ok]
  show ?thesis using schedule_task_records by blast
qed

lemma initial_records_ok: "run_records_ok (initial_state st tasks)"
  by (simp add: run_records_ok_def initial_state_def)

lemma mset_map_cong: "mset xs = mset ys \<Longrightarrow> mset (map f xs) = mset (map f ys)"
  by simp

text \<open>The final state of a run that returns, in the terms of the scheduler's invariant.\<close>

lemma run_final:
  assumes "run m default_a2 given timed_out p bindings = Some (Inr (res, warning))"
    and "distinct (map task_id (program_tasks p))"
  obtains completed waits limit where
    "mset (sr_records res) = mset (map (record_at completed \<circ> task_id) (program_tasks p)) + mset waits"
    "\<forall>w \<in> set waits. wait_ok completed w"
    "\<forall>t \<in> set (program_tasks p). scheduled_ok limit (fifo_predecessors (program_tasks p)) completed t
       (record_at completed (task_id t)) \<and> er_category (record_at completed (task_id t)) = ''operation''"
    "dom (map_of completed) = set (map task_id (program_tasks p))"
    "\<forall>r \<in> set (sr_records res). record_wf r"
    "from_records (sr_records res) bindings [] [] = Inr (sr_stats res)"
  using assms(1)
proof (rule run_Inr)
  let ?tasks = "program_tasks p" and ?fifo = "fifo_predecessors (program_tasks p)"
  fix config st s
  assume loop: "run_loop m config timed_out ?fifo ?tasks 0 (initial_state st ?tasks) = Some (Inr s)"
    and recs: "sr_records res = sort_key record_order (sl_records s)"
    and stats: "from_records (sr_records res) bindings [] [] = Inr (sr_stats res)"
  have ok: "run_records_ok s"
    using run_loop_invariant [OF loop, where P = run_records_ok] schedule_pass_records
    by (metis initial_records_ok)
  have "schedule_inv (sc_max_cycles config) ?fifo ?tasks s \<and> sl_pending s = []"
    using loop initial_inv schedule_pass_inv [OF _ _ assms(2)] by (rule run_loop_invariant)
  then obtain waits where mset: "mset (sl_records s) = mset (map (record_at (sl_completed s) \<circ> task_id) ?tasks) + mset waits"
    and waits: "\<forall>w \<in> set waits. wait_ok (sl_completed s) w"
    and sched: "\<forall>t \<in> set ?tasks. scheduled_ok (sc_max_cycles config) ?fifo (sl_completed s) t (record_at (sl_completed s) (task_id t))"
    and dom: "dom (map_of (sl_completed s)) = set (map task_id ?tasks)"
    using finished_records assms(2) by metis
  have "er_category (record_at (sl_completed s) (task_id t)) = ''operation''" if "t \<in> set ?tasks" for t
  proof -
    from dom that obtain r where "map_of (sl_completed s) (task_id t) = Some r" by auto
    then show ?thesis using ok by (simp add: run_records_ok_def record_at_def)
  qed
  with sched show ?thesis
    using mset waits dom stats ok by (intro that [of "sl_completed s" waits]) (auto simp: recs run_records_ok_def)
qed

lemma run_operation_ids:
  assumes "run m default_a2 given timed_out p bindings = Some (Inr (res, warning))"
    and "distinct (map task_id (program_tasks p))"
  shows "distinct (map er_task_id (filter (\<lambda>r. er_category r = ''operation'') (sr_records res)))"
proof -
  obtain completed waits limit where mset: "mset (sr_records res) = mset (map (record_at completed \<circ> task_id) (program_tasks p)) + mset waits"
    and waits: "\<forall>w \<in> set waits. wait_ok completed w"
    and placed: "\<forall>t \<in> set (program_tasks p). scheduled_ok limit (fifo_predecessors (program_tasks p)) completed t
       (record_at completed (task_id t)) \<and> er_category (record_at completed (task_id t)) = ''operation''"
    using assms by (rule run_final)
  let ?place = "record_at completed \<circ> task_id"
  have "mset (filter (\<lambda>r. er_category r = ''operation'') (sr_records res)) =
      mset (filter (\<lambda>r. er_category r = ''operation'') (map ?place (program_tasks p))) +
      mset (filter (\<lambda>r. er_category r = ''operation'') waits)"
    by (simp only: mset_filter mset filter_union_mset)
  moreover have "filter (\<lambda>r. er_category r = ''operation'') waits = []"
    using waits by (auto simp: wait_ok_def filter_empty_conv)
  moreover have "filter (\<lambda>r. er_category r = ''operation'') (map ?place (program_tasks p)) = map ?place (program_tasks p)"
    using placed by (intro filter_True) auto
  ultimately have "mset (filter (\<lambda>r. er_category r = ''operation'') (sr_records res)) = mset (map ?place (program_tasks p))"
    by (simp only: mset.simps add_0_right)
  then have "mset (map er_task_id (filter (\<lambda>r. er_category r = ''operation'') (sr_records res))) =
      mset (map er_task_id (map ?place (program_tasks p)))" by (rule mset_map_cong)
  moreover have "map er_task_id (map ?place (program_tasks p)) = map task_id (program_tasks p)"
    using placed by (auto dest: scheduled_okD(1))
  ultimately show ?thesis using assms(2) by (metis mset_eq_imp_distinct_iff)
qed

text \<open>Waiting ends before some operation does, so the operations determine the makespan.\<close>

lemma run_ends_with_operation:
  assumes "run m default_a2 given timed_out p bindings = Some (Inr (res, warning))"
    and "distinct (map task_id (program_tasks p))" and "w \<in> set (sr_records res)"
  shows "\<exists>r \<in> set (sr_records res). er_category r = ''operation'' \<and> er_end_cycle w \<le> er_end_cycle r"
proof -
  obtain completed waits limit where mset: "mset (sr_records res) = mset (map (record_at completed \<circ> task_id) (program_tasks p)) + mset waits"
    and waits: "\<forall>w \<in> set waits. wait_ok completed w"
    and placed: "\<forall>t \<in> set (program_tasks p). scheduled_ok limit (fifo_predecessors (program_tasks p)) completed t
       (record_at completed (task_id t)) \<and> er_category (record_at completed (task_id t)) = ''operation''"
    and dom: "dom (map_of completed) = set (map task_id (program_tasks p))"
    using assms(1,2) by (rule run_final)
  have members: "set (sr_records res) = (record_at completed \<circ> task_id) ` set (program_tasks p) \<union> set waits"
    using arg_cong [OF mset, of set_mset] by simp
  with assms(3) consider t where "t \<in> set (program_tasks p)" "w = record_at completed (task_id t)" | "w \<in> set waits" by auto
  then show ?thesis
  proof cases
    case 1
    then show ?thesis using placed assms(3) by blast
  next
    case 2
    then obtain tid r where r: "map_of completed tid = Some r" "er_end_cycle w = er_start_cycle r"
      using waits by (auto simp: wait_ok_def)
    then obtain t where t: "t \<in> set (program_tasks p)" "tid = task_id t" using dom by (metis domI image_iff set_map)
    with r have "record_at completed (task_id t) = r" by (simp add: record_at_def)
    with placed t(1) r(2) have "er_category r = ''operation''" "er_end_cycle w \<le> er_end_cycle r"
      using scheduled_okD(4) by fastforce+
    then show ?thesis using members t(1) \<open>record_at completed (task_id t) = r\<close> by auto
  qed
qed

lemma run_makespan:
  assumes "run m default_a2 given timed_out p bindings = Some (Inr (res, warning))"
    and "distinct (map task_id (program_tasks p))" and "program_tasks p \<noteq> []"
  shows "\<exists>r \<in> set (sr_records res). er_category r = ''operation''"
    and "Max (er_end_cycle ` operation_values (sr_records res)) = st_makespan_cycles (sr_stats res)"
proof -
  obtain completed waits where
    mset: "mset (sr_records res) = mset (map (record_at completed \<circ> task_id) (program_tasks p)) + mset waits"
    and wf: "\<forall>r \<in> set (sr_records res). record_wf r"
    and stats: "from_records (sr_records res) bindings [] [] = Inr (sr_stats res)"
    using assms(1,2) by (rule run_final)
  have "sr_records res \<noteq> []" using mset assms(3) by auto
  then have makespan: "st_makespan_cycles (sr_stats res) = Max (er_end_cycle ` set (sr_records res))"
    using from_records_acc [OF stats _ wf] by auto
  let ?ends = "er_end_cycle ` set (sr_records res)"
  have "finite ?ends" "?ends \<noteq> {}" using \<open>sr_records res \<noteq> []\<close> by auto
  then have "Max ?ends \<in> ?ends" by (rule Max_in)
  then obtain w where w: "w \<in> set (sr_records res)" "er_end_cycle w = Max ?ends" by auto
  obtain r where r: "r \<in> set (sr_records res)" "er_category r = ''operation''" "er_end_cycle w \<le> er_end_cycle r"
    using run_ends_with_operation [OF assms(1,2) w(1)] by blast
  then show "\<exists>r \<in> set (sr_records res). er_category r = ''operation''" by blast
  have ops: "operation_values (sr_records res) = {r \<in> set (sr_records res). er_category r = ''operation''}"
    by (rule operation_values_distinct [OF run_operation_ids [OF assms(1,2)]])
  have "er_end_cycle r = Max ?ends" using r w by (intro antisym) auto
  then show "Max (er_end_cycle ` operation_values (sr_records res)) = st_makespan_cycles (sr_stats res)"
    unfolding makespan ops using r(1,2) by (intro Max_eqI) (auto intro: rev_image_eqI)
qed

lemma last_chain_step: "chain \<noteq> [] \<Longrightarrow> cs_end_cycle (last (chain_steps chain)) = er_end_cycle (fst (last chain))"
  by (cases chain rule: rev_cases) (simp_all add: chain_steps_def enumerated_def case_prod_beta)

end
