(* ===== verification/Sim_Linear_Timing.thy ===== *)
theory Sim_Linear_Timing
  imports Complex_Main Sim_Timing
begin

text \<open>
  \<^verbatim>\<open>tilelang/simulator/linear_timing.py\<close>: linear cost fits of measured tile operations, the calibration
  that looks them up and the profile built on it.  A float is an exact rational, or \<open>None\<close> where
  the code asks \<open>isfinite\<close> and it is not.
\<close>

section \<open>Names\<close>

text \<open>\<open>s.split(sep)\<close> for a non-empty separator.\<close>

function py_split_from :: "string \<Rightarrow> string \<Rightarrow> string \<Rightarrow> string list" where
  "py_split_from sep acc [] = [acc]"
| "py_split_from sep acc (c # cs) =
     (if sep \<noteq> [] \<and> py_startswith (c # cs) sep
      then acc # py_split_from sep [] (drop (length sep) (c # cs))
      else py_split_from sep (acc @ [c]) cs)"
  by pat_completeness auto
termination
  by (relation "measure (\<lambda>(sep, acc, s). length s)") (auto simp: less_Suc_eq_le neq_Nil_conv)

definition py_split :: "string \<Rightarrow> string \<Rightarrow> string list" where
  "py_split s sep = py_split_from sep [] s"

text \<open>\<open>s.rsplit(sep, 1)[-1]\<close>: what follows the last separator.\<close>

fun after_last :: "string \<Rightarrow> string \<Rightarrow> string" where
  "after_last sep [] = []"
| "after_last sep (c # cs) =
     (if py_contains cs sep then after_last sep cs
      else if py_startswith (c # cs) sep then drop (length sep) (c # cs)
      else c # cs)"

text \<open>\<open>operation.split("<", 1)[0].rsplit("::", 1)[-1].rsplit(".", 1)[-1].lower()\<close>.\<close>

definition short_name :: "string \<Rightarrow> string" where
  "short_name op = py_lower (after_last ''.'' (after_last ''::'' (takeWhile (\<lambda>c. c \<noteq> CHR ''<'') op)))"

section \<open>Features\<close>

definition linear_bytes :: "(string, int) dict" where
  "linear_bytes = [(''float16'', 2), (''bfloat16'', 2), (''float32'', 4), (''int32'', 4), (''int16'', 2),
     (''int8'', 1), (''uint8'', 1)]"

definition input_bytes :: "string \<Rightarrow> int res" where
  "input_bytes dtype =
     (let parts = py_split dtype ''_to_''
      in if length parts > 2 \<or> (\<exists>part \<in> set parts. map_of linear_bytes part = None)
         then Inl (ValueError ''unsupported dtype'')
         else Inr (dict_get linear_bytes (hd parts) 0))"

text \<open>\<open>type(d) is int and d > 0\<close>, with the value; a \<open>bool\<close> is not of type \<open>int\<close>.\<close>

fun positive_dim :: "pyval \<Rightarrow> int option" where
  "positive_dim (PInt n) = (if 0 < n then Some n else None)"
| "positive_dim _ = None"

definition mma_operations :: "string list" where
  "mma_operations = [''mma'', ''mma_init'']"

definition pad_to :: "int \<Rightarrow> int \<Rightarrow> int" where
  "pad_to tile n = (n + tile - 1) div tile * tile"

definition timing_feature :: "string \<Rightarrow> pyval list \<Rightarrow> string \<Rightarrow> int res" where
  "timing_feature op shape dtype =
     and_then (input_bytes dtype) (\<lambda>itemsize.
       if shape = [] \<or> None \<in> set (map positive_dim shape)
       then Inl (ValueError ''shape must have positive concrete integer dimensions'')
       else let dims = map (the \<circ> positive_dim) shape
            in if op \<in> set mma_operations
               then (case dims of
                       [m, n, k] \<Rightarrow> Inr (pad_to 16 m * pad_to 16 n * pad_to (32 div itemsize) k)
                     | _ \<Rightarrow> Inl (ValueError ''MMA requires (M, N, K)''))
               else Inr (prod_list dims * itemsize))"

section \<open>Linear costs\<close>

record linear_cost =
  lc_slope_ns :: rat
  lc_intercept_ns :: rat
  lc_min_feature :: rat
  lc_max_feature :: rat
  lc_feature :: string
  lc_evidence :: string

definition LinearCost ::
  "rat option \<Rightarrow> rat option \<Rightarrow> rat option \<Rightarrow> rat option \<Rightarrow> string \<Rightarrow> string \<Rightarrow> linear_cost res" where
  "LinearCost slope intercept low high feature evidence =
     (case (slope, intercept, low, high) of
        (Some a, Some b, Some lo, Some hi) \<Rightarrow>
          if a < 0 \<or> \<not> (0 < lo \<and> lo < hi) then Inl (ValueError ''invalid slope or measured domain'')
          else if a * lo + b \<le> 0 then Inl (ValueError ''predicted time must be positive on the measured domain'')
          else if feature \<notin> {''bytes'', ''padded_mnk''} then Inl (ValueError ''unsupported feature'')
          else if py_strip evidence = [] then Inl (ValueError ''measurement evidence is required'')
          else Inr \<lparr>lc_slope_ns = a, lc_intercept_ns = b, lc_min_feature = lo, lc_max_feature = hi,
                    lc_feature = feature, lc_evidence = evidence\<rparr>
      | _ \<Rightarrow> Inl (ValueError ''linear parameters must be finite''))"

definition predict_ns :: "linear_cost \<Rightarrow> rat option \<Rightarrow> bool \<Rightarrow> rat res" where
  "predict_ns cost feature extrapolate =
     (case feature of
        None \<Rightarrow> Inl (ValueError ''feature must be finite and positive'')
      | Some x \<Rightarrow>
          if x \<le> 0 then Inl (ValueError ''feature must be finite and positive'')
          else if \<not> extrapolate \<and> \<not> (lc_min_feature cost \<le> x \<and> x \<le> lc_max_feature cost)
          then Inl (ValueError ''feature outside measured domain'')
          else let result = lc_slope_ns cost * x + lc_intercept_ns cost
               in if result \<le> 0 then Inl (ValueError ''nonpositive predicted time'') else Inr result)"

definition relative_error :: "linear_cost \<Rightarrow> rat option \<Rightarrow> rat option \<Rightarrow> rat res" where
  "relative_error cost feature observed_ns =
     (case observed_ns of
        None \<Rightarrow> Inl (ValueError ''observation must be finite and positive'')
      | Some y \<Rightarrow>
          if y \<le> 0 then Inl (ValueError ''observation must be finite and positive'')
          else map_sum id (\<lambda>predicted. predicted / y - 1) (predict_ns cost feature False))"

text \<open>\<open>to_dict\<close> and \<open>from_dict\<close>: the six fields as keyword arguments.\<close>

type_synonym cost_fields = "rat option \<times> rat option \<times> rat option \<times> rat option \<times> string \<times> string"

definition cost_to_dict :: "linear_cost \<Rightarrow> cost_fields" where
  "cost_to_dict cost = (Some (lc_slope_ns cost), Some (lc_intercept_ns cost), Some (lc_min_feature cost),
     Some (lc_max_feature cost), lc_feature cost, lc_evidence cost)"

definition cost_from_dict :: "cost_fields \<Rightarrow> linear_cost res" where
  "cost_from_dict = (\<lambda>(slope, intercept, low, high, feature, evidence).
     LinearCost slope intercept low high feature evidence)"

section \<open>Least squares\<close>

definition mean :: "rat list \<Rightarrow> rat" where
  "mean xs = sum_list xs / of_nat (length xs)"

definition measured_point :: "rat option \<times> rat option \<Rightarrow> (rat \<times> rat) option" where
  "measured_point = (\<lambda>(x, y). case (x, y) of
     (Some a, Some b) \<Rightarrow> if a \<le> 0 \<or> b \<le> 0 then None else Some (a, b) | _ \<Rightarrow> None)"

definition fit_linear_cost :: "(rat option \<times> rat option) list \<Rightarrow> string \<Rightarrow> string \<Rightarrow> linear_cost res" where
  "fit_linear_cost given feature evidence =
     (if length given < 2 then Inl (ValueError ''at least two training observations are required'')
      else if None \<in> set (map measured_point given)
      then Inl (ValueError ''measurements must be finite and positive'')
      else let points = map (the \<circ> measured_point) given;
               mean_x = mean (map fst points); mean_y = mean (map snd points);
               variance = sum_list (map (\<lambda>(x, y). (x - mean_x) ^ 2) points)
           in if variance = 0 then Inl (ValueError ''at least two distinct feature values are required'')
              else let slope = sum_list (map (\<lambda>(x, y). (x - mean_x) * (y - mean_y)) points) / variance
                   in LinearCost (Some slope) (Some (mean_y - slope * mean_x))
                        (Some (Min (set (map fst points)))) (Some (Max (set (map fst points)))) feature evidence)"

section \<open>Calibration\<close>

record family =
  fa_operation :: string
  fa_dtype :: string
  fa_geometry :: string
  fa_measurement_mode :: string
  fa_status :: string
  fa_cost :: cost_fields

record calibration_report =
  cr_schema :: string
  cr_unit :: string
  cr_platform_measured :: string
  cr_families :: "family list"

type_synonym family_key = "string \<times> string \<times> string \<times> string"

type_synonym calibration = "(family_key, linear_cost) dict"

definition family_key :: "family \<Rightarrow> family_key" where
  "family_key f = (fa_operation f, fa_dtype f, fa_geometry f, fa_measurement_mode f)"

definition add_family :: "calibration \<Rightarrow> family \<Rightarrow> calibration res" where
  "add_family costs f =
     (if fa_status f \<noteq> ''fitted'' then Inr costs
      else if map_of costs (family_key f) \<noteq> None then Inl (ValueError ''duplicate calibration family'')
      else map_sum id (\<lambda>cost. dict_set (family_key f) cost costs) (cost_from_dict (fa_cost f)))"

definition LinearCalibration :: "calibration_report \<Rightarrow> string \<Rightarrow> calibration res" where
  "LinearCalibration report platform =
     (if cr_schema report \<noteq> ''tilelang-linear-cost-calibration-v1''
      then Inl (ValueError ''unsupported calibration schema'')
      else if cr_unit report \<noteq> ''ns'' \<or> cr_platform_measured report \<noteq> platform
      then Inl (ValueError ''calibration unit/platform does not match measured hardware'')
      else for_each add_family [] (cr_families report))"

definition last_dim :: "pyval list \<Rightarrow> string" where
  "last_dim shape = py_str (last shape)"

definition default_geometry :: "string \<Rightarrow> pyval list \<Rightarrow> string" where
  "default_geometry op shape =
     (if py_startswith op ''reduce_'' then ''last_axis_width_'' @ last_dim shape
      else if op = ''copy_l0c_gm'' \<and> length shape = 2 then ''row_elements_'' @ last_dim shape
      else ''contiguous'')"

definition expected_feature :: "string \<Rightarrow> string" where
  "expected_feature op = (if op \<in> set mma_operations then ''padded_mnk'' else ''bytes'')"

definition estimate_ns :: "calibration \<Rightarrow> string \<Rightarrow> pyval list \<Rightarrow> string \<Rightarrow> string \<Rightarrow> string option \<Rightarrow> rat res" where
  "estimate_ns costs op shape dtype measurement_mode geometry =
     and_then (timing_feature op shape dtype) (\<lambda>feature.
       let geometry = (case geometry of None \<Rightarrow> default_geometry op shape | Some g \<Rightarrow> g)
       in case map_of costs (op, dtype, geometry, measurement_mode) of
            None \<Rightarrow> Inl (ValueError ''no measured calibration'')
          | Some cost \<Rightarrow>
              if lc_feature cost \<noteq> expected_feature op
              then Inl (ValueError ''calibration feature does not match operation'')
              else predict_ns cost (Some (rat_of_int feature)) False)"

section \<open>Bridged tasks\<close>

fun rt_value :: "rt_int \<Rightarrow> pyval" where
  "rt_value (RInt n) = PInt n"
| "rt_value (RBool b) = PBool b"
| "rt_value (RAffine a) = PAffine a"
| "rt_value (RSymbolic op arguments) = PSymbolic op arguments"
| "rt_value RNonInt = POther []"

text \<open>\<open>getattr(value, "shape", None)\<close>, and \<open>getattr(value, "dtype", missing)\<close> with its aliases.\<close>

fun shape_value :: "pyval \<Rightarrow> pyval" where
  "shape_value (PRegion r) = PSeq (map rt_value (br_shape r))"
| "shape_value _ = PNone"

definition dtype_alias :: "string \<Rightarrow> string" where
  "dtype_alias dtype = dict_get [(''half'', ''float16''), (''float'', ''float32'')] dtype dtype"

definition normal_dtype :: "string \<Rightarrow> pyval \<Rightarrow> string" where
  "normal_dtype missing v = dtype_alias (py_lower (dtype_text missing v))"

text \<open>\<open>metadata.get(key, {})\<close> where a method of the mapping is called next.\<close>

definition details_of :: "metadata \<Rightarrow> string \<Rightarrow> metadata res" where
  "details_of md key =
     (case dict_get md key (PMap []) of
        PMap details \<Rightarrow> Inr details
      | _ \<Rightarrow> Inl (AttributeError ''object has no attribute get''))"

fun path_scope :: "pyval \<Rightarrow> string" where
  "path_scope (PRegion r) = (if scope_value (br_scope r) = ''workspace'' then ''gm'' else scope_value (br_scope r))"
| "path_scope _ = ''None''"

type_synonym raw_feature = "string \<times> pyval \<times> string"

definition mma_feature :: "metadata \<Rightarrow> string \<Rightarrow> raw_feature res" where
  "mma_feature md dtype =
     and_then (details_of md ''mma'') (\<lambda>mma.
       Inr (if py_truth (dict_get mma ''init'' (PBool True)) then ''mma_init'' else ''mma'',
            PSeq (map (md_get mma) [''rows'', ''cols'', ''inner'']), dtype))"

definition reduce_feature :: "metadata \<Rightarrow> string \<Rightarrow> pyval \<Rightarrow> string \<Rightarrow> raw_feature res" where
  "reduce_feature md short shape dtype =
     (if py_int (dict_get md ''reduce_axis'' (PInt (- 1))) \<noteq> Some (- 1) \<or> \<not> py_truth (dict_get md ''clear'' (PBool True))
      then Inl (ValueError ''no measured reduction for axis=0 or clear=False'')
      else let op = py_str (dict_get md ''reduce_kind'' (PStr short))
           in Inr (dict_get [(''sum'', ''reduce_sum''), (''max'', ''reduce_max'')] op op, shape, dtype))"

definition copy_shape :: "metadata \<Rightarrow> string \<Rightarrow> pyval \<Rightarrow> string \<Rightarrow> pyval res" where
  "copy_shape md op shape dtype =
     (case md_get md ''transfer_bytes'' of
        PNone \<Rightarrow> Inr shape
      | transferred \<Rightarrow>
          if py_contains dtype ''_to_'' \<or> op = ''copy_l0c_gm'' then Inr shape
          else (case (transferred, map_of linear_bytes dtype) of
                  (PInt n, Some size_bytes) \<Rightarrow>
                    if n mod size_bytes \<noteq> 0 then Inl (ValueError ''copy requires a concrete integral byte count'')
                    else Inr (PSeq [PInt (n div size_bytes)])
                | _ \<Rightarrow> Inl (ValueError ''copy requires a concrete integral byte count'')))"

definition converted :: "string \<Rightarrow> string \<Rightarrow> string" where
  "converted dtype dst_dtype = (if dst_dtype \<noteq> dtype then dtype @ ''_to_'' @ dst_dtype else dtype)"

definition copy_feature :: "metadata \<Rightarrow> pyval \<Rightarrow> pyval \<Rightarrow> string \<Rightarrow> raw_feature res" where
  "copy_feature md src shape dtype =
     (let path = ''copy_'' @ path_scope src @ ''_'' @ path_scope (md_get md ''dst'')
      in and_then (if path = ''copy_l1_l0b''
                   then map_sum id (\<lambda>details. if py_truth (dict_get details ''transpose'' (PBool False))
                          then path @ ''_transpose'' else path) (details_of md ''copy'')
                   else Inr path) (\<lambda>op.
         and_then (if op = ''copy_l0c_gm''
                   then map_sum id (\<lambda>details. dict_get details ''destination_shape'' shape) (details_of md ''copy'')
                   else Inr shape) (\<lambda>shape'.
         let dtype' = converted dtype (normal_dtype [] (md_get md ''dst''))
         in map_sum id (\<lambda>shape''. (op, shape'', dtype')) (copy_shape md op shape' dtype'))))"

definition reduce_names :: "string list" where
  "reduce_names = [''reduce'', ''reduce_2d'', ''reduce_sum'', ''reduce_max'']"

definition raw_feature :: "string \<Rightarrow> metadata \<Rightarrow> raw_feature res" where
  "raw_feature op md =
     (let short = short_name op;
          src = dict_get md ''src'' (dict_get md ''lhs'' (md_get md ''dst''));
          dtype = normal_dtype [] src; shape = shape_value src
      in if short = ''mma'' then mma_feature md dtype
         else if short \<in> set reduce_names then reduce_feature md short shape dtype
         else if py_contains short ''copy'' then copy_feature md src shape dtype
         else Inr (short, shape, converted dtype (normal_dtype dtype (md_get md ''dst''))))"

definition task_feature :: "string \<Rightarrow> metadata \<Rightarrow> (string \<times> pyval list \<times> string) res" where
  "task_feature operation_name md =
     and_then (raw_feature operation_name md) (\<lambda>(op, shape, dtype).
       if shape = PNone then Inl (ValueError ''missing logical timing shape'')
       else and_then (py_iter shape) (\<lambda>dims.
         and_then (timing_feature (if op \<in> set mma_operations then ''mma'' else op) dims dtype) (\<lambda>_.
           Inr (op, dims, dtype))))"

definition copy_geometry :: "metadata \<Rightarrow> pyval list \<Rightarrow> string option res" where
  "copy_geometry md shape =
     map_sum id (\<lambda>details.
       let stride = dict_get details ''destination_cols'' (last shape)
       in if py_int stride \<noteq> py_int (last shape)
          then Some (''row_elements_'' @ last_dim shape @ ''_stride_elements_'' @ py_str stride) else None)
     (details_of md ''copy'')"

definition row_geometry :: "metadata \<Rightarrow> pyval list \<Rightarrow> string \<Rightarrow> string option res" where
  "row_geometry md shape dtype =
     (let strides = (case md_get md ''src'' of
            PRegion r \<Rightarrow> (case br_strides_bytes r of None \<Rightarrow> [] | Some strides \<Rightarrow> strides) | _ \<Rightarrow> [])
      in map_sum id (\<lambda>stride. Some (''row_stride_bytes_'' @ stride))
           (if length strides \<ge> 2 then Inr (py_str (rt_value (strides ! (length strides - 2))))
            else map_sum id (\<lambda>itemsize. str_of_int (the (positive_dim (last shape)) * itemsize)) (input_bytes dtype)))"

definition estimate_task_ns :: "calibration \<Rightarrow> string \<Rightarrow> metadata \<Rightarrow> rat res" where
  "estimate_task_ns costs operation_name md =
     and_then (task_feature operation_name md) (\<lambda>(op, shape, dtype).
     and_then (if op = ''copy_l0c_gm'' then copy_geometry md shape else Inr None) (\<lambda>geometry.
     and_then (if py_startswith op ''row_expand_'' then row_geometry md shape dtype else Inr geometry) (\<lambda>geometry.
       estimate_ns costs op shape dtype ''two_slot'' geometry)))"

section \<open>The measured profile\<close>

definition measured_bookkeeping :: "string list" where
  "measured_bookkeeping =
    [''set_flag'', ''wait_flag'', ''auto_set_flag'', ''auto_wait_flag'', ''set_cross_flag'',
     ''wait_cross_flag'', ''auto_set_cross_flag'', ''auto_wait_cross_flag'', ''pipe_barrier'',
     ''auto_barrier'', ''barrier_all'', ''sync_all'']"

definition measured_estimate_with_source ::
  "calibration \<Rightarrow> timing_profile \<Rightarrow> string \<Rightarrow> string \<Rightarrow> metadata \<Rightarrow> (int \<times> string) res" where
  "measured_estimate_with_source costs tp op pipe_text md =
     (case map_of (tp_operation_cycles tp) op of
        Some configured \<Rightarrow> Inr (configured, ''override'')
      | None \<Rightarrow>
          if py_lower pipe_text = ''s'' \<or> op \<in> set measured_bookkeeping then Inr (1, ''bookkeeping'')
          else map_sum id (\<lambda>ns. (max 1 \<lceil>ns * 2\<rceil>, ''measured'')) (estimate_task_ns costs op md))"

definition measured_estimate_task ::
  "calibration \<Rightarrow> timing_profile \<Rightarrow> string \<Rightarrow> string \<Rightarrow> metadata \<Rightarrow> int res" where
  "measured_estimate_task costs tp op pipe_text md =
     map_sum id fst (measured_estimate_with_source costs tp op pipe_text md)"

text \<open>\<open>measured_timing_profile\<close>: the model with its profile; the fingerprint of the report is an argument.\<close>

definition measured_timing_profile ::
  "string \<Rightarrow> calibration_report \<Rightarrow> string \<Rightarrow> (calibration \<times> timing_profile) res" where
  "measured_timing_profile fingerprint report platform =
     and_then (LinearCalibration report platform) (\<lambda>model.
       map_sum id (\<lambda>tp. (model, tp))
         (TimingProfile True platform [] 1 (''measured-linear-'' @ fingerprint @ ''-ns-2ticks-per-ns'') ''measured-linear''))"

section \<open>The fit is the least-squares line\<close>

definition squared_error :: "rat \<Rightarrow> rat \<Rightarrow> (rat \<times> rat) list \<Rightarrow> rat" where
  "squared_error slope intercept points = (\<Sum>(x, y) \<leftarrow> points. (y - (slope * x + intercept)) ^ 2)"

text \<open>The squared error of any line, in deviations from any centre.\<close>

lemma squared_error_centered:
  "squared_error a b points =
     (\<Sum>(x, y) \<leftarrow> points. (y - my) ^ 2) - 2 * a * (\<Sum>(x, y) \<leftarrow> points. (x - mx) * (y - my))
     + a ^ 2 * (\<Sum>(x, y) \<leftarrow> points. (x - mx) ^ 2)
     + 2 * (my - a * mx - b) * ((\<Sum>(x, y) \<leftarrow> points. y - my) - a * (\<Sum>(x, y) \<leftarrow> points. x - mx))
     + of_nat (length points) * (my - a * mx - b) ^ 2"
proof (induction points)
  case (Cons p points)
  obtain x y where "p = (x, y)" by (cases p)
  with Cons show ?case by (simp add: squared_error_def power2_eq_square algebra_simps)
qed (simp add: squared_error_def)

lemma sum_deviation_mean: "xs \<noteq> [] \<Longrightarrow> (\<Sum>x \<leftarrow> xs. x - mean xs) = 0"
  by (simp add: mean_def sum_list_subtractf sum_list_triv)

lemma least_squares:
  assumes "points \<noteq> []" "variance = (\<Sum>(x, y) \<leftarrow> points. (x - mean (map fst points)) ^ 2)" "variance \<noteq> 0"
    and "slope = (\<Sum>(x, y) \<leftarrow> points. (x - mean (map fst points)) * (y - mean (map snd points))) / variance"
  shows "squared_error slope (mean (map snd points) - slope * mean (map fst points)) points \<le> squared_error a b points"
proof -
  let ?mx = "mean (map fst points)" and ?my = "mean (map snd points)"
  let ?Sxy = "\<Sum>(x, y) \<leftarrow> points. (x - ?mx) * (y - ?my)" and ?Syy = "\<Sum>(x, y) \<leftarrow> points. (y - ?my) ^ 2"
  have zero: "(\<Sum>(x, y) \<leftarrow> points. y - ?my) = 0" "(\<Sum>(x, y) \<leftarrow> points. x - ?mx) = 0"
    using sum_deviation_mean [of "map snd points"] sum_deviation_mean [of "map fst points"] assms(1)
    by (simp_all add: o_def case_prod_unfold)
  have error: "squared_error a b points = ?Syy - 2 * a * ?Sxy + a ^ 2 * variance
      + of_nat (length points) * (?my - a * ?mx - b) ^ 2" for a b
    using squared_error_centered [of a b points ?my ?mx] zero assms(2) by simp
  have Sxy: "?Sxy = slope * variance" using assms(3,4) by simp
  have "0 \<le> variance" unfolding assms(2) by (intro sum_list_nonneg) auto
  then have "0 \<le> variance * (a - slope) ^ 2 + of_nat (length points) * (?my - a * ?mx - b) ^ 2" by simp
  then show ?thesis unfolding error Sxy by (simp add: power2_eq_square algebra_simps)
qed

lemma LinearCost_Inr:
  "LinearCost slope intercept low high feature evidence = Inr cost \<Longrightarrow>
     slope = Some (lc_slope_ns cost) \<and> intercept = Some (lc_intercept_ns cost) \<and> low = Some (lc_min_feature cost) \<and>
     high = Some (lc_max_feature cost) \<and> 0 \<le> lc_slope_ns cost \<and> 0 < lc_min_feature cost \<and>
     0 < lc_slope_ns cost * lc_min_feature cost + lc_intercept_ns cost \<and> feature = lc_feature cost \<and> evidence = lc_evidence cost"
  by (auto simp: LinearCost_def not_less not_le split: option.splits if_splits)

text \<open>Inside the measured domain of a cost that was accepted, prediction never fails.\<close>

lemma predict_in_domain:
  assumes "LinearCost slope intercept low high feature evidence = Inr cost"
    and "lc_min_feature cost \<le> x" "x \<le> lc_max_feature cost"
  shows "predict_ns cost (Some x) False = Inr (lc_slope_ns cost * x + lc_intercept_ns cost)"
    and "0 < lc_slope_ns cost * x + lc_intercept_ns cost"
proof -
  note facts = LinearCost_Inr [OF assms(1)]
  have "lc_slope_ns cost * lc_min_feature cost \<le> lc_slope_ns cost * x" using facts assms(2) by (intro mult_left_mono) auto
  then show pos: "0 < lc_slope_ns cost * x + lc_intercept_ns cost" using facts by linarith
  show "predict_ns cost (Some x) False = Inr (lc_slope_ns cost * x + lc_intercept_ns cost)"
    using facts assms(2,3) pos by (auto simp: predict_ns_def)
qed

lemma fit_linear_cost_Inr:
  assumes "fit_linear_cost given feature evidence = Inr cost"
  obtains points where "map Some points = map measured_point given" "points \<noteq> []"
    and "lc_min_feature cost = Min (set (map fst points))" "lc_max_feature cost = Max (set (map fst points))"
    and "LinearCost (Some (lc_slope_ns cost)) (Some (lc_intercept_ns cost)) (Some (lc_min_feature cost))
           (Some (lc_max_feature cost)) feature evidence = Inr cost"
    and "\<forall>a b. squared_error (lc_slope_ns cost) (lc_intercept_ns cost) points \<le> squared_error a b points"
proof -
  define points where "points = map (the \<circ> measured_point) given"
  let ?mx = "mean (map fst points)" and ?my = "mean (map snd points)"
  let ?V = "\<Sum>(x, y) \<leftarrow> points. (x - ?mx) ^ 2"
  let ?s = "(\<Sum>(x, y) \<leftarrow> points. (x - ?mx) * (y - ?my)) / ?V"
  have len: "\<not> length given < 2" and some: "None \<notin> set (map measured_point given)" and var: "?V \<noteq> 0"
    and cost: "LinearCost (Some ?s) (Some (?my - ?s * ?mx)) (Some (Min (set (map fst points))))
      (Some (Max (set (map fst points)))) feature evidence = Inr cost"
    using assms by (auto simp: fit_linear_cost_def Let_def points_def split: if_splits)
  have given: "map Some points = map measured_point given"
    unfolding points_def map_map using some by (auto simp: image_iff intro!: map_cong)
  have nonempty: "points \<noteq> []" using len by (auto simp: points_def)
  have eqs: "?s = lc_slope_ns cost" "?my - ?s * ?mx = lc_intercept_ns cost"
    "Min (set (map fst points)) = lc_min_feature cost" "Max (set (map fst points)) = lc_max_feature cost"
    using LinearCost_Inr [OF cost] unfolding option.inject by blast+
  have "\<forall>a b. squared_error ?s (?my - ?s * ?mx) points \<le> squared_error a b points"
    using least_squares [OF nonempty refl var refl] by blast
  note best = this [unfolded eqs(2), unfolded eqs(1)]
  show ?thesis
    by (rule that [OF given nonempty eqs(3,4) [symmetric] cost [unfolded eqs(2), unfolded eqs(1,3,4)] best])
qed



end
