(* ===== verification/Sim_Pypto.thy ===== *)
theory Sim_Pypto
  imports Sim_Floats Sim_Linear_Timing
begin

text \<open>
  \<^verbatim>\<open>tilelang/simulator/pypto_timing.py\<close>: the port of the PyPTO cost model, with its single and double
  precision arithmetic.  The tables hold the decimal literals; the code reads them as doubles.
\<close>

section \<open>Tables\<close>

definition OP_LATENCY :: "(string \<times> rat \<times> rat) list" where
  "OP_LATENCY =
    [(''COPY_IN'', 2613 / 1000, 240884 / 100000000), (''L1_COPY_IN'', 2613 / 1000, 240884 / 100000000),
     (''UB_COPY_IN'', 2613 / 1000, 240884 / 100000000), (''COPY_OUT'', 32883 / 10000, 195 / 100000),
     (''L0C_COPY_OUT'', 32883 / 10000, 195 / 100000), (''UB_COPY_OUT'', 32883 / 10000, 195 / 100000),
     (''ADD'', 240457 / 100000, 188 / 10000), (''SUB'', 164044 / 100000, 2152 / 100000),
     (''MUL'', 163706 / 100000, 1419 / 100000), (''DIV'', 382854 / 100000, 2462 / 100000),
     (''ADDS'', 76264 / 100000, 221 / 10000), (''SUBS'', 76264 / 100000, 221 / 10000),
     (''RANGE'', 76264 / 100000, 221 / 10000), (''MULS'', 9527 / 10000, 15 / 1000),
     (''DIVS'', 9527 / 10000, 15 / 1000), (''SQRT'', 367358 / 100000, 2197 / 100000),
     (''EXP'', 349358 / 100000, 2597 / 100000), (''NEG'', 9527 / 10000, 15 / 1000),
     (''LN'', 349358 / 100000, 2597 / 100000), (''WHERE_TT'', 240457 / 100000, 188 / 10000),
     (''WHERE_TS'', 240457 / 100000, 188 / 10000), (''WHERE_ST'', 240457 / 100000, 188 / 10000),
     (''WHERE_SS'', 240457 / 100000, 188 / 10000), (''RECIPROCAL'', 98673 / 100000, 989 / 100000),
     (''ROWSUMLINE'', 1458731 / 100000, 7288 / 100000), (''ROWMAX_SINGLE'', 1558731 / 100000, 888 / 100000),
     (''ROWMIN_SINGLE'', 1558731 / 100000, 888 / 100000), (''EXPAND'', 58 / 100, 14 / 1000),
     (''CAST'', 91250 / 100000, 15687 / 1000000), (''TRANSPOSE_MOVEOUT'', 25893 / 100000000, 3350 / 100000),
     (''L1_TO_L0B'', 205893 / 100000, 12 / 1000), (''L1_TO_L0A'', 112719 / 100000, 15 / 1000),
     (''L1_TO_L0Bt'', 1868830 / 1000000, 15 / 1000), (''A_MUL_B'', 391153 / 100000, 107 / 10000),
     (''A_MUL_Bt'', 391153 / 100000, 110 / 10000), (''A_MULACC_B'', 390376 / 100000, 103 / 10000),
     (''A_MULACC_Bt'', 390376 / 100000, 105 / 10000), (''PAIRMAX'', 1928672 / 100000, 0),
     (''PAIRSUM'', 1958115 / 100000, 0), (''MAXIMUM'', 3087260 / 10000, 0)]"

definition INHERENT_LATENCY :: "(string, (string, int) dict) dict" where
  "INHERENT_LATENCY =
    [(''UB_ADD'', [(''float32'', 6), (''int32'', 4), (''int16'', 4)]),
     (''UB_SUB'', [(''float16'', 6), (''float32'', 6), (''int32'', 4), (''int16'', 4)]),
     (''UB_MUL'', [(''float16'', 7), (''float32'', 7), (''int32'', 5), (''int16'', 5)]),
     (''UB_DIV'', [(''float16'', 13), (''float32'', 13)]),
     (''UB_EXP'', [(''float16'', 12), (''float32'', 12)]),
     (''UB_SQRT'', [(''float16'', 13), (''float32'', 13)]),
     (''UB_RSQRT'', [(''float16'', 5), (''float32'', 5)]),
     (''UB_ADDS'', [(''float16'', 6), (''float32'', 6), (''int32'', 4), (''int16'', 4)]),
     (''UB_MULS'', [(''float16'', 7), (''float32'', 7), (''int32'', 5), (''int16'', 5)]),
     (''UB_PAIRSUM'', [(''float16'', 6), (''float32'', 6), (''int32'', 4), (''int16'', 4)]),
     (''UB_PAIRMAX'', [(''float16'', 4), (''float32'', 4), (''int32'', 4), (''int16'', 4)]),
     (''UB_ROWEXPSUM'', [(''float16'', 23), (''float32'', 20)]),
     (''UB_ROWEXPMAX'', [(''float16'', 23), (''float32'', 20)]),
     (''UB_MAXIMUM'', [(''float16'', 4), (''float32'', 4), (''int32'', 4), (''int16'', 4)]),
     (''UB_COMPACT'', [(''float16'', 0), (''float32'', 0), (''int32'', 0), (''int16'', 0)]),
     (''UB_EXPAND'', [(''float16'', 0), (''float32'', 0), (''int32'', 0), (''int16'', 0)]),
     (''UB_MOV'', [(''float16'', 0), (''float32'', 0), (''int32'', 0), (''int16'', 0)]),
     (''UB_RECIPROCAL'', [(''float16'', 5), (''float32'', 5)]),
     (''UB_ROWSUM'', [(''float16'', 23), (''float32'', 20)]),
     (''UB_ROWMAX'', [(''float16'', 9), (''float32'', 8)]),
     (''L0C_COPY_OUT'', [(''float16'', 200), (''float32'', 200), (''int32'', 0), (''int16'', 0)]),
     (''UB_COPY_IN'', [(''float16'', 50), (''float32'', 50), (''int32'', 0), (''int16'', 0)]),
     (''L1_COPY_IN'', [(''float16'', 200), (''float32'', 200), (''int32'', 0), (''int16'', 0)]),
     (''L1_TO_L0A'', [(''float16'', 0), (''float32'', 0), (''int32'', 0), (''int16'', 0)]),
     (''L1_TO_L0At'', [(''float16'', 0), (''float32'', 0), (''int32'', 0), (''int16'', 0)]),
     (''L1_TO_L0B'', [(''float16'', 0), (''float32'', 0), (''int32'', 0), (''int16'', 0)]),
     (''L1_TO_L0Bt'', [(''float16'', 0), (''float32'', 0), (''int32'', 0), (''int16'', 0)]),
     (''CUBE_A_MUL_B'', [(''float16'', 0), (''float32'', 0), (''int32'', 7), (''int16'', 7)]),
     (''CUBE_A_MUL_Bt'', [(''float16'', 0), (''float32'', 0), (''int32'', 7), (''int16'', 7)]),
     (''CUBE_A_MULACC_B'', [(''float16'', 0), (''float32'', 0), (''int32'', 7), (''int16'', 7)]),
     (''CUBE_A_MULACC_Bt'', [(''float16'', 0), (''float32'', 0), (''int32'', 7), (''int16'', 7)])]"

definition pypto_dtype_bytes :: "(string, int) dict" where
  "pypto_dtype_bytes =
    [(''float16'', 2), (''float32'', 4), (''bfloat16'', 2), (''int8'', 1), (''uint8'', 1),
     (''int16'', 2), (''uint16'', 2), (''int32'', 4), (''uint32'', 4), (''int64'', 8),
     (''uint64'', 8), (''float64'', 8), (''bool'', 1)]"

definition DTYPE_ALIASES :: "(string, string) dict" where
  "DTYPE_ALIASES = [(''half'', ''float16''), (''float'', ''float32''), (''double'', ''float64'')]"

text \<open>A later operation of the same lower-case name replaces an earlier one.\<close>

definition op_names :: "(string, string) dict" where
  "op_names = rev (map (\<lambda>op. (py_lower op, op)) (map fst OP_LATENCY @ map fst INHERENT_LATENCY))"

section \<open>Cycles of a tile operation\<close>

text \<open>The last two extents and the product of the others, of a shape of at least two extents.\<close>

definition tile_size :: "int list \<Rightarrow> int" where
  "tile_size dims = prod_list (drop (length dims - 2) dims)"

definition tile_count :: "int list \<Rightarrow> int" where
  "tile_count dims = prod_list (take (length dims - 2) dims)"

definition normalize_dims :: "int list \<Rightarrow> int list" where
  "normalize_dims shape =
     (let dims = map (\<lambda>d. if d > 0 then d else 256) shape
      in if length dims = 1 then 1 # dims else dims)"

text \<open>\<open>all(isinstance(d, int) for d in shape)\<close>, with the values.\<close>

definition int_dims :: "pyval list \<Rightarrow> int list option" where
  "int_dims shape = (if None \<in> set (map py_int shape) then None else Some (map (the \<circ> py_int) shape))"

definition normalize_shape :: "pyval list \<Rightarrow> int list option" where
  "normalize_shape shape = (if shape = [] then None else map_option normalize_dims (int_dims shape))"

definition inherent_cycles :: "string \<Rightarrow> string \<Rightarrow> int \<Rightarrow> int" where
  "inherent_cycles op dtype total_bytes =
     (let latency = dict_get (dict_get INHERENT_LATENCY op []) dtype 10;
          numerator = total_bytes - 256;
          repeats = (\<bar>numerator\<bar> div 256) * (if numerator \<ge> 0 then 1 else - 1) + 1
      in latency + repeats * 2 - 1)"

definition parallel_ratio :: "string \<Rightarrow> string \<Rightarrow> rat" where
  "parallel_ratio op dtype =
     (if dtype = ''int32'' \<and> op \<in> {''MULS'', ''MUL''} \<or>
         dtype = ''float32'' \<and> op \<in> {''DIV'', ''EXP'', ''LN'', ''SQRT''} then 1 else 2)"

text \<open>\<open>int((byte_term * 1e-6 + _f32(b)) * 2000)\<close>; the value is never negative.\<close>

definition linear_cycles :: "rat \<Rightarrow> rat \<Rightarrow> int \<Rightarrow> rat \<Rightarrow> int" where
  "linear_cycles a b size_bytes ratio =
     (let byte_term = f32 (f64 (f32 (f64 (f32 (f64 a) * f64 (rat_of_int size_bytes))) * ratio))
      in \<lfloor>f64 (f64 (f64 (byte_term * f64 (1 / 1000000)) + f32 (f64 b)) * 2000)\<rfloor>)"

definition opcode_extra :: "string \<Rightarrow> int" where
  "opcode_extra opcode = (if opcode = ''COPY_IN'' then 1400 else if opcode = ''COPY_OUT'' then 300 else 0)"

definition pypto_estimate_cycles :: "string \<Rightarrow> pyval list list \<Rightarrow> string \<Rightarrow> string option \<Rightarrow> int option" where
  "pypto_estimate_cycles op shapes dtype_name original_opcode =
     (let dtype = dict_get DTYPE_ALIASES dtype_name dtype_name
      in case map_of pypto_dtype_bytes dtype of
           None \<Rightarrow> None
         | Some itemsize \<Rightarrow>
             if shapes = [] \<or> None \<in> set (map normalize_shape shapes) then None
             else let normalized = map (the \<circ> normalize_shape) shapes;
                      shape_size = Min (set (map tile_size normalized));
                      shape_count = Min (set (map tile_count normalized));
                      size_bytes = itemsize * shape_size
                  in case map_of OP_LATENCY op of
                       None \<Rightarrow> Some (inherent_cycles op dtype (size_bytes * shape_count))
                     | Some (a, b) \<Rightarrow>
                         let opcode = (case original_opcode of None \<Rightarrow> op | Some [] \<Rightarrow> op | Some given \<Rightarrow> given)
                         in Some (shape_count * (linear_cycles a b size_bytes (parallel_ratio op dtype) + 1)
                                  + opcode_extra opcode))"

section \<open>Cycles of a task\<close>

definition operand_keys :: "string list" where
  "operand_keys = [''src'', ''lhs'', ''rhs'', ''accumulator'', ''dst'']"

definition operand_shapes :: "metadata \<Rightarrow> pyval list list" where
  "operand_shapes md = filter (\<lambda>shape. shape \<noteq> [])
     (map (\<lambda>key. case shape_value (md_get md key) of PSeq shape \<Rightarrow> shape | _ \<Rightarrow> []) operand_keys)"

text \<open>The type of the first operand with a shape; \<open>None\<close> is in no table.\<close>

definition operand_dtype :: "metadata \<Rightarrow> string" where
  "operand_dtype md =
     (case filter (\<lambda>key. shape_value (md_get md key) \<notin> {PNone, PSeq []}) operand_keys of
        [] \<Rightarrow> ''None''
      | key # _ \<Rightarrow> py_lower (dtype_text [] (md_get md key)))"

definition mma_details :: "string \<Rightarrow> metadata \<Rightarrow> metadata option" where
  "mma_details short md =
     (case dict_get md ''mma'' (md_get md ''gemm'') of
        PMap mma \<Rightarrow> if short \<in> {''mma'', ''gemm_v0''} then Some mma else None
      | _ \<Rightarrow> None)"

definition mma_shapes :: "metadata \<Rightarrow> pyval list list \<Rightarrow> pyval list list" where
  "mma_shapes mma shapes =
     (let m = md_get mma ''rows''; n = md_get mma ''cols''; k = md_get mma ''inner''
      in if None \<in> set (map py_int [m, n, k]) then shapes else [[m, k], [k, n], [m, n]])"

definition mma_opcode :: "metadata \<Rightarrow> string" where
  "mma_opcode mma =
     (if py_truth (dict_get mma ''init'' (PBool True)) then ''A_MUL_B'' else ''A_MULACC_B'') @
     (if py_truth (dict_get mma ''transpose_b'' (PBool False)) then ''t'' else [])"

definition pypto_aliases :: "(string, string) dict" where
  "pypto_aliases = [(''reduce_sum'', ''ROWSUMLINE''), (''reduce_max'', ''ROWMAX_SINGLE''),
     (''reduce_min'', ''ROWMIN_SINGLE''), (''broadcast'', ''EXPAND'')]"

fun scope_name :: "pyval \<Rightarrow> string option" where
  "scope_name (PRegion r) = Some (scope_value (br_scope r))"
| "scope_name _ = None"

text \<open>The operation and the original opcode of a copy between two scopes.\<close>

definition copy_opcodes :: "string \<Rightarrow> metadata \<Rightarrow> string \<Rightarrow> string \<times> string" where
  "copy_opcodes short md op =
     (let src_scope = scope_name (md_get md ''src''); dst_scope = scope_name (md_get md ''dst'');
          transposed = (if py_truth (dict_get md ''transpose'' (PBool False)) then ''t'' else [])
      in if \<not> py_contains short ''copy'' then (op, op)
         else if src_scope \<in> {Some ''gm'', Some ''workspace''} \<and> dst_scope \<in> {Some ''ub'', Some ''l1''}
         then (if dst_scope = Some ''ub'' then ''UB_COPY_IN'' else ''L1_COPY_IN'', ''COPY_IN'')
         else if dst_scope \<in> {Some ''gm'', Some ''workspace''}
         then (if src_scope = Some ''l0c'' then ''L0C_COPY_OUT'' else ''UB_COPY_OUT'', ''COPY_OUT'')
         else if src_scope = Some ''l1'' \<and> dst_scope \<in> {Some ''l0a'', Some ''l0b''}
         then (let named = (if dst_scope = Some ''l0a'' then ''L1_TO_L0A'' else ''L1_TO_L0B'') @ transposed
               in (named, named))
         else (op, op))"

definition pypto_estimate_task :: "string \<Rightarrow> string \<Rightarrow> metadata \<Rightarrow> int option" where
  "pypto_estimate_task operation_name pipe_text md =
     (let short = short_name operation_name;
          mma = mma_details short md;
          shapes = (case mma of None \<Rightarrow> operand_shapes md | Some details \<Rightarrow> mma_shapes details (operand_shapes md));
          op = (case mma of None \<Rightarrow> dict_get op_names short (py_upper short) | Some details \<Rightarrow> mma_opcode details);
          kind = (if short = ''reduce'' then py_str (dict_get md ''reduce_kind'' (PStr short)) else short);
          (op, original_opcode) = copy_opcodes kind md (dict_get pypto_aliases kind op);
          (op, original_opcode) = (case map_of md ''pypto_opcode'' of
             None \<Rightarrow> (op, original_opcode) | Some given \<Rightarrow> (py_str given, py_str given))
      in pypto_estimate_cycles op shapes (operand_dtype md) (Some original_opcode))"

section \<open>Estimates are positive\<close>

lemma normalize_dims_positive: "d \<in> set (normalize_dims shape) \<Longrightarrow> 0 < d"
  by (auto simp: normalize_dims_def Let_def split: if_splits)

lemma prod_list_positive: "(\<And>d. d \<in> set dims \<Longrightarrow> 0 < d) \<Longrightarrow> 0 < prod_list (dims :: int list)"
  by (induction dims) auto

lemma tile_positive:
  assumes "normalize_shape shape = Some dims"
  shows "0 < tile_size dims" "0 < tile_count dims"
proof -
  from assms obtain ds where "dims = normalize_dims ds" by (auto simp: normalize_shape_def split: if_splits)
  then have "d \<in> set dims \<Longrightarrow> 0 < d" for d using normalize_dims_positive by blast
  then show "0 < tile_size dims" "0 < tile_count dims"
    unfolding tile_size_def tile_count_def by (auto intro!: prod_list_positive dest: in_set_dropD in_set_takeD)
qed

lemma op_latency_nonneg: "map_of OP_LATENCY op = Some (a, b) \<Longrightarrow> 0 \<le> a \<and> 0 \<le> b"
proof -
  assume "map_of OP_LATENCY op = Some (a, b)"
  then have "(op, a, b) \<in> set OP_LATENCY" by (rule map_of_SomeD)
  moreover have "\<forall>(op, a, b) \<in> set OP_LATENCY. 0 \<le> a \<and> 0 \<le> b" unfolding OP_LATENCY_def by simp
  ultimately show ?thesis by blast
qed

lemma inherent_latency_nonneg: "0 \<le> dict_get (dict_get INHERENT_LATENCY op []) dtype 10"
proof -
  have table: "\<forall>(op, costs) \<in> set INHERENT_LATENCY. \<forall>(dtype, latency) \<in> set costs. 0 \<le> latency"
    unfolding INHERENT_LATENCY_def by simp
  show ?thesis
    using table by (fastforce simp: dict_get_def split: option.splits dest!: map_of_SomeD)
qed

lemma inherent_cycles_positive: "0 < total_bytes \<Longrightarrow> 0 < inherent_cycles op dtype total_bytes"
proof -
  assume pos: "0 < total_bytes"
  let ?n = "total_bytes - 256"
  have "0 \<le> (\<bar>?n\<bar> div 256) * (if ?n \<ge> 0 then 1 else - 1)"
  proof (cases "?n \<ge> 0")
    case False
    with pos have "\<bar>?n\<bar> div 256 = 0" by (intro div_pos_pos_trivial) auto
    then show ?thesis by simp
  qed (simp add: pos_imp_zdiv_nonneg_iff)
  then show ?thesis using inherent_latency_nonneg [of op dtype] by (simp add: inherent_cycles_def Let_def)
qed

lemma linear_cycles_nonneg: "0 \<le> a \<Longrightarrow> 0 \<le> b \<Longrightarrow> 0 \<le> size_bytes \<Longrightarrow> 0 \<le> ratio \<Longrightarrow> 0 \<le> linear_cycles a b size_bytes ratio"
  unfolding linear_cycles_def Let_def zero_le_floor
  by (intro fl_nonneg mult_nonneg_nonneg add_nonneg_nonneg) auto

lemma Min_positive: "xs \<noteq> [] \<Longrightarrow> (\<And>x. x \<in> set xs \<Longrightarrow> 0 < x) \<Longrightarrow> 0 < Min (set (xs :: int list))"
  by (subst Min_gr_iff) auto

lemma pypto_itemsize_positive: "map_of pypto_dtype_bytes dtype = Some n \<Longrightarrow> 0 < n"
  by (auto simp: pypto_dtype_bytes_def split: if_splits)

lemma pypto_estimate_positive:
  assumes "pypto_estimate_cycles op shapes dtype_name original = Some n"
  shows "0 < n"
proof -
  let ?dtype = "dict_get DTYPE_ALIASES dtype_name dtype_name"
  let ?ns = "map (the \<circ> normalize_shape) shapes"
  let ?size = "Min (set (map tile_size ?ns))" and ?count = "Min (set (map tile_count ?ns))"
  from assms obtain itemsize where itemsize: "map_of pypto_dtype_bytes ?dtype = Some itemsize"
    and shapes: "shapes \<noteq> []" "None \<notin> set (map normalize_shape shapes)"
    by (auto simp: pypto_estimate_cycles_def Let_def split: option.splits if_splits)
  have "0 < tile_size dims \<and> 0 < tile_count dims" if "dims \<in> set ?ns" for dims
  proof -
    from that obtain shape where "shape \<in> set shapes" "dims = the (normalize_shape shape)" by auto
    moreover have "normalize_shape shape \<noteq> None" using shapes(2) \<open>shape \<in> set shapes\<close> by force
    ultimately have "normalize_shape shape = Some dims" by simp
    then show ?thesis using tile_positive by blast
  qed
  then have "x \<in> set (map tile_size ?ns) \<Longrightarrow> 0 < x" "x \<in> set (map tile_count ?ns) \<Longrightarrow> 0 < x" for x
    unfolding set_map by blast+
  then have "0 < ?size" and count: "0 < ?count"
    using shapes(1) by (intro Min_positive; simp only: map_is_Nil_conv not_False_eq_True)+
  then have size: "0 < itemsize * ?size" using pypto_itemsize_positive [OF itemsize] by (simp only: mult_pos_pos)
  have extra: "0 \<le> parallel_ratio op ?dtype" "0 \<le> opcode_extra oc" for oc
    by (auto simp: parallel_ratio_def opcode_extra_def)
  show ?thesis
  proof (cases "map_of OP_LATENCY op")
    case None
    with assms shapes itemsize have "n = inherent_cycles op ?dtype (itemsize * ?size * ?count)"
      by (simp add: pypto_estimate_cycles_def Let_def del: set_map)
    then show ?thesis using inherent_cycles_positive [OF mult_pos_pos [OF size count]] by simp
  next
    case (Some ab)
    obtain a b where ab: "ab = (a, b)" by (cases ab)
    let ?oc = "case original of None \<Rightarrow> op | Some [] \<Rightarrow> op | Some given \<Rightarrow> given"
    from assms shapes itemsize Some have
      n: "n = ?count * (linear_cycles a b (itemsize * ?size) (parallel_ratio op ?dtype) + 1) + opcode_extra ?oc"
      by (simp add: pypto_estimate_cycles_def Let_def ab del: set_map)
    have "0 \<le> linear_cycles a b (itemsize * ?size) (parallel_ratio op ?dtype)"
      using op_latency_nonneg [of op a b] Some ab size extra(1) by (intro linear_cycles_nonneg) simp_all
    then have "0 < linear_cycles a b (itemsize * ?size) (parallel_ratio op ?dtype) + 1" by linarith
    from mult_pos_pos [OF count this] extra(2) [of ?oc] show ?thesis unfolding n by (rule add_pos_nonneg)
  qed
qed

end
