(* ===== verification/Sim_Measured_A2.thy ===== *)
theory Sim_Measured_A2
  imports Sim_Pypto
begin

text \<open>
  \<^verbatim>\<open>tilelang/simulator/measured_a2.py\<close>: the shipped A2 calibration and the default A2 profile, which falls
  back to the PyPTO model where nothing was measured.  A row of \<open>COSTS\<close> keeps the entries
  the calibration reads; the held-out error statistics of a row are documentation only.
\<close>

section \<open>The shipped costs\<close>

type_synonym cost_row = "string \<times> string \<times> string \<times> rat \<times> rat \<times> rat \<times> rat \<times> string"

definition SOURCE_REPORT_SHA256 :: string where
  "SOURCE_REPORT_SHA256 = ''bf2297de112dd6a831e72cf2873d979f1141f4013c647e21db8343cea3056e31''"

definition EVIDENCE :: string where
  "EVIDENCE = ''sha256:ca33ce9987ce6cee177a5f785743c4e296c30de628a4db4f0faf37c4889bd9c1''"

definition COSTS :: "cost_row list" where
  "COSTS =
    [(''add'', ''float32'', ''contiguous'',
      4606961291497232 / 10 ^ 18, 11751184618188432 / 10 ^ 15, 8192, 49152, ''bytes''),
     (''axpy'', ''float16_to_float32'', ''contiguous'',
      6774061717916048 / 10 ^ 18, 20601340180686805 / 10 ^ 15, 4096, 24576, ''bytes''),
     (''axpy'', ''float32'', ''contiguous'',
      4311280291642054 / 10 ^ 18, 16968825665859583 / 10 ^ 15, 8192, 49152, ''bytes''),
     (''brcb_experiment'', ''float32'', ''contiguous'',
      1758164696453617 / 10 ^ 17, 9434941227542911 / 10 ^ 15, 32, 256, ''bytes''),
     (''cast'', ''float16_to_float32'', ''contiguous'',
      4569635677022312 / 10 ^ 18, 17131759483454402 / 10 ^ 15, 4096, 24576, ''bytes''),
     (''cast'', ''float32_to_float16'', ''contiguous'',
      13609160181166848 / 10 ^ 19, 16595312947486264 / 10 ^ 15, 8192, 49152, ''bytes''),
     (''copy_gm_l1'', ''float16'', ''contiguous'',
      30852479115955084 / 10 ^ 19, 4634801960658818 / 10 ^ 14, 8192, 65536, ''bytes''),
     (''copy_gm_ub'', ''float16'', ''contiguous'',
      6523093590277915 / 10 ^ 18, 14386276653908965 / 10 ^ 16, 4096, 24576, ''bytes''),
     (''copy_gm_ub'', ''float32'', ''contiguous'',
      6589155816141724 / 10 ^ 18, - 14991928974979771 / 10 ^ 16, 8192, 49152, ''bytes''),
     (''copy_l0c_gm'', ''float32'', ''row_elements_128'',
      47747001120571715 / 10 ^ 19, 14189516129032253 / 10 ^ 14, 16384, 65536, ''bytes''),
     (''copy_l0c_gm'', ''float32_to_float16'', ''row_elements_128'',
      22641019337737616 / 10 ^ 19, 1450384024577573 / 10 ^ 13, 16384, 65536, ''bytes''),
     (''copy_l0c_gm'', ''float32_to_float16'', ''row_elements_256_stride_elements_512'',
      2332397320303499 / 10 ^ 18, 1485176651305684 / 10 ^ 13, 32768, 131072, ''bytes''),
     (''copy_l1_l0a'', ''float16'', ''contiguous'',
      23021134810961236 / 10 ^ 19, - 35511606076123314 / 10 ^ 17, 8192, 65536, ''bytes''),
     (''copy_l1_l0b'', ''float16'', ''contiguous'',
      4446625729880045 / 10 ^ 18, 303774108209592 / 10 ^ 14, 8192, 32768, ''bytes''),
     (''copy_l1_l0b_transpose'', ''float16'', ''contiguous'',
      43416171492118355 / 10 ^ 19, 5062724014336837 / 10 ^ 16, 2048, 32768, ''bytes''),
     (''copy_ub_gm'', ''float16'', ''contiguous'',
      10188222226307232 / 10 ^ 18, - 16123174256034076 / 10 ^ 16, 4096, 24576, ''bytes''),
     (''copy_ub_gm'', ''float32'', ''contiguous'',
      9959592657574153 / 10 ^ 18, 12370147621650744 / 10 ^ 16, 8192, 49152, ''bytes''),
     (''copy_ub_ub'', ''float32'', ''contiguous'',
      20394170863082674 / 10 ^ 19, 9766235883329589 / 10 ^ 15, 64, 2048, ''bytes''),
     (''div'', ''float32'', ''contiguous'',
      8682210852172504 / 10 ^ 18, 1611152334088368 / 10 ^ 14, 8192, 49152, ''bytes''),
     (''exp'', ''float32'', ''contiguous'',
      4339111383337399 / 10 ^ 18, 15648968797070744 / 10 ^ 15, 64, 49152, ''bytes''),
     (''fill'', ''float32'', ''contiguous'',
      2166558927274689 / 10 ^ 18, 963546149651011 / 10 ^ 14, 64, 49152, ''bytes''),
     (''max'', ''float32'', ''contiguous'',
      428632664357344 / 10 ^ 17, 11244075625596281 / 10 ^ 15, 64, 2048, ''bytes''),
     (''mma'', ''float16'', ''contiguous'',
      13558304941848882 / 10 ^ 20, 13609420621244794 / 10 ^ 17, 262144, 4194304, ''padded_mnk''),
     (''mma_init'', ''float16'', ''contiguous'',
      13560303894605505 / 10 ^ 20, 13920890937021113 / 10 ^ 17, 524288, 2097152, ''padded_mnk''),
     (''mul'', ''float32'', ''contiguous'',
      4386521468306174 / 10 ^ 18, 16452979770366326 / 10 ^ 15, 8192, 49152, ''bytes''),
     (''mul_add_dst'', ''float32'', ''contiguous'',
      13335544319069473 / 10 ^ 18, 16117724233518608 / 10 ^ 15, 64, 2048, ''bytes''),
     (''muls'', ''float32'', ''contiguous'',
      22859831373134368 / 10 ^ 19, 12813432249197934 / 10 ^ 15, 64, 49152, ''bytes''),
     (''reduce_max'', ''float32'', ''last_axis_width_512'',
      2686824499140826 / 10 ^ 18, 5036498607097295 / 10 ^ 14, 8192, 49152, ''bytes''),
     (''reduce_sum'', ''float32'', ''last_axis_width_512'',
      23983639031287837 / 10 ^ 19, 6698817334478898 / 10 ^ 14, 8192, 49152, ''bytes''),
     (''row_expand_div_experiment'', ''float32'', ''row_stride_bytes_512'',
      6696438616714329 / 10 ^ 18, 17559043778801822 / 10 ^ 15, 4096, 16384, ''bytes''),
     (''row_expand_mul_experiment'', ''float32'', ''row_stride_bytes_512'',
      4075489625978919 / 10 ^ 18, 183126920122888 / 10 ^ 13, 4096, 16384, ''bytes''),
     (''row_expand_sub_experiment'', ''float32'', ''row_stride_bytes_2048'',
      4697443493526442 / 10 ^ 18, 11119431643625195 / 10 ^ 15, 2048, 8192, ''bytes''),
     (''sub'', ''float32'', ''contiguous'',
      4597377880253467 / 10 ^ 18, 12085239157274017 / 10 ^ 15, 64, 49152, ''bytes'')]"

definition cost_family :: "cost_row \<Rightarrow> family" where
  "cost_family = (\<lambda>(op, dtype, geometry, a, b, low, high, feature).
     \<lparr>fa_operation = op, fa_dtype = dtype, fa_geometry = geometry, fa_measurement_mode = ''two_slot'',
      fa_status = ''fitted'', fa_cost = (Some a, Some b, Some low, Some high, feature, EVIDENCE)\<rparr>)"

definition calibration_report_a2 :: calibration_report where
  "calibration_report_a2 =
     \<lparr>cr_schema = ''tilelang-linear-cost-calibration-v1'', cr_unit = ''ns'', cr_platform_measured = ''A2'',
      cr_families = map cost_family COSTS\<rparr>"

section \<open>The default profile\<close>

definition default_a2_estimate_with_source ::
  "calibration \<Rightarrow> timing_profile \<Rightarrow> timing_profile \<Rightarrow> string \<Rightarrow> string \<Rightarrow> metadata \<Rightarrow> (int \<times> string) res" where
  "default_a2_estimate_with_source model fallback tp op pipe_text md =
     (case measured_estimate_with_source model tp op pipe_text md of
        Inr result \<Rightarrow> Inr result
      | Inl e \<Rightarrow>
          if catches ''ValueError'' e
          then Inr (estimate_task pypto_estimate_task fallback op pipe_text md, ''pypto-fallback'')
          else Inl e)"

text \<open>\<open>default_a2_timing_profile\<close>: the measured model, the fallback profile and the profile itself.\<close>

definition default_a2_timing_profile :: "string \<Rightarrow> (calibration \<times> timing_profile \<times> timing_profile) res" where
  "default_a2_timing_profile fingerprint =
     and_then (measured_timing_profile fingerprint calibration_report_a2 ''A2'') (\<lambda>(model, _).
     and_then (TimingProfile False ''A2'' [] 1 ''pypto-fast-derived-uncalibrated-49587f3'' ''pypto-fast'') (\<lambda>fallback.
     map_sum id (\<lambda>tp. (model, fallback, tp))
       (TimingProfile True ''A2'' [] 1
          (''a2-910b3-cann9-measured-linear+pypto-fallback-'' @ take 16 SOURCE_REPORT_SHA256) ''measured-linear'')))"

lemma shipped_calibration_accepted: "\<exists>model. LinearCalibration calibration_report_a2 ''A2'' = Inr model"
proof -
  have "\<not> isl (LinearCalibration calibration_report_a2 ''A2'')" by code_simp
  then show ?thesis by (cases "LinearCalibration calibration_report_a2 ''A2''") auto
qed

section \<open>What an estimate rests on\<close>

text \<open>
  A measured estimate of \<open>n\<close> ticks: a family of the calibration with the very operation, type and
  geometry of the task, evaluated at the task's feature inside the family's measured range.
\<close>

definition grounded :: "calibration \<Rightarrow> string \<Rightarrow> metadata \<Rightarrow> int \<Rightarrow> bool" where
  "grounded model op md n \<longleftrightarrow> (\<exists>name shape dtype geometry cost feature.
     task_feature op md = Inr (name, shape, dtype) \<and> timing_feature name shape dtype = Inr feature \<and>
     map_of model (name, dtype, geometry, ''two_slot'') = Some cost \<and> lc_feature cost = expected_feature name \<and>
     lc_min_feature cost \<le> rat_of_int feature \<and> rat_of_int feature \<le> lc_max_feature cost \<and>
     n = max 1 \<lceil>(lc_slope_ns cost * rat_of_int feature + lc_intercept_ns cost) * 2\<rceil>)"

lemma estimate_ns_grounded:
  assumes "estimate_ns costs op shape dtype mode geometry = Inr ns"
  shows "\<exists>feature g cost. timing_feature op shape dtype = Inr feature \<and> map_of costs (op, dtype, g, mode) = Some cost \<and>
    lc_feature cost = expected_feature op \<and> lc_min_feature cost \<le> rat_of_int feature \<and>
    rat_of_int feature \<le> lc_max_feature cost \<and> ns = lc_slope_ns cost * rat_of_int feature + lc_intercept_ns cost"
  using assms by (auto simp: estimate_ns_def predict_ns_def Let_def split: option.splits if_splits)

lemma measured_estimate_grounded:
  assumes "measured_estimate_with_source model tp op pipe_text md = Inr (n, ''measured'')"
  shows "grounded model op md n"
proof -
  from assms obtain ns where ns: "estimate_task_ns model op md = Inr ns" "n = max 1 \<lceil>ns * 2\<rceil>"
    by (auto simp: measured_estimate_with_source_def split: option.splits if_splits)
      (cases "estimate_task_ns model op md"; simp)
  from ns(1) obtain name shape dtype geometry where "task_feature op md = Inr (name, shape, dtype)"
    "estimate_ns model name shape dtype ''two_slot'' geometry = Inr ns"
    by (auto simp: estimate_task_ns_def)
  with estimate_ns_grounded ns(2) show ?thesis unfolding grounded_def by blast
qed

lemma default_a2_parts:
  "\<exists>model fallback tp. default_a2_timing_profile fingerprint = Inr (model, fallback, tp) \<and>
     LinearCalibration calibration_report_a2 ''A2'' = Inr model \<and> timing_wf fallback \<and> timing_wf tp"
proof -
  obtain model where model: "LinearCalibration calibration_report_a2 ''A2'' = Inr model"
    using shipped_calibration_accepted by blast
  have platform: "normalize_platform ''A2'' = Inr ''A2''" "\<not> isl (get_device_profile ''A2'')" by code_simp+
  then obtain profile where profile: "get_device_profile ''A2'' = Inr profile"
    by (cases "get_device_profile ''A2''") auto
  have accepted: "\<exists>tp. TimingProfile overrides ''A2'' [] 1 calibration estimator = Inr tp"
    if "calibration \<noteq> []" "estimator = ''pypto-fast'' \<or> estimator = ''measured-linear'' \<and> overrides" for overrides calibration estimator
    using that by (auto simp: TimingProfile_def platform profile timing_estimators_def)
  obtain measured where "TimingProfile True ''A2'' [] 1 (''measured-linear-'' @ fingerprint @ ''-ns-2ticks-per-ns'') ''measured-linear'' = Inr measured"
    using accepted [of "''measured-linear-'' @ fingerprint @ ''-ns-2ticks-per-ns''" "''measured-linear''" True] by auto
  moreover obtain fallback where fallback: "TimingProfile False ''A2'' [] 1 ''pypto-fast-derived-uncalibrated-49587f3'' ''pypto-fast'' = Inr fallback"
    using accepted [of "''pypto-fast-derived-uncalibrated-49587f3''" "''pypto-fast''" False] by auto
  moreover obtain tp where tp: "TimingProfile True ''A2'' [] 1
      (''a2-910b3-cann9-measured-linear+pypto-fallback-'' @ take 16 SOURCE_REPORT_SHA256) ''measured-linear'' = Inr tp"
    using accepted [of "''a2-910b3-cann9-measured-linear+pypto-fallback-'' @ take 16 SOURCE_REPORT_SHA256" "''measured-linear''" True] by auto
  ultimately show ?thesis
    using model TimingProfile_wf [OF fallback] TimingProfile_wf [OF tp]
    by (simp add: default_a2_timing_profile_def measured_timing_profile_def)
qed



end
