(* ===== verification/Sim_Bridge_Regions.thy ===== *)
theory Sim_Bridge_Regions
  imports Sim_Views
begin

text \<open>
  The region arithmetic at the end of \<^verbatim>\<open>tilelang/simulator/bridge.py\<close> and the overlap test the
  bridge's memory-dependency construction rests on: bounding intervals, exact byte intervals of a
  strided view, the two-pointer disjointness sweep, alias resolution and \<open>_regions_overlap_uncached\<close>.
  \<^verbatim>\<open>Sim_Bridge_Overlap\<close> relates the test to the bytes the regions touch.
\<close>

section \<open>Bounds and byte intervals of one region\<close>

fun is_symbolic :: "rt_int \<Rightarrow> bool" where
  "is_symbolic (RAffine _) = True"
| "is_symbolic (RSymbolic _ _) = True"
| "is_symbolic _ = False"

text \<open>A runtime integer that is not symbolic, as the integer Python computes with.\<close>

fun concrete_int :: "rt_int \<Rightarrow> int" where
  "concrete_int (RInt n) = n"
| "concrete_int (RBool b) = py_bool b"
| "concrete_int _ = 0"

text \<open>\<open>(region.byte_offset,) + region.shape + (region.strides_bytes or ())\<close>.\<close>

definition region_values :: "buffer_region \<Rightarrow> rt_int list" where
  "region_values region =
     br_byte_offset region # br_shape region @
       (case br_strides_bytes region of None \<Rightarrow> [] | Some strides \<Rightarrow> strides)"

definition region_is_symbolic :: "buffer_region \<Rightarrow> bool" where
  "region_is_symbolic region \<longleftrightarrow> (\<exists>v \<in> set (region_values region). is_symbolic v)"

definition region_shape :: "buffer_region \<Rightarrow> int list" where
  "region_shape region = map concrete_int (br_shape region)"

definition region_offset :: "buffer_region \<Rightarrow> int" where
  "region_offset region = concrete_int (br_byte_offset region)"

text \<open>\<open>region.strides_bytes or contiguous_strides_bytes(region.shape, itemsize)\<close>.\<close>

definition region_strides :: "buffer_region \<Rightarrow> int \<Rightarrow> int list" where
  "region_strides region itemsize =
     (case br_strides_bytes region of
        Some (s # ss) \<Rightarrow> map concrete_int (s # ss)
      | _ \<Rightarrow> contiguous_strides_bytes (region_shape region) itemsize)"

definition region_bounds :: "buffer_region \<Rightarrow> interval option res" where
  "region_bounds region =
     (if region_is_symbolic region then Inr None
      else if 0 \<in> set (region_shape region) then Inr (Some (region_offset region, region_offset region))
      else and_then (dtype_size_bytes (br_dtype region)) (\<lambda>itemsize.
        let strides = region_strides region itemsize;
            last_offset = dot (map (\<lambda>extent. extent - 1) (region_shape region)) strides
        in Inr (Some (region_offset region, region_offset region + last_offset + itemsize))))"

definition max_interval_expansion :: int where
  "max_interval_expansion = 4096"

text \<open>The inner loop: peel the outer dimensions off \<open>linear\<close>, innermost first.\<close>

fun linear_base :: "int \<Rightarrow> int \<Rightarrow> (int \<times> int) list \<Rightarrow> int" where
  "linear_base remainder base [] = base"
| "linear_base remainder base ((extent, stride) # dims) =
     linear_base (remainder div extent) (base + remainder mod extent * stride) dims"

definition region_byte_intervals :: "buffer_region \<Rightarrow> interval list option res" where
  "region_byte_intervals region =
     (if region_is_symbolic region then Inr None
      else if 0 \<in> set (region_shape region) then Inr (Some [])
      else and_then (dtype_size_bytes (br_dtype region)) (\<lambda>itemsize.
        let shape = region_shape region; strides = region_strides region itemsize;
            outer = prod_list (butlast shape)
        in if (\<exists>stride \<in> set strides. stride \<le> 0) then Inr None
           else if outer > max_interval_expansion then Inr None
           else if shape = [] then Inl (IndexError ''tuple index out of range'')
           else
             (let inner_span = (last shape - 1) * last strides + itemsize;
                  dims = rev (zip (butlast shape) (butlast strides));
                  starts = map (\<lambda>linear. linear_base linear (region_offset region) dims) [0..outer - 1]
              in Inr (Some (merge_intervals (map (\<lambda>base. (base, base + inner_span)) starts))))))"

definition region_is_contiguous :: "buffer_region \<Rightarrow> bool res" where
  "region_is_contiguous region =
     (if region_is_symbolic region then Inr False
      else and_then (dtype_size_bytes (br_dtype region)) (\<lambda>itemsize.
        Inr (case br_strides_bytes region of
               None \<Rightarrow> True
             | Some strides \<Rightarrow>
                 map concrete_int strides = contiguous_strides_bytes (region_shape region) itemsize)))"

text \<open>The \<open>while\<close> loop over both interval lists.\<close>

fun sweep_disjoint :: "interval list \<Rightarrow> interval list \<Rightarrow> bool" where
  "sweep_disjoint [] right = True"
| "sweep_disjoint left [] = True"
| "sweep_disjoint ((ls, le) # left) ((rs, re) # right) =
     (if ls < re \<and> rs < le then False
      else if le \<le> rs then sweep_disjoint left ((rs, re) # right)
      else sweep_disjoint ((ls, le) # left) right)"

definition shift_intervals :: "int \<Rightarrow> interval list \<Rightarrow> interval list" where
  "shift_intervals delta = map (\<lambda>(start, stop). (start + delta, stop + delta))"

definition strided_regions_disjoint ::
  "buffer_region \<Rightarrow> buffer_region \<Rightarrow> int \<Rightarrow> int \<Rightarrow> bool option res" where
  "strided_regions_disjoint left right left_base right_base =
     and_then (region_byte_intervals left) (\<lambda>left_intervals.
     and_then (region_byte_intervals right) (\<lambda>right_intervals.
       case (left_intervals, right_intervals) of
         (Some ls, Some rs) \<Rightarrow>
           if ls = [] \<or> rs = [] then Inr (Some True)
           else Inr (Some (sweep_disjoint ls
                  (if left_base \<noteq> right_base then shift_intervals (right_base - left_base) rs else rs)))
       | _ \<Rightarrow> Inr None))"

definition spec_size_bytes :: "buffer_spec \<Rightarrow> int option res" where
  "spec_size_bytes spec =
     (case bs_size_bytes spec of
        Some n \<Rightarrow> Inr (Some n)
      | None \<Rightarrow>
          if (\<exists>extent \<in> set (bs_shape spec). is_symbolic extent \<or> extent = RNonInt) then Inr None
          else and_then (dtype_size_bytes (bs_dtype spec)) (\<lambda>itemsize.
            Inr (Some (itemsize * prod_list (map concrete_int (bs_shape spec))))))"

section \<open>The bridge's memory state\<close>

type_synonym history_key = "lane \<times> memory_scope \<times> int \<times> string"
type_synonym history_entry = "buffer_region \<times> string \<times> lane \<times> int"
type_synonym history = "(history_key, history_entry list) dict"
type_synonym alias_key = "memory_scope \<times> int option \<times> string"

datatype history_name = LastWrites | LastReads

text \<open>
  The fields of \<open>_TirBridge\<close> that memory-dependency construction reads and writes.  The candidate
  cache is keyed by \<open>id(history)\<close>; there are two histories, named by \<open>history_name\<close>.
\<close>

record bridge_memory =
  bm_buffers :: "(string, buffer_spec) dict"
  bm_last_writes :: history
  bm_last_reads :: history
  bm_active_aliases :: "(alias_key, string) dict"
  bm_overlap_cache :: "(buffer_region \<times> buffer_region \<times> int, bool) dict"
  bm_candidate_cache :: "(history_name \<times> lane \<times> memory_scope \<times> int \<times> string \<times> bool, history_key list) dict"

definition gm_scopes :: "memory_scope list" where
  [op_sets]: "gm_scopes = [GM, WORKSPACE]"

text \<open>\<open>region.core_id if region.core_id is not None else core_id\<close>.\<close>

definition region_owner :: "buffer_region \<Rightarrow> int \<Rightarrow> int" where
  "region_owner region core = (case br_core_id region of None \<Rightarrow> core | Some c \<Rightarrow> c)"

function resolve_alias_from ::
  "(alias_key, string) dict \<Rightarrow> memory_scope \<Rightarrow> int option \<Rightarrow> string list \<Rightarrow> string \<Rightarrow> string" where
  "resolve_alias_from aliases scope owner seen current =
     (if current \<in> set seen then current
      else case map_of aliases (scope, owner, current) of
             None \<Rightarrow> current
           | Some target \<Rightarrow> resolve_alias_from aliases scope owner (current # seen) target)"
  by pat_completeness auto
termination
proof (relation "measure (\<lambda>(aliases, scope, owner, seen, current).
    card ((\<lambda>((_, _, name), _). name) ` set aliases - set seen))", goal_cases)
  case 1
  then show ?case by simp
next
  case (2 aliases scope owner seen current target)
  let ?names = "(\<lambda>((_, _, name), _). name) ` set aliases"
  have "current \<in> ?names" using map_of_SomeD [OF 2(2)] by force
  moreover have "x \<in> A \<Longrightarrow> x \<notin> B \<Longrightarrow> A - insert x B \<subset> A - B" for x and A B :: "string set" by blast
  ultimately have "?names - set (current # seen) \<subset> ?names - set seen" using 2(1) by simp
  then show ?case by (simp only: in_measure prod.case) (rule psubset_card_mono, simp_all)
qed

declare resolve_alias_from.simps [simp del]

definition resolve_active_alias_name ::
  "bridge_memory \<Rightarrow> memory_scope \<Rightarrow> int option \<Rightarrow> string \<Rightarrow> string" where
  "resolve_active_alias_name b scope alias_owner current =
     resolve_alias_from (bm_active_aliases b) scope alias_owner [] current"

definition resolve_active_alias :: "bridge_memory \<Rightarrow> buffer_region \<Rightarrow> int \<Rightarrow> string" where
  "resolve_active_alias b region owner =
     resolve_active_alias_name b (br_scope region)
       (if br_scope region \<in> set gm_scopes then None else Some owner) (br_buffer region)"

text \<open>\<open>self.buffers[name]\<close>.\<close>

definition bridge_buffer :: "bridge_memory \<Rightarrow> string \<Rightarrow> buffer_spec res" where
  "bridge_buffer b name =
     (case map_of (bm_buffers b) name of None \<Rightarrow> Inl (KeyError name) | Some spec \<Rightarrow> Inr spec)"

text \<open>The two allocations as intervals: the answer when a region's bounds are not static.\<close>

definition allocations_overlap :: "buffer_spec \<Rightarrow> buffer_spec \<Rightarrow> int \<Rightarrow> int \<Rightarrow> bool res" where
  "allocations_overlap left_spec right_spec left_base right_base =
     and_then (spec_size_bytes left_spec) (\<lambda>left_size.
     and_then (spec_size_bytes right_spec) (\<lambda>right_size.
       case (left_size, right_size) of
         (Some ln, Some rn) \<Rightarrow> Inr (left_base < right_base + rn \<and> right_base < left_base + ln)
       | _ \<Rightarrow> Inr True))"

text \<open>Both bounding intervals are static: the interval test, refined for strided views.\<close>

definition bounded_overlap ::
  "buffer_region \<Rightarrow> buffer_region \<Rightarrow> int \<Rightarrow> int \<Rightarrow> interval \<Rightarrow> interval \<Rightarrow> bool res" where
  "bounded_overlap left right left_base right_base left_bounds right_bounds =
     (if \<not> (left_base + fst left_bounds < right_base + snd right_bounds \<and>
            right_base + fst right_bounds < left_base + snd left_bounds)
      then Inr False
      else and_then (region_is_contiguous left) (\<lambda>left_contiguous.
           and_then (if left_contiguous then region_is_contiguous right else Inr False) (\<lambda>contiguous.
             if contiguous then Inr True
             else and_then (strided_regions_disjoint left right left_base right_base) (\<lambda>refined.
               case refined of Some disjoint \<Rightarrow> Inr (\<not> disjoint) | None \<Rightarrow> Inr True))))"

text \<open>From the two base addresses on; both are 0 when the regions share one buffer.\<close>

definition overlap_at ::
  "buffer_region \<Rightarrow> buffer_region \<Rightarrow> buffer_spec \<Rightarrow> buffer_spec \<Rightarrow> int \<Rightarrow> int \<Rightarrow> bool res" where
  "overlap_at left right left_spec right_spec left_base right_base =
     and_then (region_bounds left) (\<lambda>left_bounds.
     and_then (region_bounds right) (\<lambda>right_bounds.
       case (left_bounds, right_bounds) of
         (Some lb, Some rb) \<Rightarrow> bounded_overlap left right left_base right_base lb rb
       | _ \<Rightarrow> allocations_overlap left_spec right_spec left_base right_base))"

definition regions_overlap_uncached ::
  "bridge_memory \<Rightarrow> buffer_region \<Rightarrow> buffer_region \<Rightarrow> int \<Rightarrow> bool res" where
  "regions_overlap_uncached b left right core =
     (let left_owner = region_owner left core; right_owner = region_owner right core in
      if br_scope left \<noteq> br_scope right then Inr False
      else if br_scope left \<notin> set gm_scopes \<and> left_owner \<noteq> right_owner then Inr False
      else
        let left_buffer = resolve_active_alias b left left_owner;
            right_buffer = resolve_active_alias b right right_owner
        in and_then (bridge_buffer b left_buffer) (\<lambda>left_spec.
           and_then (bridge_buffer b right_buffer) (\<lambda>right_spec.
             if left_buffer = right_buffer then overlap_at left right left_spec right_spec 0 0
             else case (bs_address left_spec, bs_address right_spec) of
               (Some left_base, Some right_base) \<Rightarrow>
                 overlap_at left right left_spec right_spec left_base right_base
             | _ \<Rightarrow> Inr False)))"

end
