(* ===== verification/Sim_Bridge_Ops.thy ===== *)
theory Sim_Bridge_Ops
  imports Sim_Program
begin

text \<open>
  The parts of \<^verbatim>\<open>tilelang/simulator/bridge.py\<close> that decode a lowered operation without looking inside
  a TIR expression: operation names, their lane and pipe, the pipe of a synchronization marker, the
  metadata of a synchronization call, and arithmetic on runtime integers.  A TIR argument enters as
  what the bridge reads off it: \<open>ta_literal\<close> is \<open>_literal(argument)\<close> and \<open>ta_const\<close> is
  \<open>_const_int(argument, environment)\<close>, both answers of the TVM runtime.
\<close>

section \<open>Operation names\<close>

definition vector_ops :: "string list" where
  [op_sets]: "vector_ops = [
     ''abs'', ''add'', ''adds'', ''arith_progression'', ''axpy'', ''bilinear_interpolation'',
     ''bitwise_and'', ''bitwise_lshift'', ''bitwise_not'', ''bitwise_or'', ''bitwise_rshift'',
     ''bitwise_xor'', ''block_reduce_max'', ''block_reduce_min'', ''block_reduce_sum'',
     ''broadcast'', ''brcb_experiment'', ''cast'', ''clamp'', ''clamp_max'', ''clamp_min'',
     ''compare'', ''compare_scalar'', ''cos'', ''createvecindex'', ''div'', ''divs'',
     ''duplicate'', ''exp'', ''fill'', ''gather'', ''gather_mask'', ''gather_mask_experiment'',
     ''gatherb'', ''init_sort_buf'', ''leaky_relu'', ''ln'', ''max'', ''maxs'', ''merge_sort'',
     ''min'', ''mins'', ''mul'', ''mul_add_dst'', ''muls'', ''pow'', ''reciprocal'',
     ''reduce'', ''reduce_max'', ''reduce_min'', ''reduce_sum'', ''relu'', ''round'',
     ''rsqrt'', ''select'', ''sigmoid'', ''silu'', ''sin'', ''sort'', ''sort32'', ''sqrt'',
     ''sub'', ''subs'', ''tail_binary'', ''tail_broadcast'', ''tail_compare'',
     ''tail_compare_scalar'', ''tail_reduce'', ''tail_scalar'', ''tail_select'',
     ''tail_unary'', ''topk'', ''transpose'', ''wholereducemax'', ''wholereducemin'',
     ''wholereducesum'', ''abs_experiment'', ''datacachecleanandinvalid_experiment'',
     ''exp_experiment'', ''fill_experiment'', ''mins_experiment'', ''reducesum_experiment'',
     ''reducesum_mask_experiment'', ''row_expand_div_experiment'',
     ''row_expand_mul_experiment'', ''row_expand_sub_experiment'', ''sub_experiment'',
     ''sum_experiment'']"

definition sync_marker_ops :: "string list" where
  [op_sets]: "sync_marker_ops = [
     ''set_flag'', ''wait_flag'', ''auto_set_flag'', ''auto_wait_flag'', ''set_cross_flag'',
     ''wait_cross_flag'', ''auto_set_cross_flag'', ''auto_wait_cross_flag'', ''barrier_all'',
     ''sync_all'', ''pipe_barrier'', ''auto_barrier'', ''reinterpretcast'']"

definition short_prefixes :: "string list" where
  "short_prefixes = [''tl.ascend_'', ''tl::ascend::'', ''ascendc::'']"

text \<open>\<open>for prefix in (...): if short.startswith(prefix): short = short[len(prefix):]; break\<close>.\<close>

fun strip_prefix :: "string list \<Rightarrow> string \<Rightarrow> string" where
  "strip_prefix [] short = short"
| "strip_prefix (p # ps) short = (if py_startswith short p then drop (length p) short else strip_prefix ps short)"

definition short_operation :: "string \<Rightarrow> string" where
  "short_operation op =
     (let short = strip_prefix short_prefixes (py_lower (py_strip op));
          short = takeWhile (\<lambda>c. c \<noteq> CHR ''<'') short
      in if short = ''tl.arith_progression'' then ''arith_progression'' else short)"

definition normalize_pipe_name :: "string \<Rightarrow> string" where
  "normalize_pipe_name text =
     (let normalized = py_lower (py_strip text)
      in if py_startswith normalized ''pipe_'' then drop 5 normalized else normalized)"

definition vector_lane :: "lane \<Rightarrow> lane" where
  "vector_lane l = (if l \<in> {VECTOR_0, VECTOR_1} then l else VECTOR_0)"

section \<open>Lane and pipe of an operation\<close>

text \<open>The branch of the copies: which engine moves the data.\<close>

definition classify_copy :: "string \<Rightarrow> lane \<Rightarrow> lane \<times> pipe \<times> string" where
  "classify_copy short l =
     (if py_contains short ''l1_to_l0'' \<or> short = ''copy_l1_to_bt'' then (CUBE, MTE1, short)
      else if py_contains short ''l0c_to_gm'' \<or> py_contains short ''copy_cv'' then (CUBE, FIX, short)
      else if short = ''copy_ub_to_l1'' then (vector_lane l, MTE3, short)
      else if py_contains short ''ub_to_gm'' then (vector_lane l, MTE3, short)
      else if py_contains short ''copy_vc'' then (vector_lane l, VECTOR, short)
      else if short = ''copy_ub_to_ub'' then (vector_lane l, VECTOR, short)
      else (if l \<noteq> CONTROL then l else CUBE, MTE2, short))"

definition classify_operation :: "string \<Rightarrow> lane \<Rightarrow> (lane \<times> pipe \<times> string) res" where
  "classify_operation op l =
     (let normalized = py_lower (py_strip op); short = short_operation normalized in
      if py_contains short ''shmem''
      then Inl (UnsupportedSimOpError ''Ascend shmem operation is intentionally unsupported'')
      else if short = ''copy_ub_to_ub_selected''
      then Inl (UnsupportedSimOpError ''compiler-selected UB copy requires validated semantic projection'')
      else if short \<in> set sync_marker_ops then Inr (l, SCALAR, short)
      else if py_contains short ''im2col'' then Inr (CUBE, MTE1, short)
      else if py_contains short ''gemm'' \<or> short \<in> {''mma'', ''mma_bias''} then Inr (CUBE, MATRIX, short)
      else if py_contains short ''copy'' \<or> py_contains short ''data_copy'' \<or> py_contains short ''datacopy''
      then Inr (classify_copy short l)
      else if py_contains short ''atomic''
      then (if py_contains short ''l0c'' \<or> l = CUBE then Inr (CUBE, FIX, short)
            else Inr (vector_lane l, MTE3, short))
      else if short \<in> set vector_ops then Inr (vector_lane l, VECTOR, short)
      else if short \<in> {''scalar'', ''printf'', ''dump_tensor'', ''free_pipe''} then Inr (l, SCALAR, short)
      else if normalized = ''buffer_store''
      then Inr (if l \<noteq> CONTROL then l else VECTOR_0, SCALAR, normalized)
      else Inl (UnsupportedSimOpError ''unsupported lowered simulator operation''))"

text \<open>\<open>_sync_task_pipe\<close>: the pipe a synchronization marker names, if it names one.\<close>

definition sync_pipe_name :: "string \<Rightarrow> metadata \<Rightarrow> string" where
  "sync_pipe_name op md =
     (if op \<in> {''set_flag'', ''auto_set_flag'', ''set_cross_flag'', ''auto_set_cross_flag''}
      then py_str (dict_get md ''src_pipe'' (PStr []))
      else if op \<in> {''wait_flag'', ''auto_wait_flag''} then py_str (dict_get md ''dst_pipe'' (PStr []))
      else if op \<in> {''pipe_barrier'', ''auto_barrier''}
      then (let target = py_str (dict_get md ''target_pipe'' (PStr []))
            in if target \<noteq> ''all'' then target else [])
      else [])"

definition sync_task_pipe :: "string \<Rightarrow> metadata \<Rightarrow> pipe \<Rightarrow> pipe res" where
  "sync_task_pipe op md fallback =
     (let pipe_name = sync_pipe_name op md
      in if pipe_name = [] then Inr fallback
         else case resolve_pipe (PipeText pipe_name) of
           Inl e \<Rightarrow> Inl (ProgramValidationError ''synchronization operation names unknown pipe'')
         | Inr p \<Rightarrow> Inr p)"

section \<open>Runtime integers\<close>

definition scale_runtime_int :: "rt_int \<Rightarrow> int \<Rightarrow> rt_int res" where
  "scale_runtime_int v coefficient =
     (case v of
        RInt n \<Rightarrow> Inr (RInt (n * coefficient))
      | RBool t \<Rightarrow> Inr (RInt (py_bool t * coefficient))
      | RAffine a \<Rightarrow> map_sum id RAffine (affine_scaled a coefficient)
      | RSymbolic op args \<Rightarrow> symbolic_scaled v coefficient
      | RNonInt \<Rightarrow> Inl (ProgramValidationError ''cannot scale runtime integer''))"

text \<open>\<open>isinstance(value, int)\<close>, which a \<open>bool\<close> satisfies.\<close>

fun rt_plain :: "rt_int \<Rightarrow> int option" where
  "rt_plain (RInt n) = Some n"
| "rt_plain (RBool t) = Some (py_bool t)"
| "rt_plain _ = None"

definition add_runtime_int :: "rt_int \<Rightarrow> rt_int \<Rightarrow> rt_int res" where
  "add_runtime_int left right =
     (case (rt_plain left, rt_plain right) of
        (Some a, Some b) \<Rightarrow> Inr (RInt (a + b))
      | _ \<Rightarrow> if left \<noteq> RNonInt \<and> right \<noteq> RNonInt then SymbolicInt ''add'' [left, right]
             else Inl (ProgramValidationError ''cannot add runtime integers''))"

definition ascend_template_dtypes :: "(string, string) dict" where
  "ascend_template_dtypes =
    [(''half'', ''float16''), (''float'', ''float32''), (''bfloat16_t'', ''bfloat16''), (''int8_t'', ''int8''),
     (''int16_t'', ''int16''), (''int'', ''int32''), (''int64_t'', ''int64''), (''uint8_t'', ''uint8''),
     (''uint16_t'', ''uint16''), (''uint32_t'', ''uint32''), (''uint64_t'', ''uint64'')]"

definition ascend_template_dtype :: "string \<Rightarrow> string option" where
  "ascend_template_dtype token = map_of ascend_template_dtypes (py_lower (py_strip token))"

section \<open>Synchronization metadata\<close>

record tir_argument =
  ta_literal :: pyval
  ta_const :: "int option"

text \<open>\<open>flag_int\<close>: the value under the loop environment when there is one, else the literal.\<close>

definition flag_int :: "bool \<Rightarrow> tir_argument \<Rightarrow> pyval" where
  "flag_int has_environment a =
     (case ta_const a of Some n \<Rightarrow> if has_environment then PInt n else ta_literal a | None \<Rightarrow> ta_literal a)"

definition pipe_literal :: "tir_argument \<Rightarrow> pyval" where
  "pipe_literal a = PStr (normalize_pipe_name (py_str (ta_literal a)))"

text \<open>\<open>event_type.split("_")\<close> when it has exactly two parts.\<close>

definition split_pair :: "string \<Rightarrow> (string \<times> string) option" where
  "split_pair text =
     (let left = takeWhile (\<lambda>c. c \<noteq> CHR ''_'') text; rest = dropWhile (\<lambda>c. c \<noteq> CHR ''_'') text
      in if rest = [] \<or> CHR ''_'' \<in> set (tl rest) then None else Some (left, tl rest))"

definition flag_metadata :: "string \<Rightarrow> tir_argument list \<Rightarrow> bool \<Rightarrow> metadata" where
  "flag_metadata short args env =
     (if short \<in> {''set_flag'', ''wait_flag''} then
        (case args of a0 # a1 # a2 # _ \<Rightarrow>
           [(''src_pipe'', pipe_literal a0), (''dst_pipe'', pipe_literal a1), (''flag_id'', flag_int env a2)]
         | _ \<Rightarrow> [])
      else if short \<in> {''auto_set_flag'', ''auto_wait_flag''} then
        (case args of a0 # a1 # _ \<Rightarrow>
           (case split_pair (py_str (ta_literal a0)) of
              Some (src, dst) \<Rightarrow>
                [(''src_pipe'', PStr (normalize_pipe_name src)), (''dst_pipe'', PStr (normalize_pipe_name dst)),
                 (''flag_id'', flag_int env a1)]
            | None \<Rightarrow> [])
         | _ \<Rightarrow> [])
      else if short = ''set_cross_flag'' then
        (case args of a0 # a1 # a2 # _ \<Rightarrow>
           [(''src_pipe'', pipe_literal a0), (''flag_id'', flag_int env a1), (''mode'', flag_int env a2)]
         | _ \<Rightarrow> [])
      else if short = ''auto_set_cross_flag'' then
        (case args of a0 # a1 # a2 # _ \<Rightarrow>
           [(''mode'', flag_int env a0), (''src_pipe'', pipe_literal a1), (''flag_id'', flag_int env a2)]
         | _ \<Rightarrow> [])
      else if short \<in> {''wait_cross_flag'', ''auto_wait_cross_flag''} then
        (case args of
           [] \<Rightarrow> []
         | [a0] \<Rightarrow> [(''flag_id'', flag_int env a0)]
         | a0 # a1 # _ \<Rightarrow> [(''flag_id'', flag_int env a0), (''wait_pipe'', pipe_literal a1)])
      else [])"

definition sync_metadata :: "string \<Rightarrow> tir_argument list \<Rightarrow> bool \<Rightarrow> metadata" where
  "sync_metadata op args env =
     (let short = short_operation op; md = flag_metadata short args env
      in case args of
           a0 # _ \<Rightarrow> if py_contains short ''barrier'' then dict_set ''target_pipe'' (pipe_literal a0) md else md
         | [] \<Rightarrow> md)"

section \<open>Tail operations\<close>

definition tail_operations :: "(string, string list) dict" where
  "tail_operations =
    [(''tail_binary'', [''add'', ''div'', ''max'', ''min'', ''mul'', ''sub'']),
     (''tail_scalar'', [''adds'', ''maxs'', ''mins'', ''muls'']),
     (''tail_unary'', [''abs'', ''exp'', ''ln'', ''reciprocal'', ''relu'', ''rsqrt'', ''sqrt''])]"

definition tail_reduce_operations :: "string list" where
  "tail_reduce_operations = [''reduce_max'', ''reduce_min'', ''reduce_sum'']"

text \<open>The head of \<open>_emit_call\<close>: the operation a tail wrapper or a biased \<open>mma\<close> stands for, and the arguments left.\<close>

definition decode_call :: "string \<Rightarrow> tir_argument list \<Rightarrow> (string \<times> tir_argument list) res" where
  "decode_call op args =
     (let tail_kind = short_operation op in
      case map_of tail_operations tail_kind of
        Some allowed \<Rightarrow>
          (case args of
             [] \<Rightarrow> Inl (ProgramValidationError ''tail operation requires an operation tag'')
           | a0 # rest \<Rightarrow>
               (case ta_literal a0 of
                  PStr tag \<Rightarrow>
                    if short_operation tag \<in> set allowed then Inr (short_operation tag, rest)
                    else Inl (UnsupportedSimOpError ''operation tag is not valid for the tail kind'')
                | _ \<Rightarrow> Inl (ProgramValidationError ''operation tag must be a string'')))
      | None \<Rightarrow>
          if tail_kind = ''tail_reduce'' then
            (case args of
               [] \<Rightarrow> Inl (ProgramValidationError ''tail_reduce requires a reduction kind'')
             | a0 # rest \<Rightarrow>
                 let kind = short_operation (py_str (ta_literal a0))
                 in if kind \<in> set tail_reduce_operations then Inr (kind, rest)
                    else Inl (UnsupportedSimOpError ''unsupported tail_reduce kind''))
          else if tail_kind = ''mma'' then
            (case args of
               [] \<Rightarrow> Inr (op, args)
             | a0 # _ \<Rightarrow>
                 (case ta_literal a0 of
                    PStr tag \<Rightarrow> Inr (if py_startswith tag ''mma_bias<'' then ''mma_bias'' else op, args)
                  | _ \<Rightarrow> Inr (op, args)))
          else Inr (op, args))"

section \<open>Facts\<close>

text \<open>Whatever the bridge classifies, the task constructor accepts the lane and the pipe.\<close>

lemma classify_copy_placement:
  "classify_copy short l = (l', p, name) \<Longrightarrow> p \<in> allowed_pipes l' \<and> name = short"
  by (cases l) (auto simp: classify_copy_def vector_lane_def split: if_splits)

lemma classify_operation_placement:
  "classify_operation op l = Inr (l', p, name) \<Longrightarrow> p \<in> allowed_pipes l'"
  by (cases l) (auto simp: classify_operation_def vector_lane_def Let_def dest: classify_copy_placement split: if_splits)

text \<open>A scaled runtime integer evaluates to the scaled value.\<close>

lemma scale_runtime_int_plain:
  "rt_plain v = Some n \<Longrightarrow> scale_runtime_int v c = Inr (RInt (n * c))"
  by (cases v) (auto simp: scale_runtime_int_def)

lemma evaluate_add_runtime_int:
  assumes "evaluate_runtime_int a bindings = Inr x" "evaluate_runtime_int c bindings = Inr y"
    and "add_runtime_int a c = Inr s"
  shows "evaluate_runtime_int s bindings = Inr (x + y)"
  using assms by (cases a; cases c)
    (auto simp: add_runtime_int_def SymbolicInt_def symbolic_arities_def Let_def py_lower_def py_strip_def
      lower_char_def py_isspace_def symbolic_apply_def symbolic_binary_def split: if_splits)

end
