(* ===== verification/Sim_Bridge_History.thy ===== *)
theory Sim_Bridge_History
  imports Sim_Bridge_Regions Sim_Bridge_Ops
begin

text \<open>
  Memory-dependency construction of \<^verbatim>\<open>tilelang/simulator/bridge.py\<close>: the access histories, their two
  caches, the dependency queries and the update after a task is emitted.  A method that may fill a
  cache returns the new state beside its answer; an exception leaves the bridge, so the state at that
  point is not needed.
\<close>

section \<open>Operands of a task\<close>

text \<open>\<open>isinstance(value, (tuple, list))\<close>.\<close>

fun is_seq :: "pyval \<Rightarrow> bool" where
  "is_seq (PSeq _) = True"
| "is_seq _ = False"

fun listed_regions :: "pyval list \<Rightarrow> buffer_region list" where
  "listed_regions [] = []"
| "listed_regions (PRegion r # vs) = r # listed_regions vs"
| "listed_regions (_ # vs) = listed_regions vs"

fun operand_value_regions :: "pyval \<Rightarrow> buffer_region list" where
  "operand_value_regions (PRegion r) = [r]"
| "operand_value_regions (PSeq vs) = listed_regions vs"
| "operand_value_regions _ = []"

definition operand_regions :: "metadata \<Rightarrow> string list \<Rightarrow> buffer_region list" where
  "operand_regions md names =
     (let has_source_regions = is_seq (md_get md ''src_regions'')
      in concat (map (\<lambda>name. if name = ''src'' \<and> has_source_regions then []
                             else operand_value_regions (md_get md name)) names))"

definition read_operands :: "string list" where
  "read_operands = [''src_regions'', ''src'', ''lhs'', ''rhs'', ''mask'', ''accumulator'', ''scalar_src'',
     ''offsets'', ''bias'']"

definition write_operands :: "string list" where
  "write_operands = [''dst'', ''dst_regions'', ''pad_dst'', ''scratch'', ''output_scratch'']"

section \<open>The overlap cache\<close>

definition overlap_cache_limit :: int where
  "overlap_cache_limit = 131072"

definition regions_overlap ::
  "bridge_memory \<Rightarrow> buffer_region \<Rightarrow> buffer_region \<Rightarrow> int \<Rightarrow> (bool \<times> bridge_memory) res" where
  "regions_overlap b left right core =
     (case map_of (bm_overlap_cache b) (left, right, core) of
        Some cached \<Rightarrow> Inr (cached, b)
      | None \<Rightarrow>
          and_then (regions_overlap_uncached b left right core) (\<lambda>answer.
            let cache = if overlap_cache_limit \<le> int (length (bm_overlap_cache b)) then [] else bm_overlap_cache b
            in Inr (answer, b\<lparr>bm_overlap_cache := dict_set (left, right, core) answer cache\<rparr>)))"

section \<open>History buckets\<close>

definition history_of :: "bridge_memory \<Rightarrow> history_name \<Rightarrow> history" where
  "history_of b h = (case h of LastWrites \<Rightarrow> bm_last_writes b | LastReads \<Rightarrow> bm_last_reads b)"

definition set_history :: "history_name \<Rightarrow> history \<Rightarrow> bridge_memory \<Rightarrow> bridge_memory" where
  "set_history h new b =
     (case h of LastWrites \<Rightarrow> b\<lparr>bm_last_writes := new\<rparr> | LastReads \<Rightarrow> b\<lparr>bm_last_reads := new\<rparr>)"

definition memory_history_key :: "buffer_region \<Rightarrow> lane \<Rightarrow> int \<Rightarrow> history_key" where
  "memory_history_key region l core = (l, br_scope region, region_owner region core, br_buffer region)"

definition memory_history_key_may_overlap ::
  "bridge_memory \<Rightarrow> buffer_region \<Rightarrow> history_key \<Rightarrow> int \<Rightarrow> bool res" where
  "memory_history_key_may_overlap b region key core =
     (case key of (_, scope, previous_owner, previous_buffer) \<Rightarrow>
      let owner = region_owner region core in
      if scope \<notin> set gm_scopes \<and> owner \<noteq> previous_owner then Inr False
      else
        let left_buffer = resolve_active_alias b region owner;
            right_buffer = resolve_active_alias_name b scope
              (if scope \<in> set gm_scopes then None else Some previous_owner) previous_buffer
        in if left_buffer = right_buffer then Inr True
           else and_then (bridge_buffer b left_buffer) (\<lambda>left.
                and_then (bridge_buffer b right_buffer) (\<lambda>right.
                and_then (spec_size_bytes left) (\<lambda>left_size.
                and_then (spec_size_bytes right) (\<lambda>right_size.
                  case (bs_address left, bs_address right, left_size, right_size) of
                    (Some la, Some ra, Some ln, Some rn) \<Rightarrow> Inr (la < ra + rn \<and> ra < la + ln)
                  | _ \<Rightarrow> Inr False)))))"

text \<open>\<open>tuple(x for x in xs if test(x))\<close> with a test that may raise.\<close>

fun filter_res :: "('a \<Rightarrow> 'e + bool) \<Rightarrow> 'a list \<Rightarrow> 'e + 'a list" where
  "filter_res test [] = Inr []"
| "filter_res test (x # xs) =
     and_then (test x) (\<lambda>keep. and_then (filter_res test xs) (\<lambda>ys. Inr (if keep then x # ys else ys)))"

text \<open>The condition both comprehensions over history keys share.\<close>

definition key_selected :: "bridge_memory \<Rightarrow> buffer_region \<Rightarrow> lane \<Rightarrow> int \<Rightarrow> bool \<Rightarrow> history_key \<Rightarrow> bool res" where
  "key_selected b region l core include_cross_core key =
     (let owner = region_owner region core;
          cross_core = include_cross_core \<and> br_scope region \<in> set gm_scopes
      in if fst key = l \<and> fst (snd key) = br_scope region \<and> (cross_core \<or> fst (snd (snd key)) = owner)
         then memory_history_key_may_overlap b region key core
         else Inr False)"

text \<open>\<open>_memory_history_keys\<close>: over the keys of both histories, in one order of that set.\<close>

definition memory_history_keys ::
  "bridge_memory \<Rightarrow> buffer_region \<Rightarrow> lane \<Rightarrow> int \<Rightarrow> bool \<Rightarrow> history_key list res" where
  "memory_history_keys b region l core include_cross_core =
     filter_res (key_selected b region l core include_cross_core)
       (fromkeys (map fst (bm_last_writes b) @ map fst (bm_last_reads b)))"

definition memory_history_candidate_keys ::
  "bridge_memory \<Rightarrow> history_name \<Rightarrow> buffer_region \<Rightarrow> lane \<Rightarrow> int \<Rightarrow> bool \<Rightarrow> (history_key list \<times> bridge_memory) res" where
  "memory_history_candidate_keys b h region l core include_cross_core =
     (let owner = region_owner region core;
          cross_core = include_cross_core \<and> br_scope region \<in> set gm_scopes;
          key = (h, l, br_scope region, owner, br_buffer region, cross_core)
      in case map_of (bm_candidate_cache b) key of
           Some cached \<Rightarrow> Inr (cached, b)
         | None \<Rightarrow>
             and_then (filter_res (key_selected b region l core include_cross_core) (map fst (history_of b h)))
               (\<lambda>candidates. Inr (candidates,
                  b\<lparr>bm_candidate_cache := dict_set key candidates (bm_candidate_cache b)\<rparr>)))"

definition memory_history_candidates ::
  "bridge_memory \<Rightarrow> history_name \<Rightarrow> buffer_region \<Rightarrow> lane \<Rightarrow> int \<Rightarrow> bool \<Rightarrow> (history_entry list \<times> bridge_memory) res" where
  "memory_history_candidates b h region l core include_cross_core =
     and_then (memory_history_candidate_keys b h region l core include_cross_core) (\<lambda>(keys, b').
       Inr (concat (map (\<lambda>key. dict_get (history_of b' h) key []) keys), b'))"

section \<open>Dependencies of a task\<close>

definition same_on_chip_owner :: "buffer_region \<Rightarrow> int \<Rightarrow> int \<Rightarrow> bool" where
  "same_on_chip_owner region core previous_core =
     (if br_scope region \<in> set gm_scopes then core = previous_core else True)"

text \<open>One round of the comprehension: \<open>wanted\<close> is the extra test of the alias query.\<close>

definition collect_dependency ::
  "(buffer_region \<Rightarrow> buffer_region \<Rightarrow> bool) \<Rightarrow> bool \<Rightarrow> buffer_region \<Rightarrow> int \<Rightarrow> lane \<Rightarrow>
   string list \<times> bridge_memory \<Rightarrow> history_entry \<Rightarrow> (string list \<times> bridge_memory) res" where
  "collect_dependency wanted keep_cross_core region core l = (\<lambda>(found, b) (previous, tid, previous_lane, previous_core).
     if wanted region previous \<and> previous_lane = l
     then and_then (regions_overlap b region previous core) (\<lambda>(overlap, b').
       Inr (if overlap \<and> (keep_cross_core \<or> same_on_chip_owner region core previous_core)
            then tid # found else found, b'))
     else Inr (found, b))"

definition read_dependencies ::
  "(buffer_region \<Rightarrow> buffer_region \<Rightarrow> bool) \<Rightarrow> bool \<Rightarrow> int \<Rightarrow> lane \<Rightarrow>
   string list \<times> bridge_memory \<Rightarrow> buffer_region \<Rightarrow> (string list \<times> bridge_memory) res" where
  "read_dependencies wanted keep core l = (\<lambda>(found, b) region.
     and_then (memory_history_candidates b LastWrites region l core keep) (\<lambda>(entries, b').
       for_each (collect_dependency wanted keep region core l) (found, b') entries))"

text \<open>\<open>_memory_dependencies\<close> concatenates the candidates of both histories before it tests them.\<close>

definition write_dependencies ::
  "bool \<Rightarrow> int \<Rightarrow> lane \<Rightarrow> string list \<times> bridge_memory \<Rightarrow> buffer_region \<Rightarrow> (string list \<times> bridge_memory) res" where
  "write_dependencies keep core l = (\<lambda>(found, b) region.
     and_then (memory_history_candidates b LastWrites region l core keep) (\<lambda>(written, b1).
     and_then (memory_history_candidates b1 LastReads region l core keep) (\<lambda>(read, b2).
       for_each (collect_dependency (\<lambda>_ _. True) keep region core l) (found, b2) (written @ read))))"

definition keep_cross_core :: "string \<Rightarrow> bool" where
  "keep_cross_core op = py_contains op ''atomic_add''"

text \<open>\<open>tuple(sorted(set))\<close>.\<close>

definition sorted_ids :: "string list \<Rightarrow> string list" where
  "sorted_ids ids = sort (remdups ids)"

definition memory_dependencies ::
  "bridge_memory \<Rightarrow> metadata \<Rightarrow> int \<Rightarrow> lane \<Rightarrow> string \<Rightarrow> (string list \<times> bridge_memory) res" where
  "memory_dependencies b md core l op =
     (let reads = operand_regions md read_operands; writes = operand_regions md write_operands;
          keep = keep_cross_core op
      in and_then (for_each (read_dependencies (\<lambda>_ _. True) keep core l) ([], b) reads) (\<lambda>s.
         and_then (for_each (write_dependencies keep core l) s writes) (\<lambda>(found, b').
           Inr (sorted_ids found, b'))))"

definition alias_of :: "buffer_region \<Rightarrow> buffer_region \<Rightarrow> bool" where
  "alias_of region previous \<longleftrightarrow> br_buffer previous \<noteq> br_buffer region"

definition alias_write_dependencies ::
  "bool \<Rightarrow> int \<Rightarrow> lane \<Rightarrow> string list \<times> bridge_memory \<Rightarrow> buffer_region \<Rightarrow> (string list \<times> bridge_memory) res" where
  "alias_write_dependencies keep core l s region =
     for_each (\<lambda>(found, b) h.
        and_then (memory_history_candidates b h region l core keep) (\<lambda>(entries, b').
          for_each (collect_dependency alias_of keep region core l) (found, b') entries))
       s [LastWrites, LastReads]"

definition alias_memory_dependencies ::
  "bridge_memory \<Rightarrow> metadata \<Rightarrow> int \<Rightarrow> lane \<Rightarrow> string \<Rightarrow> (string list \<times> bridge_memory) res" where
  "alias_memory_dependencies b md core l op =
     (let reads = operand_regions md read_operands; writes = operand_regions md write_operands;
          keep = keep_cross_core op
      in and_then (for_each (read_dependencies alias_of keep core l) ([], b) reads) (\<lambda>s.
         and_then (for_each (alias_write_dependencies keep core l) s writes) (\<lambda>(found, b').
           Inr (sorted_ids found, b'))))"

section \<open>Recording the accesses of a task\<close>

text \<open>\<open>[entry for entry in entries if not overlap(region, entry[0])]\<close>.\<close>

fun keep_disjoint ::
  "bridge_memory \<Rightarrow> buffer_region \<Rightarrow> int \<Rightarrow> history_entry list \<Rightarrow> (history_entry list \<times> bridge_memory) res" where
  "keep_disjoint b region core [] = Inr ([], b)"
| "keep_disjoint b region core (entry # entries) =
     and_then (regions_overlap b region (fst entry) core) (\<lambda>(overlap, b1).
     and_then (keep_disjoint b1 region core entries) (\<lambda>(rest, b2).
       Inr (if overlap then rest else entry # rest, b2)))"

definition prune_bucket ::
  "history_name \<Rightarrow> buffer_region \<Rightarrow> int \<Rightarrow> bridge_memory \<Rightarrow> history_key \<Rightarrow> bridge_memory res" where
  "prune_bucket h region core b key =
     (case map_of (history_of b h) key of
        None \<Rightarrow> Inr b
      | Some [] \<Rightarrow> Inr b
      | Some entries \<Rightarrow>
          and_then (keep_disjoint b region core entries) (\<lambda>(kept, b').
            Inr (set_history h (dict_set key kept (history_of b' h)) b')))"

definition prune_history ::
  "buffer_region \<Rightarrow> int \<Rightarrow> lane \<Rightarrow> bridge_memory \<Rightarrow> history_name \<Rightarrow> bridge_memory res" where
  "prune_history region core l b h =
     and_then (memory_history_keys b region l core True) (\<lambda>keys. for_each (prune_bucket h region core) b keys)"

definition append_memory_history ::
  "history_name \<Rightarrow> bridge_memory \<Rightarrow> buffer_region \<Rightarrow> string \<Rightarrow> lane \<Rightarrow> int \<Rightarrow> bridge_memory" where
  "append_memory_history h b region tid l core =
     (let key = memory_history_key region l core;
          b' = (if map_of (history_of b h) key = None then b\<lparr>bm_candidate_cache := []\<rparr> else b)
      in set_history h (dict_set key (dict_get (history_of b h) key [] @ [(region, tid, l, core)]) (history_of b h)) b')"

definition record_write :: "string \<Rightarrow> int \<Rightarrow> lane \<Rightarrow> bridge_memory \<Rightarrow> buffer_region \<Rightarrow> bridge_memory res" where
  "record_write tid core l b region =
     and_then (for_each (prune_history region core l) b [LastWrites, LastReads]) (\<lambda>b'.
       Inr (append_memory_history LastWrites b' region tid l core))"

definition record_memory_accesses ::
  "bridge_memory \<Rightarrow> string \<Rightarrow> metadata \<Rightarrow> int \<Rightarrow> lane \<Rightarrow> bridge_memory res" where
  "record_memory_accesses b tid md core l =
     (let reads = operand_regions md read_operands; writes = operand_regions md write_operands
      in and_then (for_each (record_write tid core l) b writes) (\<lambda>b'.
           Inr (foldl (\<lambda>b region. append_memory_history LastReads b region tid l core) b' reads)))"

text \<open>
  \<open>reinterpretcast\<close> at the end of \<open>_emit_call\<close>: the destination becomes another name of the source,
  and both caches are dropped.
\<close>

definition activate_alias :: "bridge_memory \<Rightarrow> metadata \<Rightarrow> bridge_memory" where
  "activate_alias b md =
     (case (md_get md ''dst'', md_get md ''src'') of
        (PRegion destination, PRegion source) \<Rightarrow>
          b\<lparr>bm_active_aliases := dict_set (br_scope destination, br_core_id destination, br_buffer destination)
               (br_buffer source) (bm_active_aliases b),
            bm_overlap_cache := [], bm_candidate_cache := []\<rparr>
      | _ \<Rightarrow> b)"

end
