(* ===== verification/Sim_Bridge_Caches.thy ===== *)
theory Sim_Bridge_Caches
  imports Sim_Bridge_History
begin

text \<open>
  The two caches of the bridge are transparent: while they are coherent with the buffers, the alias
  map and the histories, every query returns what it would compute without them and leaves them
  coherent.  The dependency queries are then characterised as sets over the histories.
\<close>

section \<open>Coherent caches\<close>

definition overlap_cache_ok :: "bridge_memory \<Rightarrow> bool" where
  "overlap_cache_ok b \<longleftrightarrow> (\<forall>left right core v. map_of (bm_overlap_cache b) (left, right, core) = Some v \<longrightarrow>
     regions_overlap_uncached b left right core = Inr v)"

definition candidate_cache_ok :: "bridge_memory \<Rightarrow> bool" where
  "candidate_cache_ok b \<longleftrightarrow> (\<forall>h l region core include_cross keys.
     map_of (bm_candidate_cache b) (h, l, br_scope region, region_owner region core, br_buffer region,
       include_cross \<and> br_scope region \<in> set gm_scopes) = Some keys \<longrightarrow>
     filter_res (key_selected b region l core include_cross) (map fst (history_of b h)) = Inr keys)"

definition caches_ok :: "bridge_memory \<Rightarrow> bool" where
  "caches_ok b \<longleftrightarrow> overlap_cache_ok b \<and> candidate_cache_ok b"

text \<open>What a query may change: the caches only.\<close>

definition same_memory :: "bridge_memory \<Rightarrow> bridge_memory \<Rightarrow> bool" where
  "same_memory b b' \<longleftrightarrow> bm_buffers b' = bm_buffers b \<and> bm_last_writes b' = bm_last_writes b \<and>
     bm_last_reads b' = bm_last_reads b \<and> bm_active_aliases b' = bm_active_aliases b"

definition query :: "bridge_memory \<Rightarrow> bridge_memory \<Rightarrow> bool" where
  "query b b' \<longleftrightarrow> caches_ok b' \<and> same_memory b b'"

lemma query_refl: "caches_ok b \<Longrightarrow> query b b"
  by (simp add: query_def same_memory_def)

lemma query_trans: "query b b1 \<Longrightarrow> query b1 b2 \<Longrightarrow> query b b2"
  by (simp add: query_def same_memory_def)

text \<open>The placement of buffers decides the overlap test and the bucket test.\<close>

definition same_placement :: "bridge_memory \<Rightarrow> bridge_memory \<Rightarrow> bool" where
  "same_placement b b' \<longleftrightarrow> bm_buffers b' = bm_buffers b \<and> bm_active_aliases b' = bm_active_aliases b"

lemma same_memory_placement: "same_memory b b' \<Longrightarrow> same_placement b b'"
  by (simp add: same_memory_def same_placement_def)

lemma placement_lookups:
  assumes "same_placement b b'"
  shows "resolve_active_alias b' = resolve_active_alias b" "bridge_buffer b' = bridge_buffer b"
    "resolve_active_alias_name b' = resolve_active_alias_name b"
  using assms by (auto simp: same_placement_def fun_eq_iff bridge_buffer_def resolve_active_alias_def
      resolve_active_alias_name_def)

lemma uncached_placement:
  "same_placement b b' \<Longrightarrow> regions_overlap_uncached b' left right core = regions_overlap_uncached b left right core"
  unfolding regions_overlap_uncached_def by (simp only: placement_lookups)

lemma key_selected_placement:
  "same_placement b b' \<Longrightarrow> key_selected b' region l core cross key = key_selected b region l core cross key"
  unfolding key_selected_def memory_history_key_may_overlap_def by (simp only: placement_lookups)

text \<open>The bucket test looks at the allocation of a region only, which is what the cache key holds.\<close>

lemma key_selected_region:
  assumes "br_scope region' = br_scope region" "region_owner region' core' = region_owner region core"
    "br_buffer region' = br_buffer region"
    "(cross' \<and> br_scope region \<in> set gm_scopes) = (cross \<and> br_scope region \<in> set gm_scopes)"
  shows "key_selected b region' l core' cross' = key_selected b region l core cross"
  using assms by (auto simp: key_selected_def memory_history_key_may_overlap_def resolve_active_alias_def fun_eq_iff Let_def
      split: prod.splits)

lemma history_of_simps [simp]:
  "history_of (b\<lparr>bm_overlap_cache := x\<rparr>) h = history_of b h"
  "history_of (b\<lparr>bm_candidate_cache := y\<rparr>) h = history_of b h"
  by (simp_all add: history_of_def split: history_name.splits)

lemma same_memory_history: "same_memory b b' \<Longrightarrow> history_of b' h = history_of b h"
  by (cases h) (simp_all add: same_memory_def history_of_def)

lemma overlap_cache_ok_cong:
  assumes "same_placement b b'" "bm_overlap_cache b' = bm_overlap_cache b"
  shows "overlap_cache_ok b' = overlap_cache_ok b"
  using assms by (simp add: overlap_cache_ok_def uncached_placement)

lemma candidate_cache_ok_cong:
  assumes "same_memory b b'" "bm_candidate_cache b' = bm_candidate_cache b"
  shows "candidate_cache_ok b' = candidate_cache_ok b"
proof -
  have "key_selected b' region l core cross = key_selected b region l core cross" for region l core cross
    by (rule ext) (rule key_selected_placement [OF same_memory_placement [OF assms(1)]])
  then show ?thesis using assms by (simp add: candidate_cache_ok_def same_memory_history)
qed

section \<open>Queries\<close>

lemma regions_overlap_query:
  assumes ok: "caches_ok b" and run: "regions_overlap b left right core = Inr (answer, b')"
  shows "regions_overlap_uncached b left right core = Inr answer \<and> query b b'"
proof (cases "map_of (bm_overlap_cache b) (left, right, core)")
  case (Some cached)
  then show ?thesis using ok run by (auto simp: regions_overlap_def caches_ok_def overlap_cache_ok_def query_refl)
next
  case None
  define kept where "kept = (if overlap_cache_limit \<le> int (length (bm_overlap_cache b)) then [] else bm_overlap_cache b)"
  from run None have answer: "regions_overlap_uncached b left right core = Inr answer"
    and b': "b' = b\<lparr>bm_overlap_cache := dict_set (left, right, core) answer kept\<rparr>"
    by (auto simp: regions_overlap_def kept_def Let_def)
  have same: "same_memory b b'" by (simp add: b' same_memory_def)
  have "overlap_cache_ok b'"
    using ok answer unfolding overlap_cache_ok_def uncached_placement [OF same_memory_placement [OF same]]
    by (auto simp: b' kept_def caches_ok_def overlap_cache_ok_def split: if_splits)
  moreover have "candidate_cache_ok b'"
    using ok candidate_cache_ok_cong [OF same] by (simp add: b' caches_ok_def)
  ultimately show ?thesis using answer same by (simp add: query_def caches_ok_def)
qed

lemma filter_res_Inr:
  "filter_res test xs = Inr ys \<Longrightarrow> ys = filter (\<lambda>x. test x = Inr True) xs \<and> (\<forall>x \<in> set xs. \<exists>t. test x = Inr t)"
  by (induction xs arbitrary: ys) auto

lemma candidate_keys_query:
  assumes ok: "caches_ok b" and run: "memory_history_candidate_keys b h region l core cross = Inr (keys, b')"
  shows "filter_res (key_selected b region l core cross) (map fst (history_of b h)) = Inr keys \<and> query b b'"
proof -
  let ?key = "(h, l, br_scope region, region_owner region core, br_buffer region, cross \<and> br_scope region \<in> set gm_scopes)"
  show ?thesis
  proof (cases "map_of (bm_candidate_cache b) ?key")
    case (Some cached)
    then have "keys = cached" "b' = b" using run by (auto simp: memory_history_candidate_keys_def Let_def)
    moreover have "filter_res (key_selected b region l core cross) (map fst (history_of b h)) = Inr cached"
      using ok Some unfolding caches_ok_def candidate_cache_ok_def by blast
    ultimately show ?thesis using query_refl [OF ok] by simp
  next
    case None
    from run None have keys: "filter_res (key_selected b region l core cross) (map fst (history_of b h)) = Inr keys"
      and b': "b' = b\<lparr>bm_candidate_cache := dict_set ?key keys (bm_candidate_cache b)\<rparr>"
      by (auto simp: memory_history_candidate_keys_def Let_def)
    have same: "same_memory b b'" by (simp add: b' same_memory_def)
    have sel: "key_selected b' r l' c i = key_selected b r l' c i" for r l' c i
      by (rule ext) (rule key_selected_placement [OF same_memory_placement [OF same]])
    have cache': "map_of (bm_candidate_cache b') = (map_of (bm_candidate_cache b))(?key \<mapsto> keys)" by (simp add: b')
    have "candidate_cache_ok b'"
    proof (unfold candidate_cache_ok_def, intro allI impI)
      fix h' l' region' core' cross' keys'
      assume hit: "map_of (bm_candidate_cache b') (h', l', br_scope region', region_owner region' core', br_buffer region',
        cross' \<and> br_scope region' \<in> set gm_scopes) = Some keys'"
      show "filter_res (key_selected b' region' l' core' cross') (map fst (history_of b' h')) = Inr keys'"
      proof (cases "(h', l', br_scope region', region_owner region' core', br_buffer region',
          cross' \<and> br_scope region' \<in> set gm_scopes) = ?key")
        case True
        then have "(cross' \<and> br_scope region \<in> set gm_scopes) = (cross \<and> br_scope region \<in> set gm_scopes)" by auto
        with True have "key_selected b region' l' core' cross' = key_selected b region l core cross"
          using key_selected_region [of region' region core' core cross' cross b l] by simp
        moreover have "keys' = keys" using hit unfolding True by (simp add: b')
        ultimately show ?thesis unfolding sel same_memory_history [OF same] using True keys by simp
      next
        case False
        then have "map_of (bm_candidate_cache b) (h', l', br_scope region', region_owner region' core', br_buffer region',
            cross' \<and> br_scope region' \<in> set gm_scopes) = Some keys'" using hit cache' by (metis fun_upd_other)
        then have "filter_res (key_selected b region' l' core' cross') (map fst (history_of b h')) = Inr keys'"
          using ok unfolding caches_ok_def candidate_cache_ok_def by blast
        then show ?thesis by (simp add: sel same_memory_history [OF same])
      qed
    qed
    moreover have "overlap_cache_ok b'"
      using ok overlap_cache_ok_cong [OF same_memory_placement [OF same]] by (simp add: b' caches_ok_def)
    ultimately show ?thesis using keys same by (simp add: query_def caches_ok_def)
  qed
qed

text \<open>Entries of a history, wherever they are filed.\<close>

definition filed :: "bridge_memory \<Rightarrow> history_name \<Rightarrow> history_key \<Rightarrow> history_entry \<Rightarrow> bool" where
  "filed b h key entry \<longleftrightarrow> (\<exists>entries. map_of (history_of b h) key = Some entries \<and> entry \<in> set entries)"

lemma filed_same: "same_memory b b' \<Longrightarrow> filed b' h key entry = filed b h key entry"
  by (simp add: filed_def same_memory_history)

lemma candidates_query:
  assumes ok: "caches_ok b" and run: "memory_history_candidates b h region l core cross = Inr (entries, b')"
  shows "set entries = {entry. \<exists>key. filed b h key entry \<and> key_selected b region l core cross key = Inr True} \<and> query b b'"
proof -
  from run obtain keys where keys: "memory_history_candidate_keys b h region l core cross = Inr (keys, b')"
    and entries: "entries = concat (map (\<lambda>key. dict_get (history_of b' h) key []) keys)"
    by (auto simp: memory_history_candidates_def)
  note q = candidate_keys_query [OF ok keys]
  have same: "history_of b' h = history_of b h" using q by (simp add: query_def same_memory_history)
  have "keys = filter (\<lambda>key. key_selected b region l core cross key = Inr True) (map fst (history_of b h))"
    using filter_res_Inr q by blast
  then have "set keys = {key \<in> dom (map_of (history_of b h)). key_selected b region l core cross key = Inr True}"
    by (auto simp: dom_map_of_conv_image_fst)
  then show ?thesis using q unfolding entries same
    by (fastforce simp: filed_def dict_get_def split: option.splits)
qed

text \<open>The entries of one history a task touching \<open>region\<close> conflicts with.\<close>

definition conflicts ::
  "(buffer_region \<Rightarrow> buffer_region \<Rightarrow> bool) \<Rightarrow> bool \<Rightarrow> bridge_memory \<Rightarrow> history_name \<Rightarrow> buffer_region \<Rightarrow> int \<Rightarrow> lane \<Rightarrow> string set" where
  "conflicts wanted keep b h region core l =
     {tid. \<exists>key previous previous_core. filed b h key (previous, tid, l, previous_core) \<and>
        key_selected b region l core keep key = Inr True \<and> wanted region previous \<and>
        regions_overlap_uncached b region previous core = Inr True \<and>
        (keep \<or> same_on_chip_owner region core previous_core)}"

lemma conflicts_same: "same_memory b b' \<Longrightarrow> conflicts wanted keep b' h region core l = conflicts wanted keep b h region core l"
  unfolding conflicts_def
  by (simp only: filed_same [of b b'] key_selected_placement [of b b'] uncached_placement [of b b'] same_memory_placement)

text \<open>The tasks among some entries that the comprehension collects.\<close>

definition hits ::
  "(buffer_region \<Rightarrow> buffer_region \<Rightarrow> bool) \<Rightarrow> bool \<Rightarrow> bridge_memory \<Rightarrow> buffer_region \<Rightarrow> int \<Rightarrow> lane \<Rightarrow> history_entry set \<Rightarrow> string set" where
  "hits wanted keep b region core l entries =
     {tid. \<exists>previous previous_core. (previous, tid, l, previous_core) \<in> entries \<and>
        wanted region previous \<and> regions_overlap_uncached b region previous core = Inr True \<and>
        (keep \<or> same_on_chip_owner region core previous_core)}"

lemma hits_Un: "hits wanted keep b region core l (A \<union> B) = hits wanted keep b region core l A \<union> hits wanted keep b region core l B"
  unfolding hits_def by blast

lemma hits_conflicts:
  "hits wanted keep b region core l {entry. \<exists>key. filed b h key entry \<and> key_selected b region l core keep key = Inr True} =
     conflicts wanted keep b h region core l"
  unfolding hits_def conflicts_def mem_Collect_eq by blast

lemma hits_same: "same_memory b b' \<Longrightarrow> hits wanted keep b' region core l entries = hits wanted keep b region core l entries"
  unfolding hits_def by (simp only: uncached_placement [of b b'] same_memory_placement)

lemma collect_dependency_query:
  assumes ok: "caches_ok b"
    and run: "for_each (collect_dependency wanted keep region core l) (found, b) entries = Inr (found', b')"
  shows "set found' = set found \<union> hits wanted keep b region core l (set entries) \<and> query b b'"
  using assms
proof (induction entries arbitrary: found b)
  case Nil
  then show ?case by (simp add: query_refl hits_def)
next
  case (Cons entry entries)
  obtain previous tid l' c where entry: "entry = (previous, tid, l', c)" by (cases entry)
  from Cons.prems(2) obtain found1 b1 where
    step: "collect_dependency wanted keep region core l (found, b) entry = Inr (found1, b1)"
    and rest: "for_each (collect_dependency wanted keep region core l) (found1, b1) entries = Inr (found', b')"
    by (auto split: sum.splits)
  have one: "query b b1 \<and> set found1 = set found \<union> hits wanted keep b region core l {entry}"
  proof (cases "wanted region previous \<and> l' = l")
    case True
    then obtain answer where ov: "regions_overlap b region previous core = Inr (answer, b1)"
      and f1: "found1 = (if answer \<and> (keep \<or> same_on_chip_owner region core c) then tid # found else found)"
      using step by (auto simp: collect_dependency_def entry)
    show ?thesis using regions_overlap_query [OF Cons.prems(1) ov] True by (auto simp: f1 hits_def entry)
  next
    case False
    then show ?thesis using step Cons.prems(1) by (auto simp: collect_dependency_def entry query_refl hits_def)
  qed
  then have same: "same_memory b b1" and ok1: "caches_ok b1" by (simp_all add: query_def)
  have "set (entry # entries) = {entry} \<union> set entries" by simp
  with Cons.IH [OF ok1 rest] one show ?case
    unfolding hits_same [OF same] by (simp only: hits_Un Un_assoc) (blast intro: query_trans)
qed

lemma read_dependencies_query:
  assumes ok: "caches_ok b" and run: "read_dependencies wanted keep core l (found, b) region = Inr (found', b')"
  shows "set found' = set found \<union> conflicts wanted keep b LastWrites region core l \<and> query b b'"
proof -
  from run obtain entries b1 where entries: "memory_history_candidates b LastWrites region l core keep = Inr (entries, b1)"
    and loop: "for_each (collect_dependency wanted keep region core l) (found, b1) entries = Inr (found', b')"
    by (auto simp: read_dependencies_def)
  note c = candidates_query [OF ok entries]
  then have same: "same_memory b b1" and ok1: "caches_ok b1" by (simp_all add: query_def)
  have "hits wanted keep b region core l (set entries) = conflicts wanted keep b LastWrites region core l"
    unfolding conjunct1 [OF c] by (rule hits_conflicts)
  then show ?thesis using collect_dependency_query [OF ok1 loop] query_trans [OF conjunct2 [OF c]]
    unfolding hits_same [OF same] by simp
qed

lemma write_dependencies_query:
  assumes ok: "caches_ok b" and run: "write_dependencies keep core l (found, b) region = Inr (found', b')"
  shows "set found' = set found \<union> conflicts (\<lambda>_ _. True) keep b LastWrites region core l \<union>
      conflicts (\<lambda>_ _. True) keep b LastReads region core l \<and> query b b'"
proof -
  from run obtain ws b1 rs b2 where ws: "memory_history_candidates b LastWrites region l core keep = Inr (ws, b1)"
    and rs: "memory_history_candidates b1 LastReads region l core keep = Inr (rs, b2)"
    and loop: "for_each (collect_dependency (\<lambda>_ _. True) keep region core l) (found, b2) (ws @ rs) = Inr (found', b')"
    by (auto simp: write_dependencies_def)
  note w = candidates_query [OF ok ws]
  then have same: "same_memory b b1" and ok1: "caches_ok b1" by (simp_all add: query_def)
  note r = candidates_query [OF ok1 rs]
  then have q2: "query b b2" using w query_trans by blast
  then have same2: "same_memory b b2" and ok2: "caches_ok b2" by (simp_all add: query_def)
  have "set rs = {entry. \<exists>key. filed b LastReads key entry \<and> key_selected b region l core keep key = Inr True}"
    using r by (simp add: filed_same [OF same] key_selected_placement [OF same_memory_placement [OF same]])
  then have "hits (\<lambda>_ _. True) keep b region core l (set rs) = conflicts (\<lambda>_ _. True) keep b LastReads region core l"
    by (simp only: hits_conflicts)
  moreover have "hits (\<lambda>_ _. True) keep b region core l (set ws) = conflicts (\<lambda>_ _. True) keep b LastWrites region core l"
    unfolding conjunct1 [OF w] by (rule hits_conflicts)
  ultimately show ?thesis using collect_dependency_query [OF ok2 loop] query_trans [OF q2]
    unfolding hits_same [OF same2] set_append hits_Un by (simp add: Un_assoc)
qed

text \<open>A loop of queries collects the union of what each finds in the first state.\<close>

lemma for_each_query:
  assumes body: "\<And>found b x found' b'. caches_ok b \<Longrightarrow> body (found, b) x = Inr (found', b') \<Longrightarrow>
      set found' = set found \<union> F b x \<and> query b b'"
    and F: "\<And>b b' x. same_memory b b' \<Longrightarrow> F b' x = F b x"
    and ok: "caches_ok b" and run: "for_each body (found, b) xs = Inr (found', b')"
  shows "set found' = set found \<union> (\<Union>x \<in> set xs. F b x) \<and> query b b'"
  using ok run
proof (induction xs arbitrary: found b)
  case Nil
  then show ?case by (simp add: query_refl)
next
  case (Cons x xs)
  from Cons.prems(2) obtain found1 b1 where step: "body (found, b) x = Inr (found1, b1)"
    and rest: "for_each body (found1, b1) xs = Inr (found', b')" by (auto split: sum.splits)
  have one: "set found1 = set found \<union> F b x" "query b b1" using body [OF Cons.prems(1) step] by auto
  then have "caches_ok b1" and same: "same_memory b b1" by (simp_all add: query_def)
  from Cons.IH [OF this(1) rest] have "set found' = set found1 \<union> (\<Union>x \<in> set xs. F b x)" "query b1 b'"
    by (simp_all add: F [OF same])
  then show ?case using one query_trans by auto
qed

text \<open>All conflicts of a task with the histories.\<close>

definition task_conflicts :: "bridge_memory \<Rightarrow> metadata \<Rightarrow> int \<Rightarrow> lane \<Rightarrow> string \<Rightarrow> (buffer_region \<Rightarrow> buffer_region \<Rightarrow> bool) \<Rightarrow> string set" where
  "task_conflicts b md core l op wanted =
     (\<Union>region \<in> set (operand_regions md read_operands). conflicts wanted (keep_cross_core op) b LastWrites region core l) \<union>
     (\<Union>region \<in> set (operand_regions md write_operands).
        conflicts wanted (keep_cross_core op) b LastWrites region core l \<union>
        conflicts wanted (keep_cross_core op) b LastReads region core l)"

lemma sorted_ids_set [simp]: "set (sorted_ids ids) = set ids" "sorted (sorted_ids ids)" "distinct (sorted_ids ids)"
  by (simp_all add: sorted_ids_def)

lemma memory_dependencies_query:
  assumes ok: "caches_ok b" and run: "memory_dependencies b md core l op = Inr (deps, b')"
  shows "set deps = task_conflicts b md core l op (\<lambda>_ _. True) \<and> sorted deps \<and> distinct deps \<and> query b b'"
proof -
  let ?keep = "keep_cross_core op"
  from run obtain f1 b1 f2 where
    r: "for_each (read_dependencies (\<lambda>_ _. True) ?keep core l) ([], b) (operand_regions md read_operands) = Inr (f1, b1)"
    and w: "for_each (write_dependencies ?keep core l) (f1, b1) (operand_regions md write_operands) = Inr (f2, b')"
    and deps: "deps = sorted_ids f2"
    by (auto simp: memory_dependencies_def Let_def)
  have R: "set f1 = (\<Union>region \<in> set (operand_regions md read_operands). conflicts (\<lambda>_ _. True) ?keep b LastWrites region core l)"
    "query b b1"
    using for_each_query [OF read_dependencies_query conflicts_same ok r] by auto
  then have ok1: "caches_ok b1" and same: "same_memory b b1" by (simp_all add: query_def)
  have "set f2 = set f1 \<union> (\<Union>region \<in> set (operand_regions md write_operands).
      conflicts (\<lambda>_ _. True) ?keep b1 LastWrites region core l \<union> conflicts (\<lambda>_ _. True) ?keep b1 LastReads region core l) \<and> query b1 b'"
    by (rule for_each_query [OF _ _ ok1 w]) (simp_all add: write_dependencies_query Un_assoc conflicts_same)
  then show ?thesis using R query_trans by (auto simp: deps task_conflicts_def conflicts_same [OF same])
qed

lemma alias_write_query:
  assumes ok: "caches_ok b" and run: "alias_write_dependencies keep core l (found, b) region = Inr (found', b')"
  shows "set found' = set found \<union> (conflicts alias_of keep b LastWrites region core l \<union>
      conflicts alias_of keep b LastReads region core l) \<and> query b b'"
proof -
  let ?body = "\<lambda>(found, b) h. and_then (memory_history_candidates b h region l core keep) (\<lambda>(entries, b').
          for_each (collect_dependency alias_of keep region core l) (found, b') entries)"
  have body: "set found' = set found \<union> conflicts alias_of keep b h region core l \<and> query b b'"
    if ok: "caches_ok b" and run: "?body (found, b) h = Inr (found', b')" for found b h found' b'
  proof -
    from run obtain entries b1 where entries: "memory_history_candidates b h region l core keep = Inr (entries, b1)"
      and loop: "for_each (collect_dependency alias_of keep region core l) (found, b1) entries = Inr (found', b')" by auto
    note c = candidates_query [OF ok entries]
    then have same: "same_memory b b1" and ok1: "caches_ok b1" by (simp_all add: query_def)
    have "hits alias_of keep b region core l (set entries) = conflicts alias_of keep b h region core l"
      unfolding conjunct1 [OF c] by (rule hits_conflicts)
    then show ?thesis using collect_dependency_query [OF ok1 loop] query_trans [OF conjunct2 [OF c]]
      unfolding hits_same [OF same] by simp
  qed
  have "set found' = set found \<union> (\<Union>h \<in> set [LastWrites, LastReads]. conflicts alias_of keep b h region core l) \<and> query b b'"
  proof (rule for_each_query [of ?body])
    show "for_each ?body (found, b) [LastWrites, LastReads] = Inr (found', b')"
      using run by (simp only: alias_write_dependencies_def)
  qed (use body conflicts_same ok in blast)+
  then show ?thesis by simp
qed

lemma alias_memory_dependencies_query:
  assumes ok: "caches_ok b" and run: "alias_memory_dependencies b md core l op = Inr (deps, b')"
  shows "set deps = task_conflicts b md core l op alias_of \<and> sorted deps \<and> distinct deps \<and> query b b'"
proof -
  let ?keep = "keep_cross_core op"
  from run obtain f1 b1 f2 where
    r: "for_each (read_dependencies alias_of ?keep core l) ([], b) (operand_regions md read_operands) = Inr (f1, b1)"
    and w: "for_each (alias_write_dependencies ?keep core l) (f1, b1) (operand_regions md write_operands) = Inr (f2, b')"
    and deps: "deps = sorted_ids f2"
    by (auto simp: alias_memory_dependencies_def Let_def)
  have R: "set f1 = (\<Union>region \<in> set (operand_regions md read_operands). conflicts alias_of ?keep b LastWrites region core l)"
    "query b b1"
    using for_each_query [OF read_dependencies_query conflicts_same ok r] by auto
  then have ok1: "caches_ok b1" and same: "same_memory b b1" by (simp_all add: query_def)
  have "set f2 = set f1 \<union> (\<Union>region \<in> set (operand_regions md write_operands).
      conflicts alias_of ?keep b1 LastWrites region core l \<union> conflicts alias_of ?keep b1 LastReads region core l) \<and> query b1 b'"
    by (rule for_each_query [OF _ _ ok1 w]) (simp_all add: alias_write_query conflicts_same)
  then show ?thesis using R query_trans by (auto simp: deps task_conflicts_def conflicts_same [OF same])
qed

end
