(* ===== verification/Sim_Bridge_Overlap.thy ===== *)
theory Sim_Bridge_Overlap
  imports Sim_Bridge_Regions
begin

text \<open>
  What the bridge's overlap test decides.  \<open>region_bytes\<close> and \<open>byte_location\<close> say which physical
  bytes a region touches; the lemmas relate the bounding interval, the merged row intervals and the
  sweep to that set.
\<close>

section \<open>Reference: the bytes of a region\<close>

definition region_bytes :: "bindings \<Rightarrow> buffer_region \<Rightarrow> int set res" where
  "region_bytes bindings region =
     and_then (evaluate_runtime_int (br_byte_offset region) bindings) (\<lambda>start.
     and_then (map_res (\<lambda>e. evaluate_runtime_int e bindings) (br_shape region)) (\<lambda>shape.
     and_then (dtype_size_bytes (br_dtype region)) (\<lambda>width.
     and_then (case br_strides_bytes region of
                 Some (s # ss) \<Rightarrow> map_res (\<lambda>e. evaluate_runtime_int e bindings) (s # ss)
               | _ \<Rightarrow> Inr (contiguous_strides_bytes shape width)) (\<lambda>strides.
       Inr (\<Union>d \<in> offsets (zip shape strides). {start + d..<start + d + width})))))"

text \<open>
  Where byte \<open>x\<close> of a region lives: the scope, the owning core of an on-chip scope, and either the
  planned address or the offset in the (alias-resolved) buffer.
\<close>

definition byte_location ::
  "bridge_memory \<Rightarrow> int \<Rightarrow> buffer_region \<Rightarrow> int \<Rightarrow> memory_scope \<times> int option \<times> string option \<times> int" where
  "byte_location b core region x =
     (let owner = region_owner region core; name = resolve_active_alias b region owner in
      (br_scope region, if br_scope region \<in> set gm_scopes then None else Some owner,
       case Option.bind (map_of (bm_buffers b) name) bs_address of
         None \<Rightarrow> (Some name, x) | Some address \<Rightarrow> (None, address + x)))"

text \<open>A region as \<open>BufferRegion\<close> constructs it, with plain integers and at least one dimension.\<close>

definition region_wf :: "buffer_region \<Rightarrow> bool" where
  "region_wf region \<longleftrightarrow>
     br_shape region \<noteq> [] \<and> (\<exists>w. dtype_size_bytes (br_dtype region) = Inr w) \<and>
     (\<forall>v \<in> set (region_values region). \<not> negative_extent v \<and> v \<noteq> RNonInt \<and> (\<forall>t. v \<noteq> RBool t)) \<and>
     (case br_strides_bytes region of None \<Rightarrow> True | Some strides \<Rightarrow> length strides = length (br_shape region))"

section \<open>Offsets and rows\<close>

lemma offsets_snoc: "offsets (dims @ [p]) = offsets (p # dims)"
proof (induction dims)
  case (Cons q dims)
  have "offsets ((q # dims) @ [p]) = offsets (q # p # dims)" using Cons by (simp only: append_Cons) (rule offsets_Cons_cong)
  then show ?case by (simp only: offsets_swap)
qed simp

lemma offsets_rev: "offsets (rev dims) = offsets dims"
proof (induction dims)
  case (Cons p dims)
  have "offsets (rev (p # dims)) = offsets (p # rev dims)" by (simp only: rev.simps offsets_snoc)
  then show ?case using offsets_Cons_cong [OF Cons] by simp
qed simp

lemma offsets_zero_extent: "(0, s) \<in> set dims \<Longrightarrow> offsets dims = {}"
  by (induction dims) auto

lemma offsets_within:
  assumes "\<forall>(extent, stride) \<in> set dims. 0 \<le> stride" "d \<in> offsets dims"
  shows "0 \<le> d \<and> d \<le> last_offset dims"
  using assms
proof (induction dims arbitrary: d)
  case (Cons p dims)
  obtain e s where p: "p = (e, s)" by (cases p)
  from Cons.prems(2) obtain i d' where i: "0 \<le> i" "i < e" "d' \<in> offsets dims" "d = i * s + d'" by (auto simp: p)
  with Cons have "0 \<le> d'" "d' \<le> last_offset dims" "0 \<le> s" by (auto simp: p)
  moreover from i \<open>0 \<le> s\<close> have "0 \<le> i * s" "i * s \<le> (e - 1) * s" by (auto intro: mult_right_mono)
  ultimately show ?case using i by (simp add: p last_offset_def)
qed (simp add: last_offset_def)

lemma int_div_less: "0 < e \<Longrightarrow> n < e * p \<Longrightarrow> n div e < (p :: int)"
proof -
  assume e: "0 < e" and n: "n < e * p"
  have "n div e * e \<le> n" using e div_mult_mod_eq [of n e] pos_mod_sign [of e n] by linarith
  then have "n div e * e < p * e" using n by (simp add: mult.commute)
  then show ?thesis using e by simp
qed

lemma linear_base_offsets:
  assumes "\<forall>(extent, stride) \<in> set dims. 0 < extent"
  shows "(\<lambda>n. linear_base n base dims) ` {0..<prod_list (map fst dims)} = (\<lambda>d. base + d) ` offsets dims"
  using assms
proof (induction dims arbitrary: base)
  case Nil
  have "{0..<1 :: int} = {0}" by auto
  then show ?case by simp
next
  case (Cons p dims)
  obtain e s where p: "p = (e, s)" by (cases p)
  let ?P = "prod_list (map fst dims)"
  have e: "0 < e" and IH: "(\<lambda>n. linear_base n b dims) ` {0..<?P} = (\<lambda>d. b + d) ` offsets dims" for b
    using Cons by (auto simp: p)
  show ?case
  proof (intro equalityI subsetI)
    fix x assume "x \<in> (\<lambda>n. linear_base n base (p # dims)) ` {0..<prod_list (map fst (p # dims))}"
    then obtain n where n: "0 \<le> n" "n < e * ?P" "x = linear_base (n div e) (base + n mod e * s) dims"
      by (auto simp: p)
    from n e have "n div e \<in> {0..<?P}"
      by (simp add: pos_imp_zdiv_nonneg_iff int_div_less)
    then have "x \<in> (\<lambda>d. base + n mod e * s + d) ` offsets dims" using n(3) IH by blast
    then obtain d where "d \<in> offsets dims" "x = base + (n mod e * s + d)" by (auto simp: add.assoc)
    moreover have "n mod e \<in> {0..<e}" using e by simp
    ultimately show "x \<in> (\<lambda>d. base + d) ` offsets (p # dims)" unfolding p offsets.simps by blast
  next
    fix x assume "x \<in> (\<lambda>d. base + d) ` offsets (p # dims)"
    then obtain i d where i: "0 \<le> i" "i < e" "d \<in> offsets dims" "x = base + i * s + d"
      by (auto simp: p add.assoc)
    then have "x \<in> (\<lambda>n. linear_base n (base + i * s) dims) ` {0..<?P}" using IH by blast
    then obtain m where m: "0 \<le> m" "m < ?P" "x = linear_base m (base + i * s) dims" by auto
    have "m * e + i < e * ?P"
    proof -
      have "m * e + i < (m + 1) * e" using i by (simp add: algebra_simps)
      also have "\<dots> \<le> ?P * e" using m e by (intro mult_right_mono) auto
      finally show ?thesis by (simp add: mult.commute)
    qed
    moreover have "0 \<le> m * e + i" using m i e by simp
    moreover have "x = linear_base (m * e + i) base (p # dims)" using m i e by (simp add: p)
    ultimately show "x \<in> (\<lambda>n. linear_base n base (p # dims)) ` {0..<prod_list (map fst (p # dims))}"
      by (intro image_eqI [of _ _ "m * e + i"]) (simp_all add: p)
  qed
qed

text \<open>One row of a view lies in its span, and fills it when its elements are adjacent.\<close>

lemma row_span:
  fixes e s w :: int
  assumes "0 \<le> s"
  shows "(\<Union>i \<in> {0..<e}. {a + i * s..<a + i * s + w}) \<subseteq> {a..<a + ((e - 1) * s + w)}"
proof
  fix x assume "x \<in> (\<Union>i \<in> {0..<e}. {a + i * s..<a + i * s + w})"
  then obtain i where i: "0 \<le> i" "i < e" "a + i * s \<le> x" "x < a + i * s + w" by auto
  have "0 \<le> i * s" "i * s \<le> (e - 1) * s" using i assms by (auto intro: mult_right_mono)
  with i show "x \<in> {a..<a + ((e - 1) * s + w)}" by simp
qed

lemma row_dense:
  fixes e w :: int
  assumes "0 < e" "0 < w"
  shows "(\<Union>i \<in> {0..<e}. {a + i * w..<a + i * w + w}) = {a..<a + ((e - 1) * w + w)}"
proof (intro equalityI row_span subsetI)
  fix x assume x: "x \<in> {a..<a + ((e - 1) * w + w)}"
  let ?i = "(x - a) div w"
  have "0 \<le> ?i" using x assms by (simp add: pos_imp_zdiv_nonneg_iff)
  moreover have "?i < e" using x assms by (intro int_div_less) (simp_all add: algebra_simps)
  moreover have "?i * w \<le> x - a" and "x - a < ?i * w + w"
    using assms div_mult_mod_eq [of "x - a" w] pos_mod_bound [of w "x - a"] pos_mod_sign [of w "x - a"] by linarith+
  ultimately show "x \<in> (\<Union>i \<in> {0..<e}. {a + i * w..<a + i * w + w})" by (intro UN_I [of ?i]) auto
qed (use assms in simp)

section \<open>Concrete regions\<close>

text \<open>The bytes of a region without symbolic values, of element width \<open>w\<close>.\<close>

definition concrete_bytes :: "buffer_region \<Rightarrow> int \<Rightarrow> int set" where
  "concrete_bytes region w =
     (\<Union>d \<in> offsets (zip (region_shape region) (region_strides region w)).
        {region_offset region + d..<region_offset region + d + w})"

lemma evaluate_concrete:
  "\<not> is_symbolic v \<Longrightarrow> v \<noteq> RNonInt \<Longrightarrow> \<forall>t. v \<noteq> RBool t \<Longrightarrow> evaluate_runtime_int v bindings = Inr (concrete_int v)"
  by (cases v) auto

lemma map_res_concrete:
  "\<forall>v \<in> set vs. \<not> is_symbolic v \<and> v \<noteq> RNonInt \<and> (\<forall>t. v \<noteq> RBool t) \<Longrightarrow>
     map_res (\<lambda>e. evaluate_runtime_int e bindings) vs = Inr (map concrete_int vs)"
  by (rule map_res_all_Inr) (auto simp: evaluate_concrete)

lemma region_bytes_concrete:
  assumes wf: "region_wf region" and concrete: "\<not> region_is_symbolic region"
    and w: "dtype_size_bytes (br_dtype region) = Inr w"
  shows "region_bytes bindings region = Inr (concrete_bytes region w)"
proof -
  have ok: "\<not> is_symbolic v \<and> v \<noteq> RNonInt \<and> (\<forall>t. v \<noteq> RBool t)" if "v \<in> set (region_values region)" for v
    using that wf concrete by (auto simp: region_wf_def region_is_symbolic_def)
  have start: "evaluate_runtime_int (br_byte_offset region) bindings = Inr (region_offset region)"
    using ok [of "br_byte_offset region"] by (simp add: region_values_def region_offset_def evaluate_concrete)
  have shape: "map_res (\<lambda>e. evaluate_runtime_int e bindings) (br_shape region) = Inr (region_shape region)"
    unfolding region_shape_def by (rule map_res_concrete) (auto simp: region_values_def intro!: ok)
  have strides: "(case br_strides_bytes region of
        Some (s # ss) \<Rightarrow> map_res (\<lambda>e. evaluate_runtime_int e bindings) (s # ss)
      | _ \<Rightarrow> Inr (contiguous_strides_bytes (region_shape region) w)) = Inr (region_strides region w)"
  proof (cases "br_strides_bytes region")
    case (Some strides)
    then have "\<forall>v \<in> set strides. v \<in> set (region_values region)" by (simp add: region_values_def)
    then have "map_res (\<lambda>e. evaluate_runtime_int e bindings) strides = Inr (map concrete_int strides)"
      by (intro map_res_concrete) (auto intro!: ok)
    then show ?thesis using Some by (cases strides) (simp_all add: region_strides_def)
  qed (simp add: region_strides_def)
  show ?thesis
    unfolding region_bytes_def start shape w and_then_simps strides concrete_bytes_def by (rule refl)
qed

lemma contiguous_strides_nonneg:
  "0 \<le> w \<Longrightarrow> \<forall>n \<in> set shape. 0 \<le> n \<Longrightarrow> \<forall>s \<in> set (contiguous_strides_bytes shape w). 0 \<le> s"
proof -
  assume w: "0 \<le> w" and shape: "\<forall>n \<in> set shape. 0 \<le> n"
  have "0 \<le> w \<Longrightarrow> \<forall>n \<in> set ns. 0 \<le> n \<Longrightarrow> \<forall>s \<in> set (strides_from w ns). 0 \<le> s" for ns
    by (induction w ns rule: strides_from.induct) auto
  from this [of "rev shape"] w shape show ?thesis by (simp add: contiguous_strides_bytes_def)
qed

lemma contiguous_strides_length [simp]: "length (contiguous_strides_bytes shape w) = length shape"
proof -
  have "length (strides_from w ns) = length ns" for ns by (induction w ns rule: strides_from.induct) auto
  then show ?thesis by (simp add: contiguous_strides_bytes_def)
qed

lemma concrete_int_nonneg: "\<not> negative_extent v \<Longrightarrow> 0 \<le> concrete_int v"
  by (cases v) (auto simp: py_bool_def)

lemma region_shape_nonneg: "region_wf region \<Longrightarrow> n \<in> set (region_shape region) \<Longrightarrow> 0 \<le> n"
proof -
  assume "region_wf region" "n \<in> set (region_shape region)"
  then obtain v where "n = concrete_int v" "\<not> negative_extent v"
    by (auto simp: region_wf_def region_shape_def region_values_def)
  then show ?thesis by (simp add: concrete_int_nonneg)
qed

lemma region_strides_ok:
  assumes wf: "region_wf region" and w: "0 \<le> w"
  shows "length (region_strides region w) = length (region_shape region) \<and>
    (\<forall>s \<in> set (region_strides region w). 0 \<le> s)"
proof (cases "br_strides_bytes region")
  case (Some strides)
  then have len: "length strides = length (br_shape region)" "strides \<noteq> []"
    and nn: "\<forall>v \<in> set strides. \<not> negative_extent v"
    using wf by (auto simp: region_wf_def region_values_def)
  have "\<forall>v \<in> set strides. 0 \<le> concrete_int v" using nn by (simp add: concrete_int_nonneg)
  with len Some show ?thesis by (auto simp: region_strides_def region_shape_def split: list.splits)
next
  case None
  then show ?thesis
    using contiguous_strides_nonneg [of w "region_shape region"] region_shape_nonneg [OF wf] w
    by (simp add: region_strides_def)
qed

lemma concrete_bytes_empty: "length (region_strides region w) = length (region_shape region) \<Longrightarrow>
    0 \<in> set (region_shape region) \<Longrightarrow> concrete_bytes region w = {}"
proof -
  assume len: "length (region_strides region w) = length (region_shape region)" and z: "0 \<in> set (region_shape region)"
  then obtain i where "i < length (region_shape region)" "region_shape region ! i = 0" by (auto simp: in_set_conv_nth)
  then have "(0, region_strides region w ! i) \<in> set (zip (region_shape region) (region_strides region w))"
    using len by (auto simp: set_zip intro!: exI [of _ i])
  then show ?thesis by (simp add: concrete_bytes_def offsets_zero_extent)
qed

text \<open>Every byte of a region lies in its bounding interval.\<close>

lemma region_bounds_sound:
  assumes wf: "region_wf region" and concrete: "\<not> region_is_symbolic region"
    and w: "dtype_size_bytes (br_dtype region) = Inr w"
  shows "\<exists>lo hi. region_bounds region = Inr (Some (lo, hi)) \<and> concrete_bytes region w \<subseteq> {lo..<hi} \<and>
    (0 \<notin> set (region_shape region) \<longrightarrow> 0 < w \<longrightarrow> lo < hi)"
proof (cases "0 \<in> set (region_shape region)")
  case True
  have "concrete_bytes region w = {}"
    using concrete_bytes_empty region_strides_ok [OF wf dtype_size_nonneg [OF w]] True by blast
  then show ?thesis using True concrete by (simp add: region_bounds_def)
next
  case False
  let ?dims = "zip (region_shape region) (region_strides region w)"
  have len: "length (region_strides region w) = length (region_shape region)"
    and nn: "\<forall>s \<in> set (region_strides region w). 0 \<le> s"
    using region_strides_ok [OF wf dtype_size_nonneg [OF w]] by auto
  then have "\<forall>(extent, stride) \<in> set ?dims. 0 \<le> stride" by (auto dest: set_zip_rightD)
  then have within: "d \<in> offsets ?dims \<Longrightarrow> 0 \<le> d \<and> d \<le> last_offset ?dims" for d by (rule offsets_within)
  have "concrete_bytes region w \<subseteq> {region_offset region..<region_offset region + last_offset ?dims + w}"
  proof
    fix x assume "x \<in> concrete_bytes region w"
    then obtain d where d: "d \<in> offsets ?dims" "region_offset region + d \<le> x" "x < region_offset region + d + w"
      by (auto simp: concrete_bytes_def)
    then show "x \<in> {region_offset region..<region_offset region + last_offset ?dims + w}"
      using within [OF d(1)] by simp
  qed
  moreover have "0 \<le> (extent - 1) * stride" if "(extent, stride) \<in> set ?dims" for extent stride
    using set_zip_leftD [OF that] set_zip_rightD [OF that] nn False region_shape_nonneg [OF wf]
    by (intro mult_nonneg_nonneg) (metis diff_ge_0_iff_ge le_less zless_imp_add1_zle add_0, blast)
  then have "0 \<le> last_offset ?dims" by (auto simp: last_offset_def intro!: sum_list_nonneg)
  ultimately show ?thesis using False concrete w by (simp add: region_bounds_def last_offset_dot [OF len] add_nonneg_pos)
qed

section \<open>Row intervals and the sweep\<close>

text \<open>The row starts of a region, and the bytes of the rows.\<close>

lemma concrete_bytes_rows:
  assumes len: "length (region_strides region w) = length (region_shape region)" and ne: "region_shape region \<noteq> []"
  shows "concrete_bytes region w =
    (\<Union>d \<in> offsets (zip (butlast (region_shape region)) (butlast (region_strides region w))).
     \<Union>i \<in> {0..<last (region_shape region)}.
       {region_offset region + d + i * last (region_strides region w)..<
        region_offset region + d + i * last (region_strides region w) + w})"
proof -
  obtain es e ss s where dims: "region_shape region = es @ [e]" "region_strides region w = ss @ [s]" "length ss = length es"
    using len ne by (metis append_butlast_last_id length_0_conv length_butlast)
  have "offsets (zip (es @ [e]) (ss @ [s])) = offsets ((e, s) # zip es ss)"
    using dims(3) by (simp add: offsets_snoc del: offsets.simps)
  then show ?thesis unfolding concrete_bytes_def dims by (auto simp: algebra_simps)
qed

lemma prod_list_fst_rev_zip:
  fixes es :: "int list"
  assumes "length ss = length es"
  shows "prod_list (map fst (rev (zip es ss))) = prod_list es"
  using assms by (simp add: rev_map [symmetric] prod_list_rev)

lemma region_byte_intervals_cover:
  assumes wf: "region_wf region" and concrete: "\<not> region_is_symbolic region"
    and w: "dtype_size_bytes (br_dtype region) = Inr w"
    and ivs: "region_byte_intervals region = Inr (Some ivs)"
  shows "proper ivs \<and> separated ivs \<and> concrete_bytes region w \<subseteq> cover ivs \<and>
    (0 < w \<longrightarrow> last (region_strides region w) = w \<longrightarrow> cover ivs = concrete_bytes region w)"
proof (cases "0 \<in> set (region_shape region)")
  case True
  then have "concrete_bytes region w = {}"
    using concrete_bytes_empty region_strides_ok [OF wf dtype_size_nonneg [OF w]] by blast
  then show ?thesis using True concrete ivs by (simp add: region_byte_intervals_def)
next
  case False
  let ?shape = "region_shape region" and ?strides = "region_strides region w" and ?o = "region_offset region"
  let ?es = "butlast ?shape" and ?ss = "butlast ?strides" and ?e = "last ?shape" and ?s = "last ?strides"
  let ?span = "(?e - 1) * ?s + w" and ?dims = "rev (zip ?es ?ss)"
  have len: "length ?strides = length ?shape" and nn: "\<forall>s \<in> set ?strides. 0 \<le> s"
    using region_strides_ok [OF wf dtype_size_nonneg [OF w]] by auto
  have ne: "?shape \<noteq> []" using wf by (simp add: region_wf_def region_shape_def)
  have pos: "0 < n" if "n \<in> set ?shape" for n
    using region_shape_nonneg [OF wf that] False that by (metis le_less)
  have e: "0 < ?e" and s: "0 \<le> ?s" using pos nn ne len by (auto simp flip: length_greater_0_conv)
  define rows where "rows = map (\<lambda>base. (base, base + ?span)) (map (\<lambda>linear. linear_base linear ?o ?dims) [0..prod_list ?es - 1])"
  have merged: "ivs = merge_intervals rows"
    using ivs False concrete w by (auto simp: region_byte_intervals_def rows_def Let_def split: if_splits)
  have "\<forall>(extent, stride) \<in> set ?dims. 0 < extent"
    using pos by (auto dest!: set_zip_leftD in_set_butlastD)
  then have starts: "(\<lambda>n. linear_base n ?o ?dims) ` {0..<prod_list ?es} = (\<lambda>d. ?o + d) ` offsets (zip ?es ?ss)"
    using linear_base_offsets [of ?dims ?o] len by (simp add: offsets_rev prod_list_fst_rev_zip)
  have up: "set [0..n - 1] = {0..<n}" for n :: int by auto
  have "set rows = (\<lambda>base. (base, base + ?span)) ` ((\<lambda>n. linear_base n ?o ?dims) ` {0..<prod_list ?es})"
    by (simp only: rows_def set_map up)
  then have set_rows: "set rows = (\<lambda>d. (?o + d, ?o + d + ?span)) ` offsets (zip ?es ?ss)"
    by (simp only: starts image_image)
  have "0 \<le> ?span" using e s dtype_size_nonneg [OF w] by simp
  then have "proper rows" by (auto simp: proper_def set_rows)
  then have main: "proper ivs" "separated ivs" "cover ivs = cover rows"
    using merge_intervals_correct [of rows] by (simp_all add: merged)
  have cover_rows: "cover rows = (\<Union>d \<in> offsets (zip ?es ?ss). {?o + d..<?o + d + ?span})"
    by (simp add: cover_def set_rows)
  have "concrete_bytes region w \<subseteq> cover rows"
    unfolding concrete_bytes_rows [OF len ne] cover_rows by (intro UN_mono subset_refl row_span s)
  moreover have "cover rows = concrete_bytes region w" if "0 < w" "?s = w"
    unfolding concrete_bytes_rows [OF len ne] cover_rows that(2) using row_dense [OF e that(1)] by simp
  ultimately show ?thesis using main by simp
qed

lemma cover_shift: "cover (shift_intervals delta ivs) = (\<lambda>x. x + delta) ` cover ivs"
  by (induction ivs) (auto simp: shift_intervals_def image_Un)

lemma shift_zero [simp]: "shift_intervals 0 ivs = ivs"
  by (simp add: shift_intervals_def)

lemma proper_shift: "proper (shift_intervals delta ivs) = proper ivs"
  by (auto simp: proper_def shift_intervals_def)

lemma separated_shift: "separated (shift_intervals delta ivs) = separated ivs"
  by (induction ivs rule: separated.induct) (auto simp: shift_intervals_def)

text \<open>The sweep finds a common byte if there is one, and only reports one where intervals meet.\<close>

lemma sweep_disjoint_sound:
  assumes "proper left" "separated left" "proper right" "separated right" "sweep_disjoint left right"
  shows "cover left \<inter> cover right = {}"
  using assms
proof (induction left right rule: sweep_disjoint.induct)
  case (3 ls le left rs re right)
  note l = separated_ConsD [OF "3.prems"(2,1)] cover_separated_disjoint [OF "3.prems"(2,1)]
  note r = separated_ConsD [OF "3.prems"(4,3)] cover_separated_disjoint [OF "3.prems"(4,3)]
  have apart: "\<not> (ls < re \<and> rs < le)" using "3.prems"(5) by (auto split: if_splits)
  have ends: "ls \<le> le" "rs \<le> re" "proper left" "proper right" using "3.prems"(1,3) by auto
  show ?case
  proof (cases "le \<le> rs")
    case True
    then have "cover left \<inter> cover ((rs, re) # right) = {}"
      using "3.IH"(1) [OF apart True ends(3)] l(1) "3.prems" apart by auto
    moreover have "{ls..<le} \<inter> cover ((rs, re) # right) = {}" using True ends r(2) by fastforce
    ultimately show ?thesis by (simp add: Int_Un_distrib Int_Un_distrib2)
  next
    case False
    then have "cover ((ls, le) # left) \<inter> cover right = {}"
      using "3.IH"(2) [OF apart False "3.prems"(1,2) ends(4)] r(1) "3.prems" apart by auto
    moreover have "cover ((ls, le) # left) \<inter> {rs..<re} = {}" using False apart ends l(2) by fastforce
    ultimately show ?thesis by (simp add: Int_Un_distrib Int_Un_distrib2)
  qed
qed auto

lemma sweep_disjoint_complete:
  assumes "\<forall>(s, e) \<in> set left. s < e" "\<forall>(s, e) \<in> set right. s < e" "\<not> sweep_disjoint left right"
  shows "cover left \<inter> cover right \<noteq> {}"
  using assms
proof (induction left right rule: sweep_disjoint.induct)
  case (3 ls le left rs re right)
  show ?case
  proof (cases "ls < re \<and> rs < le")
    case True
    then have "max ls rs \<in> {ls..<le} \<inter> {rs..<re}" using "3.prems"(1,2) by auto
    then show ?thesis unfolding cover_simps by blast
  next
    case False
    then show ?thesis using 3 by (cases "le \<le> rs") auto
  qed
qed auto

lemma merge_step_strict: "\<forall>(s, e) \<in> set merged. s < e \<Longrightarrow> s < e \<Longrightarrow> \<forall>(a, b) \<in> set (merge_step merged (s, e)). a < b"
proof -
  assume m: "\<forall>(s, e) \<in> set merged. s < e" and "s < e"
  have "merged \<noteq> [] \<Longrightarrow> fst (last merged) < snd (last merged)" using m last_in_set [of merged] by (auto simp: case_prod_beta)
  then show ?thesis using m \<open>s < e\<close> by (auto simp: merge_step_def less_max_iff_disj dest!: in_set_butlastD)
qed

lemma merge_intervals_strict: "\<forall>(s, e) \<in> set ivs. s < e \<Longrightarrow> \<forall>(s, e) \<in> set (merge_intervals ivs). s < e"
proof -
  have "\<forall>(s, e) \<in> set merged. s < e \<Longrightarrow> \<forall>(s, e) \<in> set xs. s < e \<Longrightarrow> \<forall>(s, e) \<in> set (foldl merge_step merged xs). s < e"
    for merged xs
  proof (induction xs arbitrary: merged)
    case (Cons iv xs)
    obtain s e where iv: "iv = (s, e)" by (cases iv)
    have "\<forall>(a, b) \<in> set (merge_step merged (s, e)). a < b" using Cons.prems by (intro merge_step_strict) (simp_all add: iv)
    with Cons.IH Cons.prems(2) show ?case by (simp add: iv)
  qed simp
  from this [of "[]" "sort ivs"] show "\<forall>(s, e) \<in> set ivs. s < e \<Longrightarrow> \<forall>(s, e) \<in> set (merge_intervals ivs). s < e"
    by (simp add: merge_intervals_def)
qed

lemma region_byte_intervals_strict:
  assumes wf: "region_wf region" and w: "dtype_size_bytes (br_dtype region) = Inr w" "0 < w"
    and ivs: "region_byte_intervals region = Inr (Some ivs)"
  shows "\<forall>(s, e) \<in> set ivs. s < e"
proof (cases "region_is_symbolic region \<or> 0 \<in> set (region_shape region)")
  case True
  then show ?thesis using ivs by (auto simp: region_byte_intervals_def split: if_splits)
next
  case False
  let ?span = "(last (region_shape region) - 1) * last (region_strides region w) + w"
  have ne: "region_shape region \<noteq> []" using wf by (simp add: region_wf_def region_shape_def)
  have len: "length (region_strides region w) = length (region_shape region)"
    and nn: "\<forall>s \<in> set (region_strides region w). 0 \<le> s"
    using region_strides_ok [OF wf less_imp_le [OF w(2)]] by auto
  have "last (region_shape region) \<in> set (region_shape region)" using ne by simp
  then have "0 \<le> last (region_shape region)" "last (region_shape region) \<noteq> 0"
    using region_shape_nonneg [OF wf] False by auto
  moreover have "region_strides region w \<noteq> []" using len ne by auto
  then have "0 \<le> last (region_strides region w)" using nn by simp
  ultimately have span: "0 < ?span" using w(2) by (simp add: add_nonneg_pos)
  obtain starts where "ivs = merge_intervals (map (\<lambda>base. (base, base + ?span)) starts)"
    using ivs False w by (auto simp: region_byte_intervals_def Let_def simp del: map_map split: if_splits)
  moreover have "\<forall>(s, e) \<in> set (map (\<lambda>base. (base, base + ?span)) starts). s < e" using span by auto
  ultimately show ?thesis using merge_intervals_strict by blast
qed

section \<open>The overlap test\<close>

lemma region_byte_intervals_total:
  assumes wf: "region_wf region" shows "\<exists>ivs. region_byte_intervals region = Inr ivs"
proof -
  obtain w where "region_shape region \<noteq> []" and w: "dtype_size_bytes (br_dtype region) = Inr w"
    using wf by (auto simp: region_wf_def region_shape_def)
  then show ?thesis unfolding region_byte_intervals_def w and_then_simps Let_def by auto
qed

lemma region_bounds_total:
  assumes "region_wf region" shows "\<exists>bounds. region_bounds region = Inr bounds"
proof -
  obtain w where w: "dtype_size_bytes (br_dtype region) = Inr w" using assms by (auto simp: region_wf_def)
  show ?thesis unfolding region_bounds_def w and_then_simps Let_def by auto
qed

lemma region_is_contiguous_total: "region_wf region \<Longrightarrow> \<exists>t. region_is_contiguous region = Inr t"
  by (auto simp: region_wf_def region_is_contiguous_def)

text \<open>The intervals the sweep compares, with the second region's shifted to the first one's base.\<close>

lemma strided_regions_disjoint_sound:
  assumes l: "region_wf l" "\<not> region_is_symbolic l" "dtype_size_bytes (br_dtype l) = Inr lw"
    and r: "region_wf r" "\<not> region_is_symbolic r" "dtype_size_bytes (br_dtype r) = Inr rw"
    and verdict: "strided_regions_disjoint l r lb rb = Inr (Some True)"
    and x: "x \<in> concrete_bytes l lw" and y: "y \<in> concrete_bytes r rw"
  shows "lb + x \<noteq> rb + y"
proof
  assume meet: "lb + x = rb + y"
  obtain lo ro where lo: "region_byte_intervals l = Inr lo" and ro: "region_byte_intervals r = Inr ro"
    using region_byte_intervals_total l(1) r(1) by blast
  obtain ls rs where some: "lo = Some ls" "ro = Some rs"
    using verdict by (auto simp: strided_regions_disjoint_def lo ro split: option.splits)
  note ls = lo [unfolded some] and rs = ro [unfolded some]
  have sweep: "ls = [] \<or> rs = [] \<or> sweep_disjoint ls (shift_intervals (rb - lb) rs)"
    using verdict by (auto simp: strided_regions_disjoint_def ls rs split: if_splits)
  have L: "proper ls" "separated ls" "x \<in> cover ls" using region_byte_intervals_cover [OF l ls] x by auto
  have R: "proper rs" "separated rs" "y \<in> cover rs" using region_byte_intervals_cover [OF r rs] y by auto
  have "x \<in> cover (shift_intervals (rb - lb) rs)" using R(3) meet by (auto simp: cover_shift image_iff algebra_simps)
  moreover have "sweep_disjoint ls (shift_intervals (rb - lb) rs)" using sweep L(3) R(3) by auto
  ultimately show False
    using sweep_disjoint_sound [of ls "shift_intervals (rb - lb) rs"] L R by (auto simp: proper_shift separated_shift)
qed

lemma strided_regions_disjoint_total:
  assumes "region_wf l" "region_wf r" shows "\<exists>v. strided_regions_disjoint l r lb rb = Inr v"
proof -
  obtain lo ro where ivs: "region_byte_intervals l = Inr lo" "region_byte_intervals r = Inr ro"
    using region_byte_intervals_total assms by blast
  show ?thesis
    unfolding strided_regions_disjoint_def ivs and_then_simps by (cases lo; cases ro) auto
qed

lemma bounded_overlap_sound:
  assumes l: "region_wf l" "\<not> region_is_symbolic l" "dtype_size_bytes (br_dtype l) = Inr lw"
    and r: "region_wf r" "\<not> region_is_symbolic r" "dtype_size_bytes (br_dtype r) = Inr rw"
    and x: "x \<in> concrete_bytes l lw" "x \<in> {fst lbs..<snd lbs}"
    and y: "y \<in> concrete_bytes r rw" "y \<in> {fst rbs..<snd rbs}" and meet: "lb + x = rb + y"
  shows "bounded_overlap l r lb rb lbs rbs = Inr True"
proof -
  obtain lc rc where c: "region_is_contiguous l = Inr lc" "region_is_contiguous r = Inr rc"
    using region_is_contiguous_total l(1) r(1) by blast
  obtain v where v: "strided_regions_disjoint l r lb rb = Inr v"
    using strided_regions_disjoint_total [OF l(1) r(1)] by blast
  have "v \<noteq> Some True" using strided_regions_disjoint_sound [OF l r _ x(1) y(1)] v meet by blast
  moreover have "lb + fst lbs < rb + snd rbs" "rb + fst rbs < lb + snd lbs" using x(2) y(2) meet by auto
  ultimately show ?thesis using c v by (auto simp: bounded_overlap_def split: option.splits)
qed

text \<open>A region inside its allocation, wherever the allocation's size is known.\<close>

definition in_allocation :: "buffer_spec \<Rightarrow> int set \<Rightarrow> bool" where
  "in_allocation spec bytes \<longleftrightarrow>
     (\<forall>x \<in> bytes. 0 \<le> x \<and> (case spec_size_bytes spec of Inr (Some n) \<Rightarrow> x < n | _ \<Rightarrow> True))"

lemma overlap_at_sound:
  assumes l: "region_wf l" "region_bytes bindings l = Inr L" "x \<in> L"
    and r: "region_wf r" "region_bytes bindings r = Inr R" "y \<in> R"
    and meet: "lb + x = rb + y"
    and sizes: "spec_size_bytes ls = Inr ln" "spec_size_bytes rs = Inr rn"
    and inside: "in_allocation ls L" "in_allocation rs R"
  shows "overlap_at l r ls rs lb rb = Inr True"
proof -
  obtain lw rw where w: "dtype_size_bytes (br_dtype l) = Inr lw" "dtype_size_bytes (br_dtype r) = Inr rw"
    using l(1) r(1) by (auto simp: region_wf_def)
  have sym: "allocations_overlap ls rs lb rb = Inr True"
    using inside l(3) r(3) sizes meet by (fastforce simp: in_allocation_def allocations_overlap_def split: option.splits)
  show ?thesis
  proof (cases "region_is_symbolic l \<or> region_is_symbolic r")
    case True
    obtain lo ro where "region_bounds l = Inr lo" "region_bounds r = Inr ro"
      using region_bounds_total l(1) r(1) by blast
    moreover from this True have "lo = None \<or> ro = None" by (auto simp: region_bounds_def)
    ultimately show ?thesis using sym by (auto simp: overlap_at_def split: option.splits)
  next
    case False
    then have L: "L = concrete_bytes l lw" and R: "R = concrete_bytes r rw"
      using region_bytes_concrete [OF l(1) _ w(1)] region_bytes_concrete [OF r(1) _ w(2)] l(2) r(2) by auto
    obtain a b where ab: "region_bounds l = Inr (Some (a, b))" "x \<in> {a..<b}"
      using region_bounds_sound [OF l(1) _ w(1)] False l(3) L by blast
    obtain c d where cd: "region_bounds r = Inr (Some (c, d))" "y \<in> {c..<d}"
      using region_bounds_sound [OF r(1) _ w(2)] False r(3) R by blast
    have "bounded_overlap l r lb rb (a, b) (c, d) = Inr True"
      using bounded_overlap_sound [OF l(1) _ w(1) r(1) _ w(2), of x "(a, b)" y "(c, d)"] False l(3) r(3) L R ab cd meet by simp
    then show ?thesis by (simp add: overlap_at_def ab(1) cd(1))
  qed
qed

text \<open>The buffer a region resolves to is known, has a size that can be computed, and holds the bytes.\<close>

definition places :: "bridge_memory \<Rightarrow> int \<Rightarrow> buffer_region \<Rightarrow> int set \<Rightarrow> bool" where
  "places b core region bytes \<longleftrightarrow>
     (case map_of (bm_buffers b) (resolve_active_alias b region (region_owner region core)) of
        None \<Rightarrow> False
      | Some spec \<Rightarrow> (case spec_size_bytes spec of Inl e \<Rightarrow> False | Inr n \<Rightarrow> in_allocation spec bytes))"

lemma overlap_test_sound:
  assumes l: "region_wf l" "region_bytes bindings l = Inr L" "places b core l L" "x \<in> L"
    and r: "region_wf r" "region_bytes bindings r = Inr R" "places b core r R" "y \<in> R"
    and same: "byte_location b core l x = byte_location b core r y"
  shows "regions_overlap_uncached b l r core = Inr True"
proof -
  let ?ln = "resolve_active_alias b l (region_owner l core)" and ?rn = "resolve_active_alias b r (region_owner r core)"
  obtain ls rs lsize rsize where specs: "map_of (bm_buffers b) ?ln = Some ls" "map_of (bm_buffers b) ?rn = Some rs"
    and sizes: "spec_size_bytes ls = Inr lsize" "spec_size_bytes rs = Inr rsize"
    and inside: "in_allocation ls L" "in_allocation rs R"
    using l(3) r(3) by (auto simp: places_def split: option.splits sum.splits)
  have at: "lb + x = rb + y \<Longrightarrow> overlap_at l r ls rs lb rb = Inr True" for lb rb
    using overlap_at_sound [OF l(1,2,4) r(1,2,4) _ sizes inside] by blast
  have scope: "br_scope l = br_scope r" "br_scope l \<notin> set gm_scopes \<Longrightarrow> region_owner l core = region_owner r core"
    using same by (auto simp: byte_location_def Let_def split: if_splits)
  have where_x: "(case bs_address ls of None \<Rightarrow> (Some ?ln, x) | Some a \<Rightarrow> (None, a + x)) =
      (case bs_address rs of None \<Rightarrow> (Some ?rn, y) | Some a \<Rightarrow> (None, a + y))"
    using same specs by (simp add: byte_location_def Let_def)
  show ?thesis
  proof (cases "?ln = ?rn")
    case True
    then have "x = y" using where_x specs by (auto split: option.splits)
    with at [of 0 0] True scope specs show ?thesis by (auto simp: regions_overlap_uncached_def bridge_buffer_def Let_def)
  next
    case False
    then obtain la ra where "bs_address ls = Some la" "bs_address rs = Some ra" "la + x = ra + y"
      using where_x by (auto split: option.splits)
    with at [of la ra] False scope specs show ?thesis by (auto simp: regions_overlap_uncached_def bridge_buffer_def Let_def)
  qed
qed

section \<open>Exactness on dense rows\<close>

text \<open>
  A static view whose elements are adjacent within a row, with no empty dimension, no broadcast and
  at most 4096 rows: the regions the bridge's copies and tile operations have.
\<close>

definition dense_rows :: "buffer_region \<Rightarrow> bool" where
  "dense_rows region \<longleftrightarrow> region_wf region \<and> \<not> region_is_symbolic region \<and> 0 \<notin> set (region_shape region) \<and>
     prod_list (butlast (region_shape region)) \<le> max_interval_expansion \<and>
     (case dtype_size_bytes (br_dtype region) of
        Inl e \<Rightarrow> False
      | Inr w \<Rightarrow> 0 < w \<and> last (region_strides region w) = w \<and> (\<forall>s \<in> set (region_strides region w). 0 < s))"

lemma dense_rowsD:
  assumes "dense_rows region" and w: "dtype_size_bytes (br_dtype region) = Inr w"
  shows "region_wf region" "\<not> region_is_symbolic region" "0 \<notin> set (region_shape region)" "0 < w"
    "\<exists>ivs. region_byte_intervals region = Inr (Some ivs) \<and> cover ivs = concrete_bytes region w \<and>
       (\<forall>(s, e) \<in> set ivs. s < e)"
proof -
  show wf: "region_wf region" and concrete: "\<not> region_is_symbolic region" and nz: "0 \<notin> set (region_shape region)" and pos: "0 < w"
    using assms by (auto simp: dense_rows_def)
  have ok: "last (region_strides region w) = w" "\<forall>s \<in> set (region_strides region w). \<not> s \<le> 0"
    "\<not> prod_list (butlast (region_shape region)) > max_interval_expansion" "region_shape region \<noteq> []"
    using assms by (auto simp: dense_rows_def region_wf_def region_shape_def)
  then have "\<not> (\<exists>s \<in> set (region_strides region w). s \<le> 0)" by blast
  then obtain ivs where ivs: "region_byte_intervals region = Inr (Some ivs)"
    using concrete nz ok by (simp add: region_byte_intervals_def Let_def w del: map_map)
  then show "\<exists>ivs. region_byte_intervals region = Inr (Some ivs) \<and> cover ivs = concrete_bytes region w \<and>
       (\<forall>(s, e) \<in> set ivs. s < e)"
    using region_byte_intervals_cover [OF wf concrete w ivs] region_byte_intervals_strict [OF wf w pos ivs] pos ok(1) by blast
qed

lemma dense_from_contiguous: "\<forall>n \<in> set ns. 0 < n \<Longrightarrow> dense_from w (zip ns (strides_from w ns))"
proof (induction w ns rule: strides_from.induct)
  case (2 stride extent rest)
  show ?case
  proof (cases "extent \<le> 1")
    case True
    with 2 have "extent = 1" by simp
    with 2 show ?thesis by simp
  next
    case False
    with 2 show ?thesis by simp
  qed
qed simp

lemma contiguous_bytes:
  assumes wf: "region_wf region" and concrete: "\<not> region_is_symbolic region" and nz: "0 \<notin> set (region_shape region)"
    and w: "dtype_size_bytes (br_dtype region) = Inr w" and contiguous: "region_is_contiguous region = Inr True"
    and bounds: "region_bounds region = Inr (Some (lo, hi))"
  shows "concrete_bytes region w = {lo..<hi}"
proof -
  let ?shape = "region_shape region"
  have strides: "region_strides region w = contiguous_strides_bytes ?shape w"
    using contiguous concrete w by (auto simp: region_is_contiguous_def region_strides_def split: option.splits list.splits)
  have swap: "rev (zip ?shape (contiguous_strides_bytes ?shape w)) = zip (rev ?shape) (strides_from w (rev ?shape))"
    using contiguous_strides_length [of ?shape w] by (simp add: contiguous_strides_bytes_def zip_rev [symmetric])
  let ?dims = "zip ?shape (contiguous_strides_bytes ?shape w)"
  have pos: "\<forall>n \<in> set ?shape. 0 < n" using region_shape_nonneg [OF wf] nz by (metis le_less)
  then have "\<forall>(extent, stride) \<in> set (rev ?dims). 0 < extent" by (auto dest: set_zip_leftD)
  then have "(\<Union>o' \<in> offsets (rev ?dims). {o'..<o' + w}) = {0..<last_offset (rev ?dims) + w}"
    using dense_offsets [of w "rev ?dims"] dense_from_contiguous [of "rev ?shape" w] pos dtype_size_nonneg [OF w] by (simp add: swap)
  moreover have "last_offset (rev ?dims) = last_offset ?dims" by (simp add: last_offset_def rev_map [symmetric] sum_list_rev)
  ultimately have "(\<Union>o' \<in> offsets ?dims. {o'..<o' + w}) = {0..<last_offset ?dims + w}" by (simp only: offsets_rev)
  from shift_blocks [OF this, of "region_offset region"]
  have "concrete_bytes region w = {region_offset region..<region_offset region + (last_offset ?dims + w)}"
    by (simp add: concrete_bytes_def strides)
  moreover have "lo = region_offset region" "hi = region_offset region + (last_offset ?dims + w)"
    using bounds concrete nz w by (auto simp: region_bounds_def strides last_offset_dot Let_def)
  ultimately show ?thesis by simp
qed

lemma strided_regions_disjoint_complete:
  assumes l: "dense_rows l" "dtype_size_bytes (br_dtype l) = Inr lw"
    and r: "dense_rows r" "dtype_size_bytes (br_dtype r) = Inr rw"
    and verdict: "strided_regions_disjoint l r lb rb \<noteq> Inr (Some True)"
  shows "\<exists>x \<in> concrete_bytes l lw. \<exists>y \<in> concrete_bytes r rw. lb + x = rb + y"
proof -
  obtain ls where ls: "region_byte_intervals l = Inr (Some ls)" "cover ls = concrete_bytes l lw" "\<forall>(s, e) \<in> set ls. s < e"
    using dense_rowsD(5) [OF l] by blast
  obtain rs where rs: "region_byte_intervals r = Inr (Some rs)" "cover rs = concrete_bytes r rw" "\<forall>(s, e) \<in> set rs. s < e"
    using dense_rowsD(5) [OF r] by blast
  have "\<not> sweep_disjoint ls (shift_intervals (rb - lb) rs)"
    using verdict ls(1) rs(1) by (auto simp: strided_regions_disjoint_def split: if_splits)
  moreover have "\<forall>(s, e) \<in> set (shift_intervals (rb - lb) rs). s < e" using rs(3) by (auto simp: shift_intervals_def)
  ultimately have "cover ls \<inter> cover (shift_intervals (rb - lb) rs) \<noteq> {}" using ls(3) by (intro sweep_disjoint_complete)
  then obtain x y where "x \<in> cover ls" "y \<in> cover rs" "x = y + (rb - lb)" by (auto simp: cover_shift)
  then show ?thesis using ls(2) rs(2) by (intro bexI [of _ x] bexI [of _ y]) auto
qed

lemma overlap_at_complete:
  assumes l: "dense_rows l" "dtype_size_bytes (br_dtype l) = Inr lw"
    and r: "dense_rows r" "dtype_size_bytes (br_dtype r) = Inr rw"
    and verdict: "overlap_at l r ls rs lb rb = Inr True"
  shows "\<exists>x \<in> concrete_bytes l lw. \<exists>y \<in> concrete_bytes r rw. lb + x = rb + y"
proof -
  note L = dense_rowsD [OF l] and R = dense_rowsD [OF r]
  obtain a b where ab: "region_bounds l = Inr (Some (a, b))" "a < b"
    using region_bounds_sound [OF L(1,2) l(2)] L(3,4) by blast
  obtain c d where cd: "region_bounds r = Inr (Some (c, d))" "c < d"
    using region_bounds_sound [OF R(1,2) r(2)] R(3,4) by blast
  have bo: "bounded_overlap l r lb rb (a, b) (c, d) = Inr True" using verdict by (simp add: overlap_at_def ab cd)
  then have meet: "lb + a < rb + d" "rb + c < lb + b" by (auto simp: bounded_overlap_def split: if_splits)
  show ?thesis
  proof (cases "region_is_contiguous l = Inr True \<and> region_is_contiguous r = Inr True")
    case True
    then have eq: "concrete_bytes l lw = {a..<b}" "concrete_bytes r rw = {c..<d}"
      using contiguous_bytes [OF L(1-3) l(2) _ ab(1)] contiguous_bytes [OF R(1-3) r(2) _ cd(1)] by auto
    let ?p = "max (lb + a) (rb + c)"
    have "?p - lb \<in> {a..<b}" "?p - rb \<in> {c..<d}" using meet ab(2) cd(2) by auto
    then show ?thesis unfolding eq by (intro bexI [of _ "?p - lb"] bexI [of _ "?p - rb"]) simp_all
  next
    case False
    then have "strided_regions_disjoint l r lb rb \<noteq> Inr (Some True)"
      using bo meet by (auto simp: bounded_overlap_def split: if_splits)
    then show ?thesis by (rule strided_regions_disjoint_complete [OF l r])
  qed
qed

lemma overlap_test_complete:
  assumes l: "dense_rows l" "region_bytes bindings l = Inr L" and r: "dense_rows r" "region_bytes bindings r = Inr R"
    and verdict: "regions_overlap_uncached b l r core = Inr True"
  shows "\<exists>x \<in> L. \<exists>y \<in> R. byte_location b core l x = byte_location b core r y"
proof -
  let ?ln = "resolve_active_alias b l (region_owner l core)" and ?rn = "resolve_active_alias b r (region_owner r core)"
  obtain lw rw where w: "dtype_size_bytes (br_dtype l) = Inr lw" "dtype_size_bytes (br_dtype r) = Inr rw"
    using l(1) r(1) by (auto simp: dense_rows_def split: sum.splits)
  have LR: "L = concrete_bytes l lw" "R = concrete_bytes r rw"
    using region_bytes_concrete [OF dense_rowsD(1,2) [OF l(1) w(1)] w(1)] l(2)
      region_bytes_concrete [OF dense_rowsD(1,2) [OF r(1) w(2)] w(2)] r(2) by auto
  obtain ls rs where specs: "map_of (bm_buffers b) ?ln = Some ls" "map_of (bm_buffers b) ?rn = Some rs"
    using verdict by (auto simp: regions_overlap_uncached_def bridge_buffer_def Let_def split: if_splits option.splits)
  have scope: "br_scope l = br_scope r" "br_scope l \<notin> set gm_scopes \<Longrightarrow> region_owner l core = region_owner r core"
    using verdict by (auto simp: regions_overlap_uncached_def Let_def split: if_splits)
  note complete = overlap_at_complete [OF l(1) w(1) r(1) w(2)]
  show ?thesis
  proof (cases "?ln = ?rn")
    case True
    then have "overlap_at l r ls rs 0 0 = Inr True"
      using verdict specs scope by (auto simp: regions_overlap_uncached_def bridge_buffer_def Let_def split: if_splits)
    from complete [OF this] LR obtain x where "x \<in> L" "x \<in> R" by auto
    then show ?thesis using True specs scope by (intro bexI [of _ x]) (auto simp: byte_location_def Let_def split: option.splits)
  next
    case False
    then obtain la ra where base: "bs_address ls = Some la" "bs_address rs = Some ra"
      and "overlap_at l r ls rs la ra = Inr True"
      using verdict specs by (auto simp: regions_overlap_uncached_def bridge_buffer_def Let_def split: if_splits option.splits)
    from complete [OF this(3)] LR obtain x y where "x \<in> L" "y \<in> R" "la + x = ra + y" by auto
    then show ?thesis using base specs scope by (intro bexI [of _ x] bexI [of _ y]) (auto simp: byte_location_def Let_def)
  qed
qed

lemma overlap_test_total:
  assumes l: "region_wf l" "places b core l L" and r: "region_wf r" "places b core r R"
  shows "\<exists>t. regions_overlap_uncached b l r core = Inr t"
proof -
  obtain ls rs lsize rsize where specs: "map_of (bm_buffers b) (resolve_active_alias b l (region_owner l core)) = Some ls"
      "map_of (bm_buffers b) (resolve_active_alias b r (region_owner r core)) = Some rs"
    and sizes: "spec_size_bytes ls = Inr lsize" "spec_size_bytes rs = Inr rsize"
    using l(2) r(2) by (auto simp: places_def split: option.splits sum.splits)
  obtain lo ro lc rc where parts: "region_bounds l = Inr lo" "region_bounds r = Inr ro"
    "region_is_contiguous l = Inr lc" "region_is_contiguous r = Inr rc"
    using region_bounds_total region_is_contiguous_total l(1) r(1) by meson
  have "\<exists>t. overlap_at l r ls rs lb rb = Inr t" for lb rb
  proof -
    obtain v where v: "strided_regions_disjoint l r lb rb = Inr v"
      using strided_regions_disjoint_total [OF l(1) r(1)] by blast
    have alloc: "\<exists>t. allocations_overlap ls rs lb rb = Inr t"
      unfolding allocations_overlap_def sizes and_then_simps by (auto split: option.splits)
    have "\<exists>t. bounded_overlap l r lb rb p q = Inr t" for p q
      unfolding bounded_overlap_def parts v and_then_simps by (cases lc; cases rc; cases v) auto
    then show ?thesis unfolding overlap_at_def parts and_then_simps using alloc by (auto split: option.splits)
  qed
  then show ?thesis using specs by (auto simp: regions_overlap_uncached_def bridge_buffer_def Let_def split: option.splits)
qed

section \<open>Properties\<close>

text \<open>Two regions with at least one physical byte in common.\<close>

definition shares_byte :: "bridge_memory \<Rightarrow> int \<Rightarrow> buffer_region \<Rightarrow> int set \<Rightarrow> buffer_region \<Rightarrow> int set \<Rightarrow> bool" where
  "shares_byte b core l L r R \<longleftrightarrow> (\<exists>x \<in> L. \<exists>y \<in> R. byte_location b core l x = byte_location b core r y)"

text \<open>
  C11: For regions inside their allocations \<open>_regions_overlap_uncached\<close> always answers; it answers yes
  whenever the regions have a physical byte in common under the given values of their runtime
  integers, through aliases, planned addresses and owning cores, and on static views with dense rows
  it answers yes only then.
\<close>

theorem regions_overlap_decides_shared_bytes:
  assumes "region_wf l" and "region_bytes bindings l = Inr L" and "places b core l L"
    and "region_wf r" and "region_bytes bindings r = Inr R" and "places b core r R"
  shows "\<exists>answer. regions_overlap_uncached b l r core = Inr answer \<and>
    (shares_byte b core l L r R \<longrightarrow> answer) \<and>
    (dense_rows l \<longrightarrow> dense_rows r \<longrightarrow> answer \<longrightarrow> shares_byte b core l L r R)"
proof -
  obtain answer where answer: "regions_overlap_uncached b l r core = Inr answer"
    using overlap_test_total assms(1,3,4,6) by blast
  have "shares_byte b core l L r R \<Longrightarrow> answer"
    using overlap_test_sound [OF assms(1-3) _ assms(4-6)] answer by (auto simp: shares_byte_def)
  moreover have "dense_rows l \<Longrightarrow> dense_rows r \<Longrightarrow> answer \<Longrightarrow> shares_byte b core l L r R"
    using overlap_test_complete [OF _ assms(2) _ assms(5)] answer by (simp add: shares_byte_def)
  ultimately show ?thesis using answer by blast
qed

definition shard_memory :: bridge_memory where
  "shard_memory = \<lparr>bm_buffers = [(''Y'', \<lparr>bs_name = ''Y'', bs_scope = GM, bs_shape = [RInt 2, RInt 6], bs_dtype = ''float16'',
       bs_size_bytes = None, bs_address = None, bs_lifetime = None, bs_metadata = []\<rparr>)],
     bm_last_writes = [], bm_last_reads = [], bm_active_aliases = [], bm_overlap_cache = [], bm_candidate_cache = []\<rparr>"

definition shard :: "int \<Rightarrow> buffer_region" where
  "shard start = \<lparr>br_buffer = ''Y'', br_scope = GM, br_shape = [RInt 2, RInt 2], br_dtype = ''float16'',
     br_byte_offset = RInt start, br_strides_bytes = Some [RInt 12, RInt 2], br_core_id = None\<rparr>"

lemma shard_bytes: "region_bytes Map.empty (shard n) = Inr {n, n + 1, n + 2, n + 3, n + 12, n + 13, n + 14, n + 15}"
proof -
  have two: "{0..<2} = {0, 1 :: int}" "{m..<m + 2} = {m, m + 1}" "{n + 2..<n + 4} = {n + 2, n + 3}"
    "{n + 12..<n + 14} = {n + 12, n + 13}" "{n + 14..<n + 16} = {n + 14, n + 15}" for m :: int by auto
  show ?thesis
    unfolding region_bytes_def by (simp add: shard_def float16_size two insert_commute add.assoc)
qed

theorem regions_overlap_decides_shared_bytes_witness:
  "\<exists>answer. regions_overlap_uncached shard_memory (shard 0) (shard 4) 1 = Inr answer \<and>
    (shares_byte shard_memory 1 (shard 0) {0, 1, 2, 3, 12, 13, 14, 15} (shard 4) {4, 5, 6, 7, 16, 17, 18, 19} \<longrightarrow> answer) \<and>
    (dense_rows (shard 0) \<longrightarrow> dense_rows (shard 4) \<longrightarrow> answer \<longrightarrow>
      shares_byte shard_memory 1 (shard 0) {0, 1, 2, 3, 12, 13, 14, 15} (shard 4) {4, 5, 6, 7, 16, 17, 18, 19})"
proof (rule regions_overlap_decides_shared_bytes)
  show "region_bytes Map.empty (shard 0) = Inr {0, 1, 2, 3, 12, 13, 14, 15}"
    "region_bytes Map.empty (shard 4) = Inr {4, 5, 6, 7, 16, 17, 18, 19}"
    by (simp_all add: shard_bytes)
  show "places shard_memory 1 (shard 0) {0, 1, 2, 3, 12, 13, 14, 15}"
    "places shard_memory 1 (shard 4) {4, 5, 6, 7, 16, 17, 18, 19}"
    by code_simp+
  show "region_wf (shard 0)" "region_wf (shard 4)"
    by (simp_all add: region_wf_def shard_def float16_size region_values_def)
qed

text \<open>
  The interval answer is not exact when the elements of a row are apart: the rows are coalesced
  before the intervals are compared, so two interleaved columns are reported as overlapping.
\<close>

definition column :: "int \<Rightarrow> buffer_region" where
  "column start = \<lparr>br_buffer = ''Y'', br_scope = GM, br_shape = [RInt 2], br_dtype = ''float16'',
     br_byte_offset = RInt start, br_strides_bytes = Some [RInt 4], br_core_id = None\<rparr>"

lemma interleaved_columns_reported_as_overlapping:
  "strided_regions_disjoint (column 0) (column 2) 0 0 = Inr (Some False)"
  "concrete_bytes (column 0) 2 \<inter> concrete_bytes (column 2) 2 = {}"
  by code_simp+

end
