(* ===== verification/Sim_Bridge_Order.thy ===== *)
theory Sim_Bridge_Order
  imports Sim_Bridge_Caches Sim_Bridge_Overlap
begin

text \<open>
  The update of the access histories after a task, and what the dependencies of a sequence of tasks
  add up to: where a write that overlaps an earlier access also meets whatever meets that access
  later, every conflicting pair of one lane and core is ordered by a chain of dependencies.
\<close>

section \<open>Updates that keep the caches coherent\<close>

definition same_keys :: "bridge_memory \<Rightarrow> bridge_memory \<Rightarrow> bool" where
  "same_keys b b' \<longleftrightarrow> same_placement b b' \<and> (\<forall>h. map fst (history_of b' h) = map fst (history_of b h))"

lemma same_memory_keys: "same_memory b b' \<Longrightarrow> same_keys b b'"
  by (simp add: same_keys_def same_memory_history same_memory_placement)

lemma same_keys_trans: "same_keys b b1 \<Longrightarrow> same_keys b1 b2 \<Longrightarrow> same_keys b b2"
  by (simp add: same_keys_def same_placement_def)

lemma same_keys_placement: "same_keys b b' \<Longrightarrow> same_placement b b'"
  by (simp add: same_keys_def)

lemma caches_ok_same_keys:
  assumes same: "same_keys b b'" and ok: "caches_ok b"
    and "bm_overlap_cache b' = bm_overlap_cache b" "bm_candidate_cache b' = bm_candidate_cache b"
  shows "caches_ok b'"
proof -
  have sel: "key_selected b' region l core cross = key_selected b region l core cross" for region l core cross
    by (rule ext) (rule key_selected_placement [OF same_keys_placement [OF same]])
  have "candidate_cache_ok b'"
    using ok same assms(4) by (simp add: caches_ok_def candidate_cache_ok_def sel same_keys_def)
  moreover have "overlap_cache_ok b'"
    using ok overlap_cache_ok_cong [OF same_keys_placement [OF same] assms(3)] by (simp add: caches_ok_def)
  ultimately show ?thesis by (simp add: caches_ok_def)
qed

text \<open>Some entries are dropped, nothing else changes.\<close>

definition pruned :: "bridge_memory \<Rightarrow> bridge_memory \<Rightarrow> (history_name \<Rightarrow> history_key \<Rightarrow> history_entry \<Rightarrow> bool) \<Rightarrow> bool" where
  "pruned b b' dropped \<longleftrightarrow> caches_ok b' \<and> same_keys b b' \<and>
     (\<forall>h key entry. filed b' h key entry \<longleftrightarrow> filed b h key entry \<and> \<not> dropped h key entry)"

lemma pruned_refl: "caches_ok b \<Longrightarrow> pruned b b (\<lambda>h key entry. False)"
  by (simp add: pruned_def same_keys_def same_placement_def)

lemma pruned_trans:
  "pruned b b1 P \<Longrightarrow> pruned b1 b2 Q \<Longrightarrow> pruned b b2 (\<lambda>h key entry. P h key entry \<or> Q h key entry)"
  by (auto simp: pruned_def intro: same_keys_trans)

lemma pruned_cong: "pruned b b' P \<Longrightarrow> (\<And>h key entry. filed b h key entry \<Longrightarrow> P h key entry = Q h key entry) \<Longrightarrow> pruned b b' Q"
  by (auto simp: pruned_def)

lemma keep_disjoint_query:
  "caches_ok b \<Longrightarrow> keep_disjoint b region core entries = Inr (kept, b') \<Longrightarrow>
     kept = filter (\<lambda>entry. regions_overlap_uncached b region (fst entry) core \<noteq> Inr True) entries \<and> query b b'"
proof (induction entries arbitrary: b kept)
  case Nil
  then show ?case by (simp add: query_refl)
next
  case (Cons entry entries)
  from Cons.prems(2) obtain overlap b1 rest where
    ov: "regions_overlap b region (fst entry) core = Inr (overlap, b1)"
    and rest: "keep_disjoint b1 region core entries = Inr (rest, b')"
    and kept: "kept = (if overlap then rest else entry # rest)" by auto
  note q = regions_overlap_query [OF Cons.prems(1) ov]
  then have ok1: "caches_ok b1" and same: "same_memory b b1" by (simp_all add: query_def)
  from Cons.IH [OF ok1 rest] q show ?case
    by (auto simp: kept uncached_placement [OF same_memory_placement [OF same]] intro: query_trans)
qed

lemma history_of_set_history: "history_of (set_history h new b) h' = (if h' = h then new else history_of b h')"
  by (cases h; cases h') (simp_all add: history_of_def set_history_def)

lemma set_history_rest [simp]:
  "bm_buffers (set_history h new b) = bm_buffers b" "bm_active_aliases (set_history h new b) = bm_active_aliases b"
  "bm_overlap_cache (set_history h new b) = bm_overlap_cache b"
  "bm_candidate_cache (set_history h new b) = bm_candidate_cache b"
  by (cases h; simp add: set_history_def)+

lemma prune_bucket_pruned:
  assumes ok: "caches_ok b" and run: "prune_bucket h region core b key = Inr b'"
  shows "pruned b b' (\<lambda>h' key' entry. h' = h \<and> key' = key \<and> regions_overlap_uncached b region (fst entry) core = Inr True)"
proof (cases "\<exists>e es. map_of (history_of b h) key = Some (e # es)")
  case False
  then have "b' = b" using run by (auto simp: prune_bucket_def split: option.splits list.splits)
  have none: "\<not> filed b h key entry" for entry
  proof
    assume "filed b h key entry"
    then obtain entries where "map_of (history_of b h) key = Some entries" "entry \<in> set entries" by (auto simp: filed_def)
    with False show False by (cases entries) auto
  qed
  show ?thesis unfolding \<open>b' = b\<close> by (rule pruned_cong [OF pruned_refl [OF ok]]) (use none in auto)
next
  case True
  then obtain e es where entries: "map_of (history_of b h) key = Some (e # es)" by blast
  from run obtain kept b1 where kept: "keep_disjoint b region core (e # es) = Inr (kept, b1)"
    and b': "b' = set_history h (dict_set key kept (history_of b1 h)) b1"
    by (auto simp: prune_bucket_def entries simp del: keep_disjoint.simps)
  note q = keep_disjoint_query [OF ok kept]
  then have ok1: "caches_ok b1" and same: "same_memory b b1" by (simp_all add: query_def)
  have hist: "history_of b1 h' = history_of b h'" for h' by (rule same_memory_history [OF same])
  have "key \<in> set (map fst (history_of b h))" using entries by (auto dest: map_of_SomeD simp: rev_image_eqI)
  then have keys: "map fst (dict_set key kept (history_of b h)) = map fst (history_of b h)" by (simp add: update_keys)
  have "same_keys b1 b'" by (simp add: same_keys_def same_placement_def b' history_of_set_history hist keys)
  then have ok': "caches_ok b'" and keys': "same_keys b b'"
    using caches_ok_same_keys [OF _ ok1] same_keys_trans [OF same_memory_keys [OF same]] by (simp_all add: b')
  have "filed b' h' key' entry \<longleftrightarrow> filed b h' key' entry \<and>
      \<not> (h' = h \<and> key' = key \<and> regions_overlap_uncached b region (fst entry) core = Inr True)" for h' key' entry
    using q entries by (auto simp: filed_def b' history_of_set_history hist)
  then show ?thesis using ok' keys' by (simp add: pruned_def)
qed

lemma prune_buckets_pruned:
  assumes "caches_ok b" and "for_each (prune_bucket h region core) b keys = Inr b'"
  shows "pruned b b' (\<lambda>h' key entry. h' = h \<and> key \<in> set keys \<and> regions_overlap_uncached b region (fst entry) core = Inr True)"
  using assms
proof (induction keys arbitrary: b)
  case Nil
  then show ?case using pruned_refl by simp
next
  case (Cons key keys)
  from Cons.prems(2) obtain b1 where step: "prune_bucket h region core b key = Inr b1"
    and rest: "for_each (prune_bucket h region core) b1 keys = Inr b'" by (auto split: sum.splits)
  note p = prune_bucket_pruned [OF Cons.prems(1) step]
  then have ok1: "caches_ok b1" and same: "same_placement b b1" by (simp_all add: pruned_def same_keys_def)
  from pruned_trans [OF p Cons.IH [OF ok1 rest]] show ?case
    unfolding uncached_placement [OF same] by (rule pruned_cong) auto
qed

text \<open>What a write of \<open>region\<close> drops.\<close>

definition overwritten :: "bridge_memory \<Rightarrow> buffer_region \<Rightarrow> int \<Rightarrow> lane \<Rightarrow> history_key \<Rightarrow> history_entry \<Rightarrow> bool" where
  "overwritten b region core l key entry \<longleftrightarrow> key_selected b region l core True key = Inr True \<and>
     regions_overlap_uncached b region (fst entry) core = Inr True"

lemma overwritten_placement: "same_placement b b' \<Longrightarrow> overwritten b' = overwritten b"
  by (intro ext) (simp add: overwritten_def key_selected_placement uncached_placement)

lemma prune_history_pruned:
  assumes ok: "caches_ok b" and run: "prune_history region core l b h = Inr b'"
  shows "pruned b b' (\<lambda>h' key entry. h' = h \<and> overwritten b region core l key entry)"
proof -
  from run obtain keys where keys: "memory_history_keys b region l core True = Inr keys"
    and loop: "for_each (prune_bucket h region core) b keys = Inr b'" by (auto simp: prune_history_def)
  have "keys = filter (\<lambda>key. key_selected b region l core True key = Inr True)
      (fromkeys (map fst (bm_last_writes b) @ map fst (bm_last_reads b)))"
    using filter_res_Inr keys unfolding memory_history_keys_def by blast
  then have set_keys: "key \<in> set keys \<longleftrightarrow> key_selected b region l core True key = Inr True" if "filed b h' key entry" for h' key entry
    using that by (cases h') (auto simp: filed_def history_of_def dest!: map_of_SomeD intro: rev_image_eqI)
  from prune_buckets_pruned [OF ok loop] show ?thesis
    by (rule pruned_cong) (auto simp: overwritten_def set_keys)
qed

text \<open>One entry is added, nothing else changes.\<close>

definition added :: "bridge_memory \<Rightarrow> bridge_memory \<Rightarrow> history_name \<Rightarrow> buffer_region \<Rightarrow> string \<Rightarrow> lane \<Rightarrow> int \<Rightarrow> bool" where
  "added b b' h region tid l core \<longleftrightarrow> caches_ok b' \<and> same_placement b b' \<and>
     (\<forall>h' key entry. filed b' h' key entry \<longleftrightarrow> filed b h' key entry \<or>
        h' = h \<and> key = memory_history_key region l core \<and> entry = (region, tid, l, core))"

lemma append_memory_history_added:
  assumes ok: "caches_ok b"
  shows "added b (append_memory_history h b region tid l core) h region tid l core"
proof -
  let ?key = "memory_history_key region l core" and ?b = "append_memory_history h b region tid l core"
  let ?new = "dict_set ?key (dict_get (history_of b h) ?key [] @ [(region, tid, l, core)]) (history_of b h)"
  have hist: "history_of ?b h' = (if h' = h then ?new else history_of b h')" for h'
    by (auto simp: append_memory_history_def Let_def history_of_set_history)
  have same: "same_placement b ?b" by (simp add: append_memory_history_def Let_def same_placement_def)
  have "caches_ok ?b"
  proof (cases "map_of (history_of b h) ?key")
    case None
    have "overlap_cache_ok ?b"
      using ok overlap_cache_ok_cong [OF same] by (simp add: caches_ok_def append_memory_history_def Let_def)
    then show ?thesis using None by (simp add: caches_ok_def candidate_cache_ok_def append_memory_history_def Let_def)
  next
    case (Some entries)
    then have "?key \<in> set (map fst (history_of b h))" by (auto dest: map_of_SomeD simp: rev_image_eqI)
    then have "map fst (history_of ?b h') = map fst (history_of b h')" for h' by (simp add: hist update_keys)
    then have "same_keys b ?b" using same by (simp add: same_keys_def)
    then show ?thesis using caches_ok_same_keys [OF _ ok] Some by (simp add: append_memory_history_def Let_def)
  qed
  moreover have "filed ?b h' key entry \<longleftrightarrow> filed b h' key entry \<or>
      h' = h \<and> key = ?key \<and> entry = (region, tid, l, core)" for h' key entry
    by (cases "map_of (history_of b h) ?key") (auto simp: filed_def hist dict_get_def)
  ultimately show ?thesis using same unfolding added_def by blast
qed

text \<open>The histories after one write, and after all accesses of a task.\<close>

definition after_write :: "bridge_memory \<Rightarrow> bridge_memory \<Rightarrow> buffer_region \<Rightarrow> string \<Rightarrow> lane \<Rightarrow> int \<Rightarrow> bool" where
  "after_write b b' region tid l core \<longleftrightarrow> caches_ok b' \<and> same_placement b b' \<and>
     (\<forall>h key entry. filed b' h key entry \<longleftrightarrow> filed b h key entry \<and> \<not> overwritten b region core l key entry \<or>
        h = LastWrites \<and> key = memory_history_key region l core \<and> entry = (region, tid, l, core))"

lemma record_write_after:
  assumes ok: "caches_ok b" and run: "record_write tid core l b region = Inr b'"
  shows "after_write b b' region tid l core"
proof -
  from run obtain b1 b2 where p1: "prune_history region core l b LastWrites = Inr b1"
    and p2: "prune_history region core l b1 LastReads = Inr b2"
    and b': "b' = append_memory_history LastWrites b2 region tid l core"
    by (auto simp: record_write_def split: sum.splits)
  note q1 = prune_history_pruned [OF ok p1]
  then have ok1: "caches_ok b1" and same1: "same_placement b b1" by (simp_all add: pruned_def same_keys_def)
  note q2 = prune_history_pruned [OF ok1 p2, unfolded overwritten_placement [OF same1]]
  have "pruned b b2 (\<lambda>h key entry. overwritten b region core l key entry)"
    using pruned_trans [OF q1 q2] by (rule pruned_cong) (metis history_name.exhaust)
  moreover from this have "caches_ok b2" by (simp add: pruned_def)
  ultimately show ?thesis
    using append_memory_history_added [of b2 LastWrites region tid l core]
    by (auto simp: b' after_write_def pruned_def added_def same_keys_def same_placement_def)
qed

section \<open>Buckets lose no overlapping access\<close>

text \<open>A region of the bridge's own: inside a buffer of known size, and without an owner in global memory.\<close>

definition housed :: "bridge_memory \<Rightarrow> int \<Rightarrow> buffer_region \<Rightarrow> bool" where
  "housed b core region \<longleftrightarrow> (br_scope region \<in> set gm_scopes \<longrightarrow> br_core_id region = None) \<and>
     (case map_of (bm_buffers b) (resolve_active_alias b region (region_owner region core)) of
        None \<Rightarrow> False
      | Some spec \<Rightarrow>
          (case (spec_size_bytes spec, region_bounds region) of
             (Inr (Some n), Inr (Some (lo, hi))) \<Rightarrow> 0 \<le> lo \<and> hi \<le> n
           | (Inr (Some n), _) \<Rightarrow> True
           | _ \<Rightarrow> False))"

lemma housedD:
  assumes "housed b core region"
  shows "br_scope region \<in> set gm_scopes \<longrightarrow> br_core_id region = None"
    "\<exists>spec n. map_of (bm_buffers b) (resolve_active_alias b region (region_owner region core)) = Some spec \<and>
        spec_size_bytes spec = Inr (Some n) \<and>
        (\<forall>lo hi. region_bounds region = Inr (Some (lo, hi)) \<longrightarrow> 0 \<le> lo \<and> hi \<le> n)"
  using assms by (auto simp: housed_def split: option.splits sum.splits)

lemma overlap_at_allocations:
  assumes "overlap_at l r ls rs lb rb = Inr True"
    and sizes: "spec_size_bytes ls = Inr (Some ln)" "spec_size_bytes rs = Inr (Some rn)"
    and inside: "\<And>lo hi. region_bounds l = Inr (Some (lo, hi)) \<Longrightarrow> 0 \<le> lo \<and> hi \<le> ln"
      "\<And>lo hi. region_bounds r = Inr (Some (lo, hi)) \<Longrightarrow> 0 \<le> lo \<and> hi \<le> rn"
  shows "lb < rb + rn \<and> rb < lb + ln"
proof -
  from assms(1) obtain lo ro where bounds: "region_bounds l = Inr lo" "region_bounds r = Inr ro"
    by (auto simp: overlap_at_def)
  show ?thesis
  proof (cases "\<exists>p q. lo = Some p \<and> ro = Some q")
    case True
    then obtain p q where some: "lo = Some p" "ro = Some q" by blast
    then have "bounded_overlap l r lb rb p q = Inr True" using assms(1) bounds by (simp add: overlap_at_def)
    then have "lb + fst p < rb + snd q" "rb + fst q < lb + snd p" by (auto simp: bounded_overlap_def split: if_splits)
    moreover have "0 \<le> fst p" "snd p \<le> ln" "0 \<le> fst q" "snd q \<le> rn"
      using inside(1) [of "fst p" "snd p"] inside(2) [of "fst q" "snd q"] bounds some by simp_all
    ultimately show ?thesis by simp
  next
    case False
    then have "allocations_overlap ls rs lb rb = Inr True"
      using assms(1) bounds by (auto simp: overlap_at_def split: option.splits)
    then show ?thesis by (simp add: allocations_overlap_def sizes)
  qed
qed

lemma bucket_selected:
  assumes ov: "regions_overlap_uncached b r e core = Inr True" and r: "housed b core r" and e: "housed b core e"
  shows "key_selected b r l core cross (memory_history_key e l core) = Inr True"
proof -
  let ?ro = "region_owner r core" and ?eo = "region_owner e core"
  have scope: "br_scope r = br_scope e" using ov by (auto simp: regions_overlap_uncached_def Let_def split: if_splits)
  have owner: "?ro = ?eo"
  proof (cases "br_scope r \<in> set gm_scopes")
    case True
    then show ?thesis using housedD(1) [OF r] housedD(1) [OF e] scope by (simp add: region_owner_def)
  next
    case False
    then show ?thesis using ov by (auto simp: regions_overlap_uncached_def Let_def split: if_splits)
  qed
  have names: "resolve_active_alias_name b (br_scope e) (if br_scope e \<in> set gm_scopes then None else Some ?eo) (br_buffer e) =
      resolve_active_alias b e ?eo"
    by (simp add: resolve_active_alias_def)
  obtain rs rn where rs: "map_of (bm_buffers b) (resolve_active_alias b r ?ro) = Some rs" "spec_size_bytes rs = Inr (Some rn)"
    "\<And>lo hi. region_bounds r = Inr (Some (lo, hi)) \<Longrightarrow> 0 \<le> lo \<and> hi \<le> rn" using housedD(2) [OF r] by blast
  obtain es en where es: "map_of (bm_buffers b) (resolve_active_alias b e ?eo) = Some es" "spec_size_bytes es = Inr (Some en)"
    "\<And>lo hi. region_bounds e = Inr (Some (lo, hi)) \<Longrightarrow> 0 \<le> lo \<and> hi \<le> en" using housedD(2) [OF e] by blast
  have "memory_history_key_may_overlap b r (memory_history_key e l core) core = Inr True"
  proof (cases "resolve_active_alias b r ?ro = resolve_active_alias b e ?eo")
    case True
    then show ?thesis using owner names by (simp add: memory_history_key_may_overlap_def memory_history_key_def Let_def)
  next
    case False
    then obtain ra ea where base: "bs_address rs = Some ra" "bs_address es = Some ea" and "overlap_at r e rs es ra ea = Inr True"
      using ov rs(1) es(1) by (auto simp: regions_overlap_uncached_def bridge_buffer_def Let_def split: if_splits option.splits)
    then have "ra < ea + en" "ea < ra + rn" using overlap_at_allocations [OF _ rs(2) es(2) rs(3) es(3)] by blast+
    then show ?thesis using False owner names rs es base
      by (simp add: memory_history_key_may_overlap_def memory_history_key_def bridge_buffer_def Let_def)
  qed
  then show ?thesis using scope owner by (simp add: key_selected_def memory_history_key_def)
qed

lemma key_selectedD:
  "key_selected b r l core cross key = Inr True \<Longrightarrow> fst key = l"
  by (auto simp: key_selected_def Let_def split: if_splits)

section \<open>Conflicts stay reachable\<close>

definition meets :: "bridge_memory \<Rightarrow> int \<Rightarrow> buffer_region \<Rightarrow> buffer_region \<Rightarrow> bool" where
  "meets b core r e \<longleftrightarrow> regions_overlap_uncached b r e core = Inr True"

lemma meets_placement: "same_placement b b' \<Longrightarrow> meets b' = meets b"
  by (intro ext) (simp add: meets_def uncached_placement)

lemma housed_placement: "same_placement b b' \<Longrightarrow> housed b' = housed b"
  by (intro ext) (simp add: housed_def placement_lookups [of b b'], simp add: same_placement_def)

text \<open>
  The regions follow a tiling: overlapping is symmetric and transitive among them, as it is when all
  accesses to a buffer go through one partition of it into tiles.
\<close>

definition tiled :: "bridge_memory \<Rightarrow> int \<Rightarrow> buffer_region set \<Rightarrow> bool" where
  "tiled b core regions \<longleftrightarrow> (\<forall>r \<in> regions. housed b core r) \<and>
     (\<forall>x \<in> regions. \<forall>y \<in> regions. meets b core x y \<longrightarrow> meets b core y x) \<and>
     (\<forall>x \<in> regions. \<forall>y \<in> regions. \<forall>z \<in> regions. meets b core x y \<longrightarrow> meets b core y z \<longrightarrow> meets b core x z)"

lemma tiled_placement: "same_placement b b' \<Longrightarrow> tiled b' = tiled b"
  by (intro ext) (simp only: tiled_def housed_placement [of b b'] meets_placement [of b b'])

lemma tiledD:
  assumes "tiled b core regions"
  shows "r \<in> regions \<Longrightarrow> housed b core r"
    "x \<in> regions \<Longrightarrow> y \<in> regions \<Longrightarrow> meets b core x y \<Longrightarrow> meets b core y x"
    "x \<in> regions \<Longrightarrow> y \<in> regions \<Longrightarrow> z \<in> regions \<Longrightarrow> meets b core x y \<Longrightarrow> meets b core y z \<Longrightarrow> meets b core x z"
  using assms unfolding tiled_def by blast+

text \<open>
  An earlier access of task \<open>t\<close> is still in its history, or a write that meets it is, by a task that
  the dependencies \<open>D\<close> place after \<open>t\<close>.
\<close>

definition covered ::
  "bridge_memory \<Rightarrow> int \<Rightarrow> buffer_region set \<Rightarrow> (string \<times> string) set \<Rightarrow> string \<times> lane \<times> history_name \<times> buffer_region \<Rightarrow> bool" where
  "covered b core regions D = (\<lambda>(t, l, h, e).
     filed b h (memory_history_key e l core) (e, t, l, core) \<or>
     (\<exists>w \<in> regions. \<exists>t'. filed b LastWrites (memory_history_key w l core) (w, t', l, core) \<and>
        meets b core e w \<and> (t, t') \<in> D\<^sup>*))"

lemma covered_mono_D: "covered b core regions D a \<Longrightarrow> D \<subseteq> D' \<Longrightarrow> covered b core regions D' a"
  using rtrancl_mono [of D D'] by (cases a) (auto simp: covered_def)

lemma covered_filed_mono:
  assumes "covered b core regions D a" "same_placement b b'"
    and "\<And>h key entry. filed b h key entry \<Longrightarrow> filed b' h key entry"
  shows "covered b' core regions D a"
  using assms(1,3) unfolding covered_def meets_placement [OF assms(2)] by (cases a) fastforce

lemma covered_after_write:
  assumes tiled: "tiled b core regions" and e: "e \<in> regions" and w: "w \<in> regions"
    and cov: "covered b core regions D (t, l', h, e)" and after: "after_write b b' w tid l core"
    and deps: "\<And>h e0 t0. e0 \<in> regions \<Longrightarrow> filed b h (memory_history_key e0 l core) (e0, t0, l, core) \<Longrightarrow>
      meets b core w e0 \<Longrightarrow> (t0, tid) \<in> D\<^sup>*"
  shows "covered b' core regions D (t, l', h, e)"
proof -
  have same: "same_placement b b'" using after by (simp add: after_write_def)
  have new: "filed b' LastWrites (memory_history_key w l core) (w, tid, l, core)" using after unfolding after_write_def by blast
  have survives: "filed b' h0 (memory_history_key e0 l0 core) (e0, t0, l0, core) \<or>
      l0 = l \<and> meets b core w e0 \<and> (t0, tid) \<in> D\<^sup>*"
    if "e0 \<in> regions" "filed b h0 (memory_history_key e0 l0 core) (e0, t0, l0, core)" for h0 e0 t0 l0
  proof (cases "overwritten b w core l (memory_history_key e0 l0 core) (e0, t0, l0, core)")
    case True
    then have "l0 = l" "meets b core w e0"
      using key_selectedD by (fastforce simp: overwritten_def memory_history_key_def, simp add: overwritten_def meets_def)
    then show ?thesis using deps that by blast
  next
    case False
    then show ?thesis using that(2) after unfolding after_write_def by blast
  qed
  have meets': "meets b' = meets b" by (rule meets_placement [OF same])
  from cov consider "filed b h (memory_history_key e l' core) (e, t, l', core)"
    | w0 t' where "w0 \<in> regions" "filed b LastWrites (memory_history_key w0 l' core) (w0, t', l', core)"
        "meets b core e w0" "(t, t') \<in> D\<^sup>*"
    by (auto simp: covered_def)
  then show ?thesis
  proof cases
    case 1
    from survives [OF e 1] show ?thesis
      using new w tiledD(2) [OF tiled w e] by (auto simp: covered_def meets')
  next
    case 2
    from survives [OF 2(1,2)] show ?thesis
    proof
      assume "filed b' LastWrites (memory_history_key w0 l' core) (w0, t', l', core)"
      then show ?thesis using 2 by (auto simp: covered_def meets')
    next
      assume over: "l' = l \<and> meets b core w w0 \<and> (t', tid) \<in> D\<^sup>*"
      then have "meets b core e w" using tiledD(2,3) [OF tiled] 2 e w by blast
      moreover have "(t, tid) \<in> D\<^sup>*" using 2(4) over by (meson rtrancl_trans)
      ultimately show ?thesis using new w over by (auto simp: covered_def meets')
    qed
  qed
qed

text \<open>The accesses a task records, and which of two accesses conflict.\<close>

definition accesses :: "string \<Rightarrow> lane \<Rightarrow> metadata \<Rightarrow> (string \<times> lane \<times> history_name \<times> buffer_region) set" where
  "accesses tid l md =
     (\<lambda>r. (tid, l, LastReads, r)) ` set (operand_regions md read_operands) \<union>
     (\<lambda>w. (tid, l, LastWrites, w)) ` set (operand_regions md write_operands)"

definition touched :: "metadata \<Rightarrow> buffer_region set" where
  "touched md = set (operand_regions md read_operands) \<union> set (operand_regions md write_operands)"

lemma record_writes_covered:
  assumes "for_each (record_write tid core l) b ws = Inr b'" and "caches_ok b" and "same_placement b0 b"
    and tiled: "tiled b0 core regions" and ws: "set ws \<subseteq> regions"
    and own: "\<And>h key e t l' c. filed b h key (e, t, l', c) \<Longrightarrow> filed b0 h key (e, t, l', c) \<or> t = tid"
    and deps: "\<And>w h e t. w \<in> set ws \<Longrightarrow> e \<in> regions \<Longrightarrow> filed b0 h (memory_history_key e l core) (e, t, l, core) \<Longrightarrow>
      meets b0 core w e \<Longrightarrow> (t, tid) \<in> D"
    and A: "\<And>t l' h e. (t, l', h, e) \<in> A \<Longrightarrow> e \<in> regions \<and> covered b core regions D (t, l', h, e)"
  shows "caches_ok b' \<and> same_placement b0 b' \<and>
    (\<forall>a \<in> A \<union> (\<lambda>w. (tid, l, LastWrites, w)) ` set ws. covered b' core regions D a)"
  using assms(1-3) ws own deps A
proof (induction ws arbitrary: b A)
  case Nil
  then show ?case by auto
next
  case (Cons w ws)
  from Cons.prems(1) obtain b1 where step: "record_write tid core l b w = Inr b1"
    and rest: "for_each (record_write tid core l) b1 ws = Inr b'" by (auto split: sum.splits)
  note after = record_write_after [OF Cons.prems(2) step]
  have ok1: "caches_ok b1" and same1: "same_placement b b1" using after by (simp_all add: after_write_def)
  have same01: "same_placement b0 b1" using Cons.prems(3) same1 by (simp add: same_placement_def)
  have w: "w \<in> regions" using Cons.prems(4) by simp
  have b_meets: "meets b = meets b0" by (rule meets_placement [OF Cons.prems(3)])
  have dep: "(t0, tid) \<in> D\<^sup>*" if "e0 \<in> regions" "filed b h (memory_history_key e0 l core) (e0, t0, l, core)" "meets b core w e0"
    for h e0 t0
    using Cons.prems(5) [OF that(2)] Cons.prems(6) [of w e0 h t0] that(1,3) by (auto simp: b_meets)
  have keep: "covered b1 core regions D (t, l', h, e)" if "(t, l', h, e) \<in> A" for t l' h e
  proof (rule covered_after_write [OF _ _ w _ after])
    show "tiled b core regions" using tiled tiled_placement [OF Cons.prems(3)] by simp
  qed (use Cons.prems(7) [OF that] dep in auto)
  have own1: "filed b0 h key (e, t, l', c) \<or> t = tid" if "filed b1 h key (e, t, l', c)" for h key e t l' c
    using that after Cons.prems(5) unfolding after_write_def by blast
  have new: "covered b1 core regions D (tid, l, LastWrites, w)" using after unfolding after_write_def covered_def by blast
  let ?A = "insert (tid, l, LastWrites, w) A"
  have "caches_ok b' \<and> same_placement b0 b' \<and>
      (\<forall>a \<in> ?A \<union> (\<lambda>w. (tid, l, LastWrites, w)) ` set ws. covered b' core regions D a)"
  proof (rule Cons.IH [OF rest ok1 same01])
    show "e \<in> regions \<and> covered b1 core regions D (t, l', h, e)" if "(t, l', h, e) \<in> ?A" for t l' h e
      using that keep new w Cons.prems(7) by auto
  qed (use Cons.prems(4,6) own1 in auto)
  then show ?case by simp
qed

lemma record_reads_covered:
  assumes "caches_ok b" and "\<forall>a \<in> A. covered b core regions D a"
  shows "caches_ok (foldl (\<lambda>b region. append_memory_history LastReads b region tid l core) b rs) \<and>
    same_placement b (foldl (\<lambda>b region. append_memory_history LastReads b region tid l core) b rs) \<and>
    (\<forall>a \<in> A \<union> (\<lambda>r. (tid, l, LastReads, r)) ` set rs.
       covered (foldl (\<lambda>b region. append_memory_history LastReads b region tid l core) b rs) core regions D a)"
  using assms
proof (induction rs arbitrary: b A)
  case Nil
  then show ?case by (simp add: same_placement_def)
next
  case (Cons r rs)
  let ?b1 = "append_memory_history LastReads b r tid l core"
  have add: "added b ?b1 LastReads r tid l core" using Cons.prems(1) by (rule append_memory_history_added)
  then have ok1: "caches_ok ?b1" and same: "same_placement b ?b1" by (simp_all add: added_def)
  have "covered ?b1 core regions D a" if "a \<in> insert (tid, l, LastReads, r) A" for a
  proof (cases "a \<in> A")
    case True
    show ?thesis
      by (rule covered_filed_mono [OF bspec [OF Cons.prems(2) True] same]) (use add in \<open>unfold added_def, blast\<close>)
  next
    case False
    then show ?thesis using that add unfolding added_def covered_def by blast
  qed
  then have "\<forall>a \<in> insert (tid, l, LastReads, r) A. covered ?b1 core regions D a" by blast
  note IH = Cons.IH [OF ok1 this]
  define final where "final = foldl (\<lambda>b region. append_memory_history LastReads b region tid l core) ?b1 rs"
  have "foldl (\<lambda>b region. append_memory_history LastReads b region tid l core) b (r # rs) = final"
    by (simp only: foldl_Cons final_def)
  moreover have "same_placement b final"
    using IH same unfolding final_def [symmetric] by (simp add: same_placement_def)
  moreover have "A \<union> (\<lambda>r. (tid, l, LastReads, r)) ` set (r # rs) = insert (tid, l, LastReads, r) A \<union> (\<lambda>r. (tid, l, LastReads, r)) ` set rs"
    by auto
  ultimately show ?case using IH unfolding final_def [symmetric] by (simp only:) blast
qed

text \<open>A dependency edge for every conflict with an entry that is still filed.\<close>

lemma conflicts_filed:
  assumes "filed b h (memory_history_key e l core) (e, t, l, core)" and "meets b core r e"
    and "housed b core r" and "housed b core e"
  shows "t \<in> conflicts (\<lambda>_ _. True) keep b h r core l"
proof -
  have "key_selected b r l core keep (memory_history_key e l core) = Inr True"
    using assms by (intro bucket_selected) (simp_all add: meets_def)
  moreover have "same_on_chip_owner r core core" by (simp add: same_on_chip_owner_def)
  ultimately show ?thesis using assms(1,2) unfolding conflicts_def meets_def by blast
qed

text \<open>
  One task: its dependencies order it after every earlier access it conflicts with, and the
  histories keep covering all accesses.
\<close>

lemma access_step:
  assumes tiled: "tiled b core regions" and ok: "caches_ok b"
    and deps: "memory_dependencies b md core l op = Inr (ds, b1)" and q: "query b1 b2"
    and rec: "record_memory_accesses b2 tid md' core l = Inr b3"
    and md': "\<forall>names. set names \<subseteq> set (read_operands @ write_operands) \<longrightarrow> operand_regions md' names = operand_regions md names"
    and inside: "touched md \<subseteq> regions" and D: "D \<subseteq> D'" "(\<lambda>d. (d, tid)) ` set ds \<subseteq> D'"
    and all: "\<forall>t l' h e. (t, l', h, e) \<in> A \<longrightarrow> e \<in> regions \<and> covered b core regions D (t, l', h, e)"
  shows "caches_ok b3 \<and> same_placement b b3 \<and> (\<forall>a \<in> A \<union> accesses tid l md. covered b3 core regions D' a)"
    and "(t, l, h, e) \<in> A \<Longrightarrow> (tid, l, h', r) \<in> accesses tid l md \<Longrightarrow> h = LastWrites \<or> h' = LastWrites \<Longrightarrow>
      meets b core r e \<Longrightarrow> (t, tid) \<in> D'\<^sup>+"
proof -
  let ?reads = "operand_regions md read_operands" and ?writes = "operand_regions md write_operands"
  have A: "e \<in> regions \<and> covered b core regions D (t, l', h, e)" if "(t, l', h, e) \<in> A" for t l' h e
    using all that by blast
  note d = memory_dependencies_query [OF ok deps]
  then have q2: "query b b2" using q query_trans by blast
  then have ok2: "caches_ok b2" and mem2: "same_memory b b2" by (simp_all add: query_def)
  have ops: "operand_regions md' read_operands = ?reads" "operand_regions md' write_operands = ?writes" by (simp_all add: md')
  have edge: "(t, tid) \<in> D'" if "h' = LastReads \<Longrightarrow> h = LastWrites" "(tid, l, h', r) \<in> accesses tid l md"
      "filed b h (memory_history_key e l core) (e, t, l, core)" "meets b core r e" "e \<in> regions" for t h h' e r
  proof -
    have "r \<in> regions" using that(2) inside by (auto simp: accesses_def touched_def)
    then have "t \<in> conflicts (\<lambda>_ _. True) (keep_cross_core op) b h r core l"
      using conflicts_filed [OF that(3,4)] tiledD(1) [OF tiled] that(5) by blast
    moreover have "r \<in> set ?reads \<and> h' = LastReads \<or> r \<in> set ?writes" using that(2) by (auto simp: accesses_def)
    ultimately have "t \<in> set ds" using d that(1) unfolding task_conflicts_def by (cases h) blast+
    then show ?thesis using D(2) by blast
  qed
  show "(t, tid) \<in> D'\<^sup>+" if a: "(t, l, h, e) \<in> A" and new: "(tid, l, h', r) \<in> accesses tid l md"
    and kind: "h = LastWrites \<or> h' = LastWrites" and meet: "meets b core r e"
  proof -
    have e: "e \<in> regions" and r: "r \<in> regions" using A [OF a] new inside by (auto simp: accesses_def touched_def)
    from A [OF a] consider "filed b h (memory_history_key e l core) (e, t, l, core)"
      | w t' where "w \<in> regions" "filed b LastWrites (memory_history_key w l core) (w, t', l, core)" "meets b core e w" "(t, t') \<in> D\<^sup>*"
      unfolding covered_def by blast
    then show ?thesis
    proof cases
      case 1
      then show ?thesis using edge [OF _ new 1 meet e] kind by blast
    next
      case 2
      have "meets b core r w" using tiledD(3) [OF tiled r e 2(1) meet 2(3)] .
      then have "(t', tid) \<in> D'" using edge [OF _ new 2(2) _ 2(1)] by blast
      moreover have "(t, t') \<in> D'\<^sup>*" using 2(4) rtrancl_mono [OF D(1)] by blast
      ultimately show ?thesis by (rule rtrancl_into_trancl1 [rotated])
    qed
  qed
  from rec obtain b2' where ws: "for_each (record_write tid core l) b2 ?writes = Inr b2'"
    and b3: "b3 = foldl (\<lambda>b region. append_memory_history LastReads b region tid l core) b2' ?reads"
    by (auto simp: record_memory_accesses_def Let_def ops)
  have "caches_ok b2' \<and> same_placement b b2' \<and>
      (\<forall>a \<in> A \<union> (\<lambda>w. (tid, l, LastWrites, w)) ` set ?writes. covered b2' core regions D' a)"
  proof (rule record_writes_covered [OF ws ok2 same_memory_placement [OF mem2] tiled])
    show "set ?writes \<subseteq> regions" using inside by (simp add: touched_def)
    show "filed b h key (e, t, l', c) \<or> t = tid" if "filed b2 h key (e, t, l', c)" for h key e t l' c
      using that by (simp add: filed_same [OF mem2])
    show "(t, tid) \<in> D'" if "w \<in> set ?writes" "e \<in> regions" "filed b h (memory_history_key e l core) (e, t, l, core)" "meets b core w e"
      for w h e t
      using edge [of LastWrites h w e t] that by (auto simp: accesses_def)
    show "e \<in> regions \<and> covered b2 core regions D' (t, l', h, e)" if "(t, l', h, e) \<in> A" for t l' h e
      using A [OF that] covered_mono_D [OF _ D(1)]
        covered_filed_mono [of b core regions D' "(t, l', h, e)" b2, OF _ same_memory_placement [OF mem2]] filed_same [OF mem2] by blast
  qed
  then have ok2': "caches_ok b2'" and same2': "same_placement b b2'"
    and cov: "\<forall>a \<in> A \<union> (\<lambda>w. (tid, l, LastWrites, w)) ` set ?writes. covered b2' core regions D' a" by blast+
  have "A \<union> accesses tid l md = A \<union> (\<lambda>w. (tid, l, LastWrites, w)) ` set ?writes \<union> (\<lambda>r. (tid, l, LastReads, r)) ` set ?reads"
    by (auto simp: accesses_def)
  with record_reads_covered [OF ok2' cov, where rs = ?reads and tid = tid and l = l] same2'
  show "caches_ok b3 \<and> same_placement b b3 \<and> (\<forall>a \<in> A \<union> accesses tid l md. covered b3 core regions D' a)"
    unfolding b3 [symmetric] by (simp add: same_placement_def)
qed

end
