(* ===== verification/Sim_Bridge_Emit.thy ===== *)
theory Sim_Bridge_Emit
  imports Sim_Bridge_Order Sim_Record
begin

text \<open>
  \<open>_emit_task\<close> of \<^verbatim>\<open>tilelang/simulator/bridge.py\<close>: classification, the pipe of a synchronization marker,
  metadata, memory and alias dependencies, the duration, the task, and the update of the histories.
  The timing profile enters through the estimation method the bridge finds on it.  The properties are
  about a sequence of emitted tasks.
\<close>

section \<open>Emitting one task\<close>

text \<open>\<open>getattr(profile, "estimate_task_with_source", None)\<close>, or else \<open>profile.estimate_task\<close>.\<close>

datatype task_estimator =
    EstimateWithSource "string \<Rightarrow> string \<Rightarrow> metadata \<Rightarrow> (int \<times> string) res"
  | EstimatePlain "string \<Rightarrow> string \<Rightarrow> metadata \<Rightarrow> int res"

text \<open>
  A dynamic predicate is the triple the bridge stores; the TIR condition is an opaque object.  The
  loop environment and the vector index of a context are read by the visitor only.
\<close>

record bridge_context =
  bc_core_id :: int
  bc_lane :: lane
  bc_predicates :: "pyval list"

record tir_bridge =
  tb_memory :: bridge_memory
  tb_tasks :: "(int, task list) dict"
  tb_task_counter :: nat

definition sync_scope_text :: "lane \<Rightarrow> string" where
  "sync_scope_text l = (if l = CUBE then ''aic'' else if l \<in> {VECTOR_0, VECTOR_1} then ''aiv'' else ''mix'')"

text \<open>The metadata before the dependencies are known.\<close>

definition task_base_metadata :: "string \<Rightarrow> string \<Rightarrow> lane \<Rightarrow> pyval list \<Rightarrow> metadata \<Rightarrow> metadata" where
  "task_base_metadata calibration normalized l predicates md =
     (let md1 = (if normalized = ''sync_all'' then dict_setdefault ''sync_scope'' (PStr (sync_scope_text l)) md else md);
          md2 = (if predicates \<noteq> [] then dict_set ''dynamic_predicates'' (PSeq predicates) md1 else md1);
          timing_key = py_str (dict_get md2 ''timing_key'' (PStr normalized));
          md3 = dict_setdefault ''timing_key'' (PStr timing_key) md2
      in dict_setdefault ''timing_calibration'' (PStr calibration) md3)"

definition ids_value :: "string list \<Rightarrow> pyval" where
  "ids_value ids = PSeq (map PStr ids)"

definition set_ids :: "string \<Rightarrow> string list \<Rightarrow> metadata \<Rightarrow> metadata" where
  "set_ids key ids md = (if ids \<noteq> [] then dict_set key (ids_value ids) md else md)"

definition hardware_ids :: "string \<Rightarrow> string list \<Rightarrow> string list \<Rightarrow> string list" where
  "hardware_ids normalized memory extra =
     sorted_ids (if py_contains normalized ''atomic_add'' then extra @ memory else extra)"

definition estimate_duration ::
  "task_estimator \<Rightarrow> string \<Rightarrow> pipe \<Rightarrow> metadata \<Rightarrow> (int \<times> metadata) res" where
  "estimate_duration estimator timing_key p md =
     (case estimator of
        EstimateWithSource estimate \<Rightarrow>
          and_then (estimate timing_key (pipe_value p) md) (\<lambda>(duration, source).
            Inr (duration, dict_set ''timing_source'' (PStr source) md))
      | EstimatePlain estimate \<Rightarrow> and_then (estimate timing_key (pipe_value p) md) (\<lambda>duration. Inr (duration, md)))"

definition bridge_task_id :: "int \<Rightarrow> lane \<Rightarrow> nat \<Rightarrow> string" where
  "bridge_task_id core l counter = ''c'' @ str_of_int core @ ''-'' @ lane_value l @ ''-'' @ str_of_int (int counter)"

text \<open>\<open>if lane is not Lane.CONTROL: pipe = sync_task_pipe(...)\<close> and the scalar store.\<close>

definition placed_pipe :: "lane \<Rightarrow> string \<Rightarrow> metadata \<Rightarrow> pipe \<Rightarrow> pipe res" where
  "placed_pipe l normalized md p =
     and_then (if l \<noteq> CONTROL then sync_task_pipe normalized md p else Inr p) (\<lambda>p'.
       Inr (if normalized = ''buffer_store'' \<and> py_truth (md_get md ''scalar_store'') then SCALAR else p'))"

definition emit_task ::
  "task_estimator \<Rightarrow> string \<Rightarrow> tir_bridge \<Rightarrow> string \<Rightarrow> bridge_context \<Rightarrow> metadata \<Rightarrow> string list \<Rightarrow>
   (task \<times> tir_bridge) res" where
  "emit_task estimator calibration tb op ctx md extra =
     and_then (classify_operation op (bc_lane ctx)) (\<lambda>(l, p0, normalized).
     and_then (placed_pipe l normalized md p0) (\<lambda>p.
       let core = bc_core_id ctx; tid = bridge_task_id core l (tb_task_counter tb);
           base = task_base_metadata calibration normalized l (bc_predicates ctx) md;
           timing_key = py_str (md_get base ''timing_key'')
       in and_then (memory_dependencies (tb_memory tb) base core (bc_lane ctx) normalized) (\<lambda>(memory, b1).
          let md1 = set_ids ''memory_dependencies'' memory base
          in and_then (alias_memory_dependencies b1 md1 core (bc_lane ctx) normalized) (\<lambda>(aliases, b2).
             let md2 = set_ids ''alias_memory_dependencies'' aliases md1;
                 md3 = set_ids ''hardware_dependencies'' (hardware_ids normalized memory extra) md2
             in and_then (estimate_duration estimator timing_key p md3) (\<lambda>(duration, md4).
                and_then (Task tid normalized core (LaneEnum l) (PipeEnum p) duration (sorted_ids (memory @ extra)) None md4)
                  (\<lambda>t. and_then (record_memory_accesses b2 tid (task_metadata t) core (bc_lane ctx)) (\<lambda>b3.
                     Inr (t, \<lparr>tb_memory = b3,
                              tb_tasks = dict_set core (dict_get (tb_tasks tb) core [] @ [t]) (tb_tasks tb),
                              tb_task_counter = tb_task_counter tb + 1\<rparr>)))))))
     )"

section \<open>Emitting a sequence\<close>

text \<open>A call as the traversal hands it over: operation, context, metadata and explicit dependencies.\<close>

type_synonym bridge_call = "string \<times> bridge_context \<times> metadata \<times> string list"

definition emit_step ::
  "task_estimator \<Rightarrow> string \<Rightarrow> task list \<times> tir_bridge \<Rightarrow> bridge_call \<Rightarrow> (task list \<times> tir_bridge) res" where
  "emit_step estimator calibration = (\<lambda>(ts, tb) (op, ctx, md, extra).
     and_then (emit_task estimator calibration tb op ctx md extra) (\<lambda>(t, tb'). Inr (ts @ [t], tb')))"

definition emit_all ::
  "task_estimator \<Rightarrow> string \<Rightarrow> tir_bridge \<Rightarrow> bridge_call list \<Rightarrow> (task list \<times> tir_bridge) res" where
  "emit_all estimator calibration tb calls = for_each (emit_step estimator calibration) ([], tb) calls"

section \<open>What one emission does\<close>

text \<open>The keys the bridge adds are not operand names.\<close>

lemma operand_regions_cong:
  assumes "\<And>name. name \<in> set names \<Longrightarrow> md_get md' name = md_get md name" "md_get md' ''src_regions'' = md_get md ''src_regions''"
  shows "operand_regions md' names = operand_regions md names"
proof -
  have "map (\<lambda>name. if name = ''src'' \<and> is_seq (md_get md' ''src_regions'') then [] else operand_value_regions (md_get md' name)) names =
      map (\<lambda>name. if name = ''src'' \<and> is_seq (md_get md ''src_regions'') then [] else operand_value_regions (md_get md name)) names"
    using assms by (intro map_cong) auto
  then show ?thesis by (simp only: operand_regions_def Let_def)
qed

definition operand_names :: "string list" where
  "operand_names = read_operands @ write_operands"

lemma md_get_set: "md_get (dict_set k v md) k' = (if k = k' then v else md_get md k')"
  by (simp add: md_get_def dict_get_set)

lemma md_get_setdefault: "k \<noteq> k' \<Longrightarrow> md_get (dict_setdefault k v md) k' = md_get md k'"
  by (auto simp: dict_setdefault_def md_get_set split: option.splits)

lemma md_get_set_ids: "k \<noteq> k' \<Longrightarrow> md_get (set_ids k ids md) k' = md_get md k'"
  by (simp add: set_ids_def md_get_set)

text \<open>The operands of the metadata a task carries are those of the call.\<close>

definition same_operands :: "metadata \<Rightarrow> metadata \<Rightarrow> bool" where
  "same_operands md md' \<longleftrightarrow> (\<forall>name \<in> set operand_names. md_get md' name = md_get md name)"

lemma same_operands_trans: "same_operands md md1 \<Longrightarrow> same_operands md1 md2 \<Longrightarrow> same_operands md md2"
  by (simp add: same_operands_def)

lemma same_operands_set:
  "k \<notin> set operand_names \<Longrightarrow> same_operands md (dict_set k v md)"
  "k \<notin> set operand_names \<Longrightarrow> same_operands md (dict_setdefault k v md)"
  "k \<notin> set operand_names \<Longrightarrow> same_operands md (set_ids k ids md)"
  unfolding same_operands_def by (auto simp: md_get_set) (metis md_get_setdefault, metis md_get_set_ids)

lemma same_operands_regions:
  "same_operands md md' \<Longrightarrow> set names \<subseteq> set operand_names \<Longrightarrow> operand_regions md' names = operand_regions md names"
  by (rule operand_regions_cong) (auto simp: same_operands_def operand_names_def read_operands_def)

lemma same_operands_base: "same_operands md (task_base_metadata calibration normalized l predicates md)"
proof -
  have keys: "''sync_scope'' \<notin> set operand_names" "''dynamic_predicates'' \<notin> set operand_names"
    "''timing_key'' \<notin> set operand_names" "''timing_calibration'' \<notin> set operand_names"
    by (simp_all add: operand_names_def read_operands_def write_operands_def)
  have refl: "same_operands md md" by (simp add: same_operands_def)
  show ?thesis unfolding task_base_metadata_def Let_def
    by (auto intro!: same_operands_trans [OF _ same_operands_set(2)] same_operands_trans [OF _ same_operands_set(1)] refl keys)
qed

lemma same_operands_estimate:
  "estimate_duration estimator timing_key p md = Inr (duration, md') \<Longrightarrow> same_operands md md'"
proof -
  have key: "''timing_source'' \<notin> set operand_names" by (simp add: operand_names_def read_operands_def write_operands_def)
  have refl: "same_operands md md" by (simp add: same_operands_def)
  show "estimate_duration estimator timing_key p md = Inr (duration, md') \<Longrightarrow> same_operands md md'"
    using same_operands_set(1) [OF key] refl by (auto simp: estimate_duration_def split: task_estimator.splits)
qed

lemma TaskD:
  assumes "Task tid op core lane_in pipe_in duration deps stg md = Inr t"
  shows "task_id t = tid \<and> dependencies t = deps \<and> task_metadata t = md \<and> core_id t = core"
  using assms by (auto simp: Task_def split: if_splits sum.splits)

text \<open>
  One emission: the dependencies of the task are the explicit ones and those of the memory query, and
  the histories are updated with the operands of the call.
\<close>

lemma emit_task_cases:
  assumes "emit_task estimator calibration tb op ctx md extra = Inr (t, tb')" and ok: "caches_ok (tb_memory tb)"
  obtains l normalized base memory b1 b2 where
    "task_id t = bridge_task_id (bc_core_id ctx) l (tb_task_counter tb)"
    "same_operands md base" "memory_dependencies (tb_memory tb) base (bc_core_id ctx) (bc_lane ctx) normalized = Inr (memory, b1)"
    "query b1 b2" "set (dependencies t) = set memory \<union> set extra"
    "same_operands md (task_metadata t)" "core_id t = bc_core_id ctx"
    "record_memory_accesses b2 (task_id t) (task_metadata t) (bc_core_id ctx) (bc_lane ctx) = Inr (tb_memory tb')"
    "tb_tasks tb' = dict_set (bc_core_id ctx) (dict_get (tb_tasks tb) (bc_core_id ctx) [] @ [t]) (tb_tasks tb)"
    "tb_task_counter tb' = tb_task_counter tb + 1"
proof -
  let ?core = "bc_core_id ctx"
  let ?base = "\<lambda>l n. task_base_metadata calibration n l (bc_predicates ctx) md"
  obtain l p0 normalized where cls: "classify_operation op (bc_lane ctx) = Inr (l, p0, normalized)"
    using assms(1) unfolding emit_task_def by (cases "classify_operation op (bc_lane ctx)") auto
  define base where "base = ?base l normalized"
  define tid where "tid = bridge_task_id ?core l (tb_task_counter tb)"
  note unfolded = assms(1) [unfolded emit_task_def cls and_then_simps prod.case Let_def, folded base_def tid_def]
  obtain p where p: "placed_pipe l normalized md p0 = Inr p" using unfolded by (cases "placed_pipe l normalized md p0") auto
  note unfolded = unfolded [unfolded p and_then_simps]
  obtain memory b1 where mem: "memory_dependencies (tb_memory tb) base ?core (bc_lane ctx) normalized = Inr (memory, b1)"
    using unfolded by (cases "memory_dependencies (tb_memory tb) base ?core (bc_lane ctx) normalized") auto
  note unfolded = unfolded [unfolded mem and_then_simps prod.case]
  define md1 where "md1 = set_ids ''memory_dependencies'' memory base"
  obtain aliases b2 where al: "alias_memory_dependencies b1 md1 ?core (bc_lane ctx) normalized = Inr (aliases, b2)"
    using unfolded unfolding md1_def [symmetric] by (cases "alias_memory_dependencies b1 md1 ?core (bc_lane ctx) normalized") auto
  define md3 where "md3 = set_ids ''hardware_dependencies'' (hardware_ids normalized memory extra)
      (set_ids ''alias_memory_dependencies'' aliases md1)"
  note unfolded = unfolded [folded md1_def, unfolded al and_then_simps prod.case, folded md3_def]
  from unfolded obtain duration md4 b3 where
    est: "estimate_duration estimator (py_str (md_get base ''timing_key'')) p md3 = Inr (duration, md4)"
    and task: "Task tid normalized ?core (LaneEnum l) (PipeEnum p) duration (sorted_ids (memory @ extra)) None md4 = Inr t"
    and rec: "record_memory_accesses b2 tid (task_metadata t) ?core (bc_lane ctx) = Inr b3"
    and tb': "tb' = \<lparr>tb_memory = b3, tb_tasks = dict_set ?core (dict_get (tb_tasks tb) ?core [] @ [t]) (tb_tasks tb),
                              tb_task_counter = tb_task_counter tb + 1\<rparr>"
    by auto
  have keys: "''memory_dependencies'' \<notin> set operand_names" "''alias_memory_dependencies'' \<notin> set operand_names"
    "''hardware_dependencies'' \<notin> set operand_names"
    by (simp_all add: operand_names_def read_operands_def write_operands_def)
  have base: "same_operands md base" unfolding base_def by (rule same_operands_base)
  have "same_operands base md3"
    unfolding md3_def md1_def using same_operands_set(3) keys same_operands_trans by meson
  then have "same_operands md md4" using base same_operands_estimate [OF est] same_operands_trans by blast
  moreover have "caches_ok b1" using memory_dependencies_query [OF ok mem] by (simp add: query_def)
  then have "query b1 b2" using alias_memory_dependencies_query al by blast
  ultimately show ?thesis
    using that [of l base normalized memory b1 b2] TaskD [OF task] mem rec tb' tid_def base by simp
qed

section \<open>Sequences of emissions\<close>

abbreviation call_context :: "bridge_call \<Rightarrow> bridge_context" where
  "call_context c \<equiv> fst (snd c)"

abbreviation call_metadata :: "bridge_call \<Rightarrow> metadata" where
  "call_metadata c \<equiv> fst (snd (snd c))"

definition task_edges :: "task list \<Rightarrow> (string \<times> string) set" where
  "task_edges ts = {(d, task_id t) | d t. t \<in> set ts \<and> d \<in> set (dependencies t)}"

definition call_accesses :: "bridge_call \<Rightarrow> task \<Rightarrow> (string \<times> lane \<times> history_name \<times> buffer_region) set" where
  "call_accesses c t = accesses (task_id t) (bc_lane (call_context c)) (call_metadata c)"

lemma emit_all_snoc:
  "emit_all estimator calibration tb (calls @ [(op, ctx, md, extra)]) = Inr (ts, tb') \<longleftrightarrow>
     (\<exists>ts0 tb0 t. emit_all estimator calibration tb calls = Inr (ts0, tb0) \<and>
        emit_task estimator calibration tb0 op ctx md extra = Inr (t, tb') \<and> ts = ts0 @ [t])"
  by (auto simp: emit_all_def for_each_append emit_step_def split: sum.splits)

lemma accesses_same_operands: "same_operands md md' \<Longrightarrow> accesses tid l md' = accesses tid l md"
  by (simp add: accesses_def same_operands_regions operand_names_def)

lemma touched_same_operands: "same_operands md md' \<Longrightarrow> touched md' = touched md"
  by (simp add: touched_def same_operands_regions operand_names_def)

lemma accesses_touched: "(t, l, h, e) \<in> accesses tid l' md \<Longrightarrow> t = tid \<and> l = l' \<and> e \<in> touched md"
  by (auto simp: accesses_def touched_def)

text \<open>The invariant of a sequence: the histories cover every access, and conflicts are ordered.\<close>

definition ordered_so_far ::
  "bridge_memory \<Rightarrow> int \<Rightarrow> buffer_region set \<Rightarrow> bridge_call list \<Rightarrow> task list \<Rightarrow> bridge_memory \<Rightarrow> bool" where
  "ordered_so_far b core regions calls ts b' \<longleftrightarrow> length ts = length calls \<and> caches_ok b' \<and> same_placement b b' \<and>
     (\<forall>k < length calls. \<forall>a \<in> call_accesses (calls ! k) (ts ! k). covered b' core regions (task_edges ts) a) \<and>
     (\<forall>i j l h r h' s. i < j \<longrightarrow> j < length calls \<longrightarrow>
        (task_id (ts ! i), l, h, r) \<in> call_accesses (calls ! i) (ts ! i) \<longrightarrow>
        (task_id (ts ! j), l, h', s) \<in> call_accesses (calls ! j) (ts ! j) \<longrightarrow>
        h = LastWrites \<or> h' = LastWrites \<longrightarrow> meets b core s r \<longrightarrow>
        (task_id (ts ! i), task_id (ts ! j)) \<in> (task_edges ts)\<^sup>+)"

lemma ordered_step:
  assumes inv: "ordered_so_far b core regions calls ts (tb_memory tb)" and tiled: "tiled b core regions"
    and emit: "emit_task estimator calibration tb op ctx md extra = Inr (t, tb')" and core: "bc_core_id ctx = core"
    and inside: "touched md \<subseteq> regions" "\<forall>c \<in> set calls. touched (call_metadata c) \<subseteq> regions"
  shows "ordered_so_far b core regions (calls @ [(op, ctx, md, extra)]) (ts @ [t]) (tb_memory tb')"
proof -
  let ?b = "tb_memory tb" and ?n = "length calls" and ?D = "task_edges (ts @ [t])" and ?l = "bc_lane ctx"
  have len: "length ts = ?n" and ok: "caches_ok ?b" and same: "same_placement b ?b"
    and cov: "\<And>k a. k < ?n \<Longrightarrow> a \<in> call_accesses (calls ! k) (ts ! k) \<Longrightarrow> covered ?b core regions (task_edges ts) a"
    using inv by (auto simp: ordered_so_far_def)
  obtain l normalized base memory b1 b2 where parts: "same_operands md base"
    "memory_dependencies ?b base core ?l normalized = Inr (memory, b1)" "query b1 b2"
    "set (dependencies t) = set memory \<union> set extra" "same_operands md (task_metadata t)"
    "record_memory_accesses b2 (task_id t) (task_metadata t) core ?l = Inr (tb_memory tb')"
    using emit_task_cases [OF emit ok] core by metis
  define A where "A = (\<Union>k < ?n. call_accesses (calls ! k) (ts ! k))"
  have mono: "task_edges ts \<subseteq> ?D" by (auto simp: task_edges_def)
  have new: "(\<lambda>d. (d, task_id t)) ` set memory \<subseteq> ?D" using parts(4) by (auto simp: task_edges_def)
  have ops: "\<forall>names. set names \<subseteq> set (read_operands @ write_operands) \<longrightarrow>
      operand_regions (task_metadata t) names = operand_regions base names"
    using same_operands_regions [OF parts(1)] same_operands_regions [OF parts(5)] by (simp add: operand_names_def)
  have inA: "\<forall>u l' h e. (u, l', h, e) \<in> A \<longrightarrow> e \<in> regions \<and> covered ?b core regions (task_edges ts) (u, l', h, e)"
  proof (intro allI impI)
    fix u l' h e assume "(u, l', h, e) \<in> A"
    then obtain k where k: "k < ?n" "(u, l', h, e) \<in> call_accesses (calls ! k) (ts ! k)" by (auto simp: A_def)
    then have "e \<in> touched (call_metadata (calls ! k))" unfolding call_accesses_def using accesses_touched by blast
    then show "e \<in> regions \<and> covered ?b core regions (task_edges ts) (u, l', h, e)"
      using inside(2) k cov [OF k] nth_mem by blast
  qed
  have tiled': "tiled ?b core regions" using tiled tiled_placement [OF same] by simp
  have base: "touched base \<subseteq> regions" using inside(1) by (simp add: touched_same_operands [OF parts(1)])
  note step = access_step [OF tiled' ok parts(2,3,6) ops base mono new inA,
      unfolded accesses_same_operands [OF parts(1)] meets_placement [OF same]]
  have fresh: "call_accesses (op, ctx, md, extra) t = accesses (task_id t) ?l md" by (simp add: call_accesses_def)
  have all: "covered (tb_memory tb') core regions ?D a"
    if "k < Suc ?n" "a \<in> call_accesses ((calls @ [(op, ctx, md, extra)]) ! k) ((ts @ [t]) ! k)" for k a
    using that step(1) len by (cases "k = ?n") (auto simp: nth_append A_def fresh less_Suc_eq)
  have order: "(task_id ((ts @ [t]) ! i), task_id ((ts @ [t]) ! j)) \<in> ?D\<^sup>+"
    if ij: "i < j" "j < Suc ?n" and r: "(task_id ((ts @ [t]) ! i), l, h, r) \<in> call_accesses ((calls @ [(op, ctx, md, extra)]) ! i) ((ts @ [t]) ! i)"
      and s: "(task_id ((ts @ [t]) ! j), l, h', s) \<in> call_accesses ((calls @ [(op, ctx, md, extra)]) ! j) ((ts @ [t]) ! j)"
      and kind: "h = LastWrites \<or> h' = LastWrites" and meet: "meets b core s r" for i j l h r h' s
  proof (cases "j = ?n")
    case True
    then have at: "(ts @ [t]) ! i = ts ! i" "(ts @ [t]) ! j = t" "(calls @ [(op, ctx, md, extra)]) ! i = calls ! i"
      "(calls @ [(op, ctx, md, extra)]) ! j = (op, ctx, md, extra)" using ij len by (simp_all add: nth_append)
    have "l = ?l" using s accesses_touched unfolding at fresh by blast
    moreover have "(task_id (ts ! i), l, h, r) \<in> A" using r ij True unfolding at A_def by auto
    ultimately show ?thesis using step(2) [OF _ _ kind meet] s unfolding at fresh by blast
  next
    case False
    then have j: "j < ?n" using ij by simp
    then have "(task_id (ts ! i), task_id (ts ! j)) \<in> (task_edges ts)\<^sup>+"
      using inv ij r s kind meet len unfolding ordered_so_far_def by (auto simp: nth_append)
    then show ?thesis using trancl_mono [OF _ mono] ij j len by (simp add: nth_append)
  qed
  show ?thesis
    unfolding ordered_so_far_def using step(1) len same all order by (auto simp: same_placement_def)
qed

lemma emit_all_ordered:
  assumes "emit_all estimator calibration tb calls = Inr (ts, tb')" and ok: "caches_ok (tb_memory tb)"
    and "\<forall>c \<in> set calls. bc_core_id (call_context c) = core \<and> touched (call_metadata c) \<subseteq> regions"
    and tiled: "tiled (tb_memory tb) core regions"
  shows "ordered_so_far (tb_memory tb) core regions calls ts (tb_memory tb')"
  using assms(1,3)
proof (induction calls arbitrary: ts tb' rule: rev_induct)
  case Nil
  then show ?case using ok by (auto simp: ordered_so_far_def emit_all_def same_placement_def)
next
  case (snoc c calls)
  obtain op ctx md extra where c: "c = (op, ctx, md, extra)" by (cases c)
  from snoc.prems(1) obtain ts0 tb0 t where run: "emit_all estimator calibration tb calls = Inr (ts0, tb0)"
    "emit_task estimator calibration tb0 op ctx md extra = Inr (t, tb')" and ts: "ts = ts0 @ [t]"
    unfolding c emit_all_snoc by blast
  have "ordered_so_far (tb_memory tb) core regions calls ts0 (tb_memory tb0)" using snoc run(1) by simp
  then show ?case unfolding c ts using snoc.prems(2) by (intro ordered_step [OF _ tiled run(2)]) (auto simp: c)
qed

section \<open>Properties\<close>

text \<open>The regions a call reads or writes.\<close>

definition call_regions :: "bridge_call \<Rightarrow> history_name \<Rightarrow> buffer_region set" where
  "call_regions c h = set (operand_regions (call_metadata c) (case h of LastWrites \<Rightarrow> write_operands | LastReads \<Rightarrow> read_operands))"


definition demo_region :: "int \<Rightarrow> int \<Rightarrow> buffer_region" where
  "demo_region start n = \<lparr>br_buffer = ''u'', br_scope = UB, br_shape = [RInt n], br_dtype = ''float16'',
     br_byte_offset = RInt start, br_strides_bytes = None, br_core_id = Some 0\<rparr>"

definition demo_bridge :: tir_bridge where
  "demo_bridge = \<lparr>tb_memory = \<lparr>bm_buffers = [(''u'', \<lparr>bs_name = ''u'', bs_scope = UB, bs_shape = [RInt 64], bs_dtype = ''float16'',
        bs_size_bytes = None, bs_address = Some 0, bs_lifetime = None, bs_metadata = []\<rparr>)],
       bm_last_writes = [], bm_last_reads = [], bm_active_aliases = [], bm_overlap_cache = [], bm_candidate_cache = []\<rparr>,
     tb_tasks = [], tb_task_counter = 0\<rparr>"

definition demo_call :: "string \<Rightarrow> metadata \<Rightarrow> bridge_call" where
  "demo_call op md = (op, \<lparr>bc_core_id = 0, bc_lane = VECTOR_0, bc_predicates = []\<rparr>, md, [])"

definition unit_estimator :: task_estimator where
  "unit_estimator = EstimatePlain (\<lambda>op p md. Inr 1)"

definition demo_calls :: "bridge_call list" where
  "demo_calls =
     [demo_call ''copy_gm_to_ub'' [(''dst'', PRegion (demo_region 0 32))],
      demo_call ''exp'' [(''src'', PRegion (demo_region 0 32)), (''dst'', PRegion (demo_region 64 32))],
      demo_call ''copy_gm_to_ub'' [(''dst'', PRegion (demo_region 0 32))]]"

lemma caches_ok_empty: "bm_overlap_cache b = [] \<Longrightarrow> bm_candidate_cache b = [] \<Longrightarrow> caches_ok b"
  by (simp add: caches_ok_def overlap_cache_ok_def candidate_cache_ok_def)

text \<open>What a run returned.\<close>

definition emitted :: "(task list \<times> tir_bridge) res \<Rightarrow> task list" where
  "emitted r = (case r of Inl e \<Rightarrow> [] | Inr (ts, tb) \<Rightarrow> ts)"

abbreviation demo_run :: "bridge_call list \<Rightarrow> (task list \<times> tir_bridge) res" where
  "demo_run calls \<equiv> emit_all unit_estimator ''uncalibrated'' demo_bridge calls"

lemma emitted_Inr: "emitted r \<noteq> [] \<Longrightarrow> \<exists>tb. r = Inr (emitted r, tb)"
  by (auto simp: emitted_def split: sum.splits)

lemma demo_ids: "map task_id (emitted (demo_run demo_calls)) = [''c0-vector0-0'', ''c0-vector0-1'', ''c0-vector0-2'']"
  by code_simp


text \<open>Three tasks over one buffer, the second of which overwrites a part of what the first wrote.\<close>

definition partial_calls :: "bridge_call list" where
  "partial_calls =
     [demo_call ''copy_gm_to_ub'' [(''dst'', PRegion (demo_region 0 64))],
      demo_call ''fill'' [(''dst'', PRegion (demo_region 0 16))],
      demo_call ''exp'' [(''src'', PRegion (demo_region 64 16))]]"

lemma partial_edges: "map (\<lambda>t. (task_id t, dependencies t)) (emitted (demo_run partial_calls)) =
    [(''c0-vector0-0'', []), (''c0-vector0-1'', [''c0-vector0-0'']), (''c0-vector0-2'', [])]"
  by code_simp

lemma task_edges_pairs:
  "task_edges ts = (\<Union>(tid, ds) \<in> set (map (\<lambda>t. (task_id t, dependencies t)) ts). (\<lambda>d. (d, tid)) ` set ds)"
  by (auto simp: task_edges_def)


end
