(* ===== verification/Sim_Bridge_Unit_Flags.thy ===== *)
theory Sim_Bridge_Unit_Flags
  imports Sim_Bridge_Regions Sim_Bridge_Ops
begin

text \<open>
  \<open>_validate_unit_flag_pairs\<close> of \<^verbatim>\<open>tilelang/simulator/bridge.py\<close>: the readable and writable bits of the
  512-byte blocks of L0C.  An MMA with unit flag 2 holds its blocks, one with unit flag 3 makes them
  readable, and a fixpipe copy with unit flag 3 consumes them.  The pass rejects a broken hand-over
  and adds the hand-over as hardware dependencies.
\<close>

section \<open>Blocks of a region\<close>

datatype l0c_allocation = AtAddress | InBuffer string

type_synonym l0c_block = "l0c_allocation \<times> int"

definition unit_blocks :: "bridge_memory \<Rightarrow> int \<Rightarrow> pyval \<Rightarrow> l0c_block list res" where
  "unit_blocks b core v =
     (case v of
        PRegion region \<Rightarrow>
          and_then (region_is_contiguous region) (\<lambda>contiguous.
            if \<not> contiguous then Inl (UnsupportedSimOpError ''unitFlag requires concrete contiguous L0C regions'')
            else and_then (region_bounds region) (\<lambda>bounds. case bounds of
              None \<Rightarrow> Inl (UnsupportedSimOpError ''unitFlag requires static L0C byte bounds'')
            | Some (lo, hi) \<Rightarrow>
                let name = resolve_active_alias b region core
                in and_then (bridge_buffer b name) (\<lambda>spec.
                  let allocation = (case bs_address spec of Some _ \<Rightarrow> AtAddress | None \<Rightarrow> InBuffer name);
                      base = (case bs_address spec of Some a \<Rightarrow> a | None \<Rightarrow> 0);
                      first = base + lo; stop = base + hi
                  in if first mod 512 \<noteq> 0 \<or> stop mod 512 \<noteq> 0
                     then Inl (UnsupportedSimOpError ''unitFlag L0C regions must span complete 512B blocks'')
                     else Inr (map (\<lambda>block. (allocation, block)) [first div 512..stop div 512 - 1]))))
      | _ \<Rightarrow> Inl (UnsupportedSimOpError ''unitFlag requires concrete contiguous L0C regions''))"

section \<open>Annotations\<close>

text \<open>\<open>metadata.get(key, ())\<close> as task identifiers, which are strings.\<close>

fun id_of :: "pyval \<Rightarrow> string res" where
  "id_of (PStr s) = Inr s"
| "id_of _ = Inl (TypeError ''task identifiers must be strings'')"

definition id_list :: "metadata \<Rightarrow> string \<Rightarrow> string list res" where
  "id_list md key = and_then (py_iter (dict_get md key (PSeq []))) (map_res id_of)"

definition merge_ids :: "string list \<Rightarrow> string list \<Rightarrow> string list" where
  "merge_ids xs ys = sort (remdups (xs @ ys))"

definition ids_seq :: "string list \<Rightarrow> pyval" where
  "ids_seq ids = PSeq (map PStr ids)"

text \<open>\<open>replace(task, metadata=..., dependencies=...)\<close> runs the task constructor again.\<close>

definition replace_task :: "task \<Rightarrow> metadata \<Rightarrow> string list \<Rightarrow> task res" where
  "replace_task t md deps =
     Task (task_id t) (operation t) (core_id t) (LaneEnum (task_lane t)) (PipeEnum (task_pipe t))
       (duration_cycles t) deps (stage t) md"

definition annotated_metadata ::
  "metadata \<Rightarrow> string \<Rightarrow> string list \<Rightarrow> string list \<Rightarrow> string list \<Rightarrow> metadata" where
  "annotated_metadata md role edges flag_edges pair_ids =
     (let md1 = dict_set ''unit_flag_role'' (PStr role) md;
          md2 = dict_set ''hardware_dependencies'' (ids_seq edges) md1;
          md3 = dict_set ''unit_flag_dependencies'' (ids_seq flag_edges) md2
      in if pair_ids = [] then md3
         else dict_set ''unit_flag_pair'' (PStr (hd pair_ids)) (dict_set ''unit_flag_pairs'' (ids_seq pair_ids) md3))"

definition annotate :: "task list \<Rightarrow> nat \<Rightarrow> string \<Rightarrow> string list \<Rightarrow> string list \<Rightarrow> task list res" where
  "annotate tasks index role hardware peers =
     (let t = tasks ! index; md = task_metadata t in
      and_then (id_list md ''hardware_dependencies'') (\<lambda>known.
      and_then (id_list md ''unit_flag_pairs'') (\<lambda>pairs.
      and_then (id_list md ''unit_flag_dependencies'') (\<lambda>flagged.
        let edges = merge_ids known hardware
        in and_then (replace_task t (annotated_metadata md role edges (merge_ids flagged hardware) (merge_ids pairs peers))
                       (merge_ids (dependencies t) edges)) (\<lambda>t'.
             Inr (tasks[index := t']))))))"

section \<open>The pass\<close>

type_synonym unit_states = "(l0c_block, nat option \<times> nat option) dict"

definition block_state :: "unit_states \<Rightarrow> l0c_block \<Rightarrow> nat option \<times> nat option" where
  "block_state states block = dict_get states block (None, None)"

text \<open>The unit flag of an \<open>mma\<close> or \<open>copy\<close> entry.\<close>

definition flag_of :: "pyval \<Rightarrow> pyval" where
  "flag_of v = (case v of PMap d \<Rightarrow> md_get d ''unit_flag'' | _ \<Rightarrow> PNone)"

definition is_unit_mma :: "task \<Rightarrow> bool" where
  "is_unit_mma t \<longleftrightarrow> flag_of (md_get (task_metadata t) ''mma'') \<in> {PInt 2, PInt 3}"

definition is_release :: "task \<Rightarrow> bool" where
  "is_release t \<longleftrightarrow> flag_of (md_get (task_metadata t) ''mma'') = PInt 3"

definition is_unit_fix :: "task \<Rightarrow> bool" where
  "is_unit_fix t \<longleftrightarrow> operation t = ''copy_l0c_to_gm'' \<and> flag_of (md_get (task_metadata t) ''copy'') = PInt 3"

text \<open>The first loop of an MMA: no block may be readable; the copies that cleared the blocks are predecessors.\<close>

definition mma_predecessor ::
  "task list \<Rightarrow> unit_states \<Rightarrow> string list \<Rightarrow> l0c_block \<Rightarrow> string list res" where
  "mma_predecessor tasks states predecessors block =
     (case block_state states block of
        (Some writer, _) \<Rightarrow> Inl (ProgramValidationError
          ''unitFlag MMA overwrites readable L0C before a following paired fixpipe'')
      | (None, None) \<Rightarrow> Inr predecessors
      | (None, Some clear) \<Rightarrow> Inr (task_id (tasks ! clear) # predecessors))"

definition fix_writer :: "unit_states \<Rightarrow> nat list \<Rightarrow> l0c_block \<Rightarrow> nat list res" where
  "fix_writer states writers block =
     (case block_state states block of
        (None, _) \<Rightarrow> Inl (ProgramValidationError
          ''unitFlag fixpipe requires a preceding paired MMA for every L0C block'')
      | (Some writer, _) \<Rightarrow> Inr (writer # writers))"

definition mma_step ::
  "bridge_memory \<Rightarrow> int \<Rightarrow> unit_states \<times> task list \<Rightarrow> nat \<Rightarrow> (unit_states \<times> task list) res" where
  "mma_step b core = (\<lambda>(states, tasks) index.
     let t = tasks ! index; release = is_release t in
     and_then (unit_blocks b core (md_get (task_metadata t) ''dst'')) (\<lambda>touched.
     and_then (for_each (mma_predecessor tasks states) [] touched) (\<lambda>predecessors.
     and_then (annotate tasks index (if release then ''release'' else ''hold'') predecessors []) (\<lambda>tasks'.
       Inr (foldl (\<lambda>st block. dict_set block (if release then Some index else None, snd (block_state st block)) st)
              states touched, tasks')))))"

definition fix_step ::
  "bridge_memory \<Rightarrow> int \<Rightarrow> unit_states \<times> task list \<Rightarrow> nat \<Rightarrow> (unit_states \<times> task list) res" where
  "fix_step b core = (\<lambda>(states, tasks) index.
     let t = tasks ! index in
     and_then (unit_blocks b core (md_get (task_metadata t) ''src'')) (\<lambda>touched.
     and_then (for_each (fix_writer states) [] touched) (\<lambda>found.
       let writers = sort (remdups found); producers = map (\<lambda>w. task_id (tasks ! w)) writers
       in and_then (annotate tasks index ''consume'' producers producers) (\<lambda>tasks1.
          and_then (for_each (\<lambda>ts w. annotate ts w ''release'' [] [task_id t]) tasks1 writers) (\<lambda>tasks2.
            Inr (foldl (\<lambda>st block. dict_set block (None, Some index) st) states touched, tasks2))))))"

definition unit_flag_step ::
  "bridge_memory \<Rightarrow> int \<Rightarrow> unit_states \<times> task list \<Rightarrow> nat \<Rightarrow> (unit_states \<times> task list) res" where
  "unit_flag_step b core s index =
     (if is_unit_mma (snd s ! index) then mma_step b core s index
      else if is_unit_fix (snd s ! index) then fix_step b core s index
      else Inr s)"

definition validate_core_unit_flags :: "bridge_memory \<Rightarrow> int \<Rightarrow> task list \<Rightarrow> task list res" where
  "validate_core_unit_flags b core tasks =
     and_then (for_each (unit_flag_step b core) ([], tasks) [0..<length tasks]) (\<lambda>(states, tasks').
       if (\<exists>(block, writer, clear) \<in> set states. writer \<noteq> None)
       then Inl (ProgramValidationError ''unitFlag MMA requires a following paired fixpipe'')
       else Inr tasks')"

text \<open>\<open>for core_id, tasks in self.tasks.items()\<close>, each list updated in place.\<close>

definition validate_unit_flag_pairs ::
  "bridge_memory \<Rightarrow> (int, task list) dict \<Rightarrow> (int, task list) dict res" where
  "validate_unit_flag_pairs b tasks =
     map_res (\<lambda>(core, ts). and_then (validate_core_unit_flags b core ts) (\<lambda>ts'. Inr (core, ts'))) tasks"

end
