(* ===== verification/Sim_Bridge_Build.thy ===== *)
theory Sim_Bridge_Build
  imports Sim_Bridge_Emit Sim_Bridge_Unit_Flags
begin

text \<open>
  The life of a \<open>_TirBridge\<close> of \<^verbatim>\<open>tilelang/simulator/bridge.py\<close> around the emission of tasks: buffer
  declarations against the memory plan, the capacity a matrix layout reserves, the end of
  \<open>_emit_call\<close>, and \<open>build\<close>, which turns the emitted tasks into a \<open>KernelProgram\<close>.  The relation
  \<open>bridge_reachable\<close> holds of every state a traversal can reach through these operations, in any order.
\<close>

section \<open>Buffers\<close>

text \<open>\<open>address_by_var\<close>, \<open>size_by_var\<close> and \<open>initial_shape_by_var\<close>, collected from the attributes of the \<open>PrimFunc\<close>.\<close>

record memory_plan =
  mp_address_by_var :: "(string, int) dict"
  mp_size_by_var :: "(string, int) dict"
  mp_initial_shape_by_var :: "(string, int list) dict"

definition plan_entry :: "(string, int) dict \<Rightarrow> string \<times> int option \<Rightarrow> (string, int) dict res" where
  "plan_entry destination = (\<lambda>(name, number).
     case number of
       None \<Rightarrow> Inl (ProgramValidationError ''PrimFunc attribute must contain non-negative integers'')
     | Some n \<Rightarrow> if n < 0 then Inl (ProgramValidationError ''PrimFunc attribute must contain non-negative integers'')
                 else Inr (dict_set name n destination))"

text \<open>A shape enters when all its extents are known and not negative.\<close>

definition shape_entry :: "(string, int list) dict \<Rightarrow> string \<times> int option list \<Rightarrow> (string, int list) dict" where
  "shape_entry destination = (\<lambda>(name, extents).
     if (\<forall>extent \<in> set extents. case extent of None \<Rightarrow> False | Some n \<Rightarrow> 0 \<le> n)
     then dict_set name (map the extents) destination else destination)"

text \<open>
  \<open>_collect_memory_plan\<close>: each attribute as the pairs of variable name and \<open>_const_int\<close> of the value;
  an absent attribute is empty.
\<close>

definition collect_memory_plan ::
  "(string \<times> int option) list \<Rightarrow> (string \<times> int option) list \<Rightarrow> (string \<times> int option list) list \<Rightarrow> memory_plan res" where
  "collect_memory_plan address_map size_map initial_buffer_shapes =
     and_then (for_each plan_entry [] address_map) (\<lambda>addresses.
     and_then (for_each plan_entry [] size_map) (\<lambda>sizes.
       Inr \<lparr>mp_address_by_var = addresses, mp_size_by_var = sizes,
            mp_initial_shape_by_var = foldl shape_entry [] initial_buffer_shapes\<rparr>))"

definition planned_spec :: "memory_plan \<Rightarrow> string \<Rightarrow> memory_scope \<Rightarrow> rt_int list \<Rightarrow> string \<Rightarrow> buffer_spec res" where
  "planned_spec plan name scope shape dtype =
     (let address = map_of (mp_address_by_var plan) name; size_bytes = map_of (mp_size_by_var plan) name
      in BufferSpec name (ScopeEnum scope) shape dtype size_bytes address None
           (if address \<noteq> None then [(''planned_address'', PBool True)] else []))"

text \<open>\<open>self.buffers.setdefault(name, self._buffer_spec(...))\<close>, for parameters, allocations and block buffers.\<close>

definition declare_buffer ::
  "memory_plan \<Rightarrow> bridge_memory \<Rightarrow> string \<Rightarrow> memory_scope \<Rightarrow> rt_int list \<Rightarrow> string \<Rightarrow> bridge_memory res" where
  "declare_buffer plan b name scope shape dtype =
     and_then (planned_spec plan name scope shape dtype) (\<lambda>spec.
       Inr (b\<lparr>bm_buffers := dict_setdefault name spec (bm_buffers b)\<rparr>))"

text \<open>\<open>replace(spec, size_bytes=..., metadata=...)\<close> runs the constructor again.\<close>

definition replace_spec :: "buffer_spec \<Rightarrow> int \<Rightarrow> metadata \<Rightarrow> buffer_spec res" where
  "replace_spec spec size_bytes md =
     BufferSpec (bs_name spec) (ScopeEnum (bs_scope spec)) (bs_shape spec) (bs_dtype spec) (Some size_bytes)
       (bs_address spec) (map_option (\<lambda>(start, stop). [IntVal start, IntVal stop]) (bs_lifetime spec)) md"

text \<open>The reserved capacity so far; only this method writes the entry, as an integer.\<close>

definition layout_capacity :: "metadata \<Rightarrow> int res" where
  "layout_capacity md =
     (case dict_get md ''layout_capacity'' (PInt 0) of
        PInt n \<Rightarrow> Inr n | _ \<Rightarrow> Inl (TypeError ''layout capacity must be an integer''))"

definition reserve_layout_capacity :: "bridge_memory \<Rightarrow> string \<Rightarrow> int \<Rightarrow> string \<Rightarrow> bridge_memory res" where
  "reserve_layout_capacity b name required_bytes layout =
     and_then (bridge_buffer b name) (\<lambda>spec.
     and_then (spec_size_bytes spec) (\<lambda>current.
       case current of
         None \<Rightarrow> Inr b
       | Some capacity \<Rightarrow>
           if required_bytes \<le> capacity then Inr b
           else if \<not> py_truth (md_get (bs_metadata spec) ''planned_address'') then Inr b
           else and_then (layout_capacity (bs_metadata spec)) (\<lambda>reserved.
                and_then (replace_spec spec required_bytes
                    (dict_set ''layout_capacity_layout'' (PStr layout)
                      (dict_set ''layout_capacity'' (PInt (max reserved required_bytes)) (bs_metadata spec))))
                  (\<lambda>spec'. Inr (b\<lparr>bm_buffers := dict_set name spec' (bm_buffers b)\<rparr>)))))"

section \<open>The end of a call\<close>

text \<open>
  The end of \<open>_emit_call\<close>: the task, and the alias a \<open>reinterpretcast\<close> makes active.  A large
  \<open>gemm_v0\<close> is expanded into several such emissions.
\<close>

definition emit_call ::
  "task_estimator \<Rightarrow> string \<Rightarrow> tir_bridge \<Rightarrow> string \<Rightarrow> bridge_context \<Rightarrow> metadata \<Rightarrow> string list \<Rightarrow> (task \<times> tir_bridge) res" where
  "emit_call estimator calibration tb op ctx md extra =
     and_then (emit_task estimator calibration tb op ctx md extra) (\<lambda>(t, tb').
       Inr (t, if short_operation op = ''reinterpretcast''
               then tb'\<lparr>tb_memory := activate_alias (tb_memory tb') md\<rparr> else tb'))"

section \<open>Building the program\<close>

definition empty_bridge :: tir_bridge where
  "empty_bridge = \<lparr>tb_memory = \<lparr>bm_buffers = [], bm_last_writes = [], bm_last_reads = [], bm_active_aliases = [],
     bm_overlap_cache = [], bm_candidate_cache = []\<rparr>, tb_tasks = [], tb_task_counter = 0\<rparr>"

definition core_programs :: "(int, task list) dict \<Rightarrow> core_program list res" where
  "core_programs tasks = map_res (\<lambda>core. CoreProgram core (dict_get tasks core [])) (sort (map fst tasks))"

definition program_metadata :: "string \<Rightarrow> int \<Rightarrow> metadata" where
  "program_metadata calibration loop_break_count =
     [(''timing_calibration'', PStr calibration), (''source'', PStr ''final-optimized-tir''),
      (''loop_break_count'', PInt loop_break_count)]"

definition bridge_build :: "string \<Rightarrow> int \<Rightarrow> tir_bridge \<Rightarrow> string \<Rightarrow> string \<Rightarrow> kernel_program res" where
  "bridge_build calibration loop_break_count tb kernel_name platform =
     and_then (validate_unit_flag_pairs (tb_memory tb) (tb_tasks tb)) (\<lambda>tasks.
     and_then (core_programs tasks) (\<lambda>cores.
     and_then (if cores = [] then map_sum id (\<lambda>core. [core]) (CoreProgram 0 []) else Inr cores) (\<lambda>cores.
       KernelProgram kernel_name platform cores (map snd (bm_buffers (tb_memory tb)))
         (program_metadata calibration loop_break_count))))"

section \<open>Reachable states\<close>

text \<open>The keys the bridge itself adds are not in the metadata the visitor hands over.\<close>

definition visitor_metadata :: "metadata \<Rightarrow> bool" where
  "visitor_metadata md \<longleftrightarrow>
     (\<forall>key \<in> {''hardware_dependencies'', ''unit_flag_pairs'', ''unit_flag_dependencies''}. map_of md key = None)"

text \<open>
  The second argument lists the identifiers emitted so far: explicit dependencies name earlier tasks,
  as in the expansion of \<open>gemm_v0\<close>, which also assigns its slot buffers.
\<close>

inductive bridge_reachable :: "task_estimator \<Rightarrow> string \<Rightarrow> memory_plan \<Rightarrow> tir_bridge \<Rightarrow> string list \<Rightarrow> bool"
  for estimator :: task_estimator and calibration :: string and plan :: memory_plan where
  start: "bridge_reachable estimator calibration plan empty_bridge []"
| declared: "bridge_reachable estimator calibration plan tb ids \<Longrightarrow>
    declare_buffer plan (tb_memory tb) name scope shape dtype = Inr b \<Longrightarrow>
    bridge_reachable estimator calibration plan (tb\<lparr>tb_memory := b\<rparr>) ids"
| assigned: "bridge_reachable estimator calibration plan tb ids \<Longrightarrow>
    BufferSpec name scope_in shape dtype size_bytes address lifetime md = Inr spec \<Longrightarrow>
    b = tb_memory tb \<Longrightarrow>
    bridge_reachable estimator calibration plan (tb\<lparr>tb_memory := b\<lparr>bm_buffers := dict_set name spec (bm_buffers b)\<rparr>\<rparr>) ids"
| reserved: "bridge_reachable estimator calibration plan tb ids \<Longrightarrow>
    reserve_layout_capacity (tb_memory tb) name required_bytes layout = Inr b \<Longrightarrow>
    bridge_reachable estimator calibration plan (tb\<lparr>tb_memory := b\<rparr>) ids"
| called: "bridge_reachable estimator calibration plan tb ids \<Longrightarrow>
    emit_call estimator calibration tb op ctx md extra = Inr (t, tb') \<Longrightarrow>
    set extra \<subseteq> set ids \<Longrightarrow> visitor_metadata md \<Longrightarrow>
    bridge_reachable estimator calibration plan tb' (ids @ [task_id t])"

end
