(* ===== verification/Sim_Bridge_Unit_Props.thy ===== *)
theory Sim_Bridge_Unit_Props
  imports Sim_Bridge_Unit_Flags
begin

text \<open>
  The unit-flag pass against a protocol of one block: every block goes through holds, a release and a
  consume, again and again.  The pass accepts a task list exactly when every block keeps the protocol,
  and each hand-over of a block becomes a dependency.
\<close>

section \<open>The protocol of one block\<close>

datatype unit_event = UHold | URelease | UConsume

definition unit_event_of :: "task \<Rightarrow> (unit_event \<times> pyval) option" where
  "unit_event_of t =
     (if is_unit_mma t then Some (if is_release t then URelease else UHold, md_get (task_metadata t) ''dst'')
      else if is_unit_fix t then Some (UConsume, md_get (task_metadata t) ''src'')
      else None)"

definition geometry_ok :: "bridge_memory \<Rightarrow> int \<Rightarrow> task \<Rightarrow> bool" where
  "geometry_ok b core t =
     (case unit_event_of t of
        None \<Rightarrow> True
      | Some (e, v) \<Rightarrow> (case unit_blocks b core v of Inl err \<Rightarrow> False | Inr blocks \<Rightarrow> True))"

definition block_event :: "bridge_memory \<Rightarrow> int \<Rightarrow> l0c_block \<Rightarrow> task \<Rightarrow> unit_event option" where
  "block_event b core block t =
     (case unit_event_of t of
        None \<Rightarrow> None
      | Some (e, v) \<Rightarrow>
          (case unit_blocks b core v of
             Inl err \<Rightarrow> None
           | Inr blocks \<Rightarrow> if block \<in> set blocks then Some e else None))"

text \<open>The readable bit of a block over a list of events; \<open>None\<close> when the protocol is broken.\<close>

fun run_block :: "bool \<Rightarrow> unit_event option list \<Rightarrow> bool option" where
  "run_block readable [] = Some readable"
| "run_block readable (None # events) = run_block readable events"
| "run_block readable (Some UHold # events) = (if readable then None else run_block False events)"
| "run_block readable (Some URelease # events) = (if readable then None else run_block True events)"
| "run_block readable (Some UConsume # events) = (if readable then run_block False events else None)"

text \<open>A block keeps the protocol: never written while readable, never consumed while not, drained at the end.\<close>

definition keeps_protocol :: "bridge_memory \<Rightarrow> int \<Rightarrow> task list \<Rightarrow> l0c_block \<Rightarrow> bool" where
  "keeps_protocol b core tasks block \<longleftrightarrow> run_block False (map (block_event b core block) tasks) = Some False"

text \<open>Task \<open>i\<close> hands the block over to task \<open>j\<close>: produced data to its reader, free space to its next writers.\<close>

definition hands_over :: "bridge_memory \<Rightarrow> int \<Rightarrow> task list \<Rightarrow> l0c_block \<Rightarrow> nat \<Rightarrow> nat \<Rightarrow> bool" where
  "hands_over b core tasks block i j \<longleftrightarrow> i < j \<and>
     (let event = (\<lambda>k. block_event b core block (tasks ! k)) in
      event i = Some URelease \<and> event j = Some UConsume \<and> (\<forall>k \<in> {i<..<j}. event k = None) \<or>
      event i = Some UConsume \<and> event j \<in> {Some UHold, Some URelease} \<and> (\<forall>k \<in> {i<..<j}. event k \<noteq> Some UConsume))"

lemma run_block_append:
  "run_block readable (xs @ ys) = (case run_block readable xs of None \<Rightarrow> None | Some r \<Rightarrow> run_block r ys)"
  by (induction readable xs rule: run_block.induct) auto

section \<open>Annotations\<close>

text \<open>What an annotation keeps of a task.\<close>

definition same_unit :: "task \<Rightarrow> task \<Rightarrow> bool" where
  "same_unit t t' \<longleftrightarrow> task_id t' = task_id t \<and> operation t' = operation t \<and>
     (\<forall>key \<in> {''mma'', ''copy'', ''dst'', ''src''}. md_get (task_metadata t') key = md_get (task_metadata t) key) \<and>
     set (dependencies t) \<subseteq> set (dependencies t')"

lemma same_unit_refl [simp]: "same_unit t t"
  by (simp add: same_unit_def)

lemma same_unit_trans: "same_unit t t1 \<Longrightarrow> same_unit t1 t2 \<Longrightarrow> same_unit t t2"
  by (auto simp: same_unit_def)

lemma same_unit_event: "same_unit t t' \<Longrightarrow> unit_event_of t' = unit_event_of t"
  by (simp add: same_unit_def unit_event_of_def is_unit_mma_def is_unit_fix_def is_release_def)

text \<open>A constructed task whose recorded identifiers can be read back.\<close>

definition annotatable :: "task \<Rightarrow> bool" where
  "annotatable t \<longleftrightarrow> task_wf t \<and>
     (case (id_list (task_metadata t) ''hardware_dependencies'', id_list (task_metadata t) ''unit_flag_pairs'',
            id_list (task_metadata t) ''unit_flag_dependencies'') of
        (Inr known, Inr pairs, Inr flagged) \<Rightarrow> task_id t \<notin> set known
      | _ \<Rightarrow> False)"

lemma set_merge_ids [simp]: "set (merge_ids xs ys) = set xs \<union> set ys" "distinct (merge_ids xs ys)"
  by (simp_all add: merge_ids_def)

lemma map_res_id_of: "map_res id_of (map PStr ids) = Inr ids"
  by (induction ids) auto

lemma id_list_set: "id_list (dict_set key v md) key' = (if key = key' then and_then (py_iter v) (map_res id_of) else id_list md key')"
  by (simp add: id_list_def dict_get_set)

lemma id_list_ids_seq: "and_then (py_iter (ids_seq ids)) (map_res id_of) = Inr ids"
  by (simp add: ids_seq_def map_res_id_of)

lemma annotated_ids:
  "id_list (annotated_metadata md role edges flag_edges pair_ids) ''hardware_dependencies'' = Inr edges"
  "id_list (annotated_metadata md role edges flag_edges pair_ids) ''unit_flag_dependencies'' = Inr flag_edges"
  "id_list (annotated_metadata md role edges flag_edges pair_ids) ''unit_flag_pairs'' =
     (if pair_ids = [] then id_list md ''unit_flag_pairs'' else Inr pair_ids)"
  by (auto simp: annotated_metadata_def Let_def id_list_set id_list_ids_seq)

lemma annotated_keys:
  "key \<in> {''mma'', ''copy'', ''dst'', ''src''} \<Longrightarrow>
     md_get (annotated_metadata md role edges flag_edges pair_ids) key = md_get md key"
  by (auto simp: annotated_metadata_def Let_def md_get_def dict_get_set)

lemma replace_task_cases:
  assumes "task_wf t"
  shows "replace_task t md deps =
    (if task_id t \<in> set deps then Inl (ProgramValidationError ''task cannot depend on itself'')
     else if \<not> distinct deps then Inl (ProgramValidationError ''task has duplicate dependencies'')
     else Inr (t\<lparr>dependencies := deps, task_metadata := md\<rparr>))"
  using assms by (cases t) (auto simp: replace_task_def Task_def task_wf_def)

text \<open>An annotation that does not name the task itself succeeds and can be repeated.\<close>

lemma annotate_total:
  assumes i: "i < length tasks" and ok: "annotatable (tasks ! i)" and own: "task_id (tasks ! i) \<notin> set hardware"
  shows "\<exists>t'. annotate tasks i role hardware peers = Inr (tasks[i := t']) \<and> annotatable t' \<and> same_unit (tasks ! i) t' \<and>
    set hardware \<subseteq> set (dependencies t')"
proof -
  let ?t = "tasks ! i" and ?md = "task_metadata (tasks ! i)"
  obtain known pairs flagged where ids: "id_list ?md ''hardware_dependencies'' = Inr known"
    "id_list ?md ''unit_flag_pairs'' = Inr pairs" "id_list ?md ''unit_flag_dependencies'' = Inr flagged"
    and wf: "task_wf ?t" and known: "task_id ?t \<notin> set known"
    using ok by (auto simp: annotatable_def split: sum.splits)
  define edges where "edges = merge_ids known hardware"
  define md where "md = annotated_metadata ?md role edges (merge_ids flagged hardware) (merge_ids pairs peers)"
  define t' where "t' = ?t\<lparr>dependencies := merge_ids (dependencies ?t) edges, task_metadata := md\<rparr>"
  have fresh: "task_id ?t \<notin> set edges" using own known by (simp add: edges_def)
  have deps: "task_id ?t \<notin> set (dependencies ?t)" using wf by (simp add: task_wf_def)
  have "annotate tasks i role hardware peers = Inr (tasks[i := t'])"
    unfolding annotate_def Let_def ids and_then_simps edges_def [symmetric] md_def [symmetric] replace_task_cases [OF wf]
    using fresh deps by (simp add: t'_def edges_def)
  moreover have "annotatable t'"
    using wf fresh deps ids by (simp add: annotatable_def t'_def md_def annotated_ids task_wf_def)
  moreover have "same_unit ?t t'" by (simp add: same_unit_def t'_def md_def annotated_keys)
  moreover have "set hardware \<subseteq> set (dependencies t')" by (auto simp: t'_def edges_def)
  ultimately show ?thesis by blast
qed

text \<open>Lists that differ by annotations only.\<close>

definition annotated_from :: "task list \<Rightarrow> task list \<Rightarrow> bool" where
  "annotated_from ts ts' \<longleftrightarrow> length ts' = length ts \<and>
     (\<forall>k < length ts. same_unit (ts ! k) (ts' ! k) \<and> annotatable (ts' ! k))"

lemma annotated_from_update:
  "annotated_from ts ts1 \<Longrightarrow> i < length ts \<Longrightarrow> same_unit (ts1 ! i) t' \<Longrightarrow> annotatable t' \<Longrightarrow> annotated_from ts (ts1[i := t'])"
  by (auto simp: annotated_from_def nth_list_update intro: same_unit_trans)

lemma dependencies_update:
  "same_unit (ts ! i) t' \<Longrightarrow> k < length ts \<Longrightarrow> set (dependencies (ts ! k)) \<subseteq> set (dependencies (ts[i := t'] ! k))"
  by (cases "k = i") (auto simp: same_unit_def)

lemma annotate_writers:
  assumes "annotated_from ts ts1" "\<forall>w \<in> set writers. w < length ts"
  shows "\<exists>ts2. for_each (\<lambda>ts w. annotate ts w ''release'' [] [tid]) ts1 writers = Inr ts2 \<and> annotated_from ts ts2 \<and>
    (\<forall>k < length ts. set (dependencies (ts1 ! k)) \<subseteq> set (dependencies (ts2 ! k)))"
  using assms
proof (induction writers arbitrary: ts1)
  case Nil
  then show ?case by simp
next
  case (Cons w writers)
  have w: "w < length ts1" "annotatable (ts1 ! w)" using Cons.prems by (auto simp: annotated_from_def)
  obtain t' where t': "annotate ts1 w ''release'' [] [tid] = Inr (ts1[w := t'])" "annotatable t'" "same_unit (ts1 ! w) t'"
    using annotate_total [OF w, of "[]" "''release''" "[tid]"] by auto
  have "annotated_from ts (ts1[w := t'])" using Cons.prems t' by (intro annotated_from_update) auto
  from Cons.IH [OF this] Cons.prems(2) obtain ts2 where
    ts2: "for_each (\<lambda>ts w. annotate ts w ''release'' [] [tid]) (ts1[w := t']) writers = Inr ts2" "annotated_from ts ts2"
    "\<forall>k < length ts. set (dependencies (ts1[w := t'] ! k)) \<subseteq> set (dependencies (ts2 ! k))" by auto
  have "set (dependencies (ts1 ! k)) \<subseteq> set (dependencies (ts1[w := t'] ! k))" if "k < length ts" for k
    using dependencies_update [OF t'(3)] that Cons.prems(1) by (auto simp: annotated_from_def)
  then have "\<forall>k < length ts. set (dependencies (ts1 ! k)) \<subseteq> set (dependencies (ts2 ! k))" using ts2(3) by blast
  with ts2 t'(1) show ?case by (intro exI [of _ ts2]) simp
qed

section \<open>The loops over the blocks of a task\<close>

lemma mma_predecessors:
  "if \<forall>block \<in> set touched. fst (block_state states block) = None
   then \<exists>ps. for_each (mma_predecessor tasks states) acc touched = Inr ps \<and>
     set ps = set acc \<union> (\<Union>block \<in> set touched. {task_id (tasks ! c) | c. snd (block_state states block) = Some c})
   else \<exists>e. for_each (mma_predecessor tasks states) acc touched = Inl e"
proof (induction touched arbitrary: acc)
  case Nil
  then show ?case by simp
next
  case (Cons block touched)
  obtain w c where bs: "block_state states block = (w, c)" by (cases "block_state states block")
  show ?case
  proof (cases w)
    case (Some writer)
    then show ?thesis by (simp add: mma_predecessor_def bs)
  next
    case None
    define acc' where "acc' = (case c of None \<Rightarrow> acc | Some k \<Rightarrow> task_id (tasks ! k) # acc)"
    have step: "mma_predecessor tasks states acc block = Inr acc'"
      by (simp add: mma_predecessor_def bs None acc'_def split: option.splits)
    have set': "set acc' = set acc \<union> {task_id (tasks ! k) | k. c = Some k}"
      by (auto simp: acc'_def split: option.splits)
    show ?thesis
    proof (cases "\<forall>block \<in> set touched. fst (block_state states block) = None")
      case True
      with Cons.IH [of acc'] obtain ps where "for_each (mma_predecessor tasks states) acc' touched = Inr ps"
        "set ps = set acc' \<union> (\<Union>block \<in> set touched. {task_id (tasks ! c) | c. snd (block_state states block) = Some c})" by auto
      then show ?thesis using True step None bs set' by (simp add: Un_assoc)
    next
      case False
      with Cons.IH [of acc'] show ?thesis using step by auto
    qed
  qed
qed

lemma fix_writers:
  "if \<forall>block \<in> set touched. fst (block_state states block) \<noteq> None
   then \<exists>ws. for_each (fix_writer states) acc touched = Inr ws \<and>
     set ws = set acc \<union> {w. \<exists>block \<in> set touched. fst (block_state states block) = Some w}
   else \<exists>e. for_each (fix_writer states) acc touched = Inl e"
proof (induction touched arbitrary: acc)
  case Nil
  then show ?case by simp
next
  case (Cons block touched)
  obtain w c where bs: "block_state states block = (w, c)" by (cases "block_state states block")
  show ?case
  proof (cases w)
    case None
    then show ?thesis by (simp add: fix_writer_def bs)
  next
    case (Some k)
    have step: "fix_writer states acc block = Inr (k # acc)" by (simp add: fix_writer_def bs Some)
    show ?thesis
    proof (cases "\<forall>block \<in> set touched. fst (block_state states block) \<noteq> None")
      case True
      with Cons.IH [of "k # acc"] obtain ws where "for_each (fix_writer states) (k # acc) touched = Inr ws"
        "set ws = set (k # acc) \<union> {w. \<exists>block \<in> set touched. fst (block_state states block) = Some w}" by auto
      then show ?thesis using True step Some bs by auto
    next
      case False
      with Cons.IH [of "k # acc"] show ?thesis using step by auto
    qed
  qed
qed

lemma block_state_set: "block_state (dict_set block v states) block' = (if block = block' then v else block_state states block')"
  by (simp add: block_state_def dict_get_set)

lemma mma_states:
  "block_state (foldl (\<lambda>st block. dict_set block (w, snd (block_state st block)) st) states touched) block =
     (if block \<in> set touched then (w, snd (block_state states block)) else block_state states block)"
  by (induction touched arbitrary: states) (auto simp: block_state_set)

lemma fix_states:
  "block_state (foldl (\<lambda>st block. dict_set block v st) states touched) block =
     (if block \<in> set touched then v else block_state states block)"
  by (induction touched arbitrary: states) (auto simp: block_state_set)

section \<open>The invariant\<close>

text \<open>
  After \<open>n\<close> tasks: the bits of every block follow its events, the writer and the clearing copy of a
  block are its last release and consume, and the hand-overs so far are dependencies.
\<close>

definition unit_inv :: "bridge_memory \<Rightarrow> int \<Rightarrow> task list \<Rightarrow> nat \<Rightarrow> unit_states \<Rightarrow> task list \<Rightarrow> bool" where
  "unit_inv b core ts0 n states ts \<longleftrightarrow> annotated_from ts0 ts \<and>
     (\<forall>block. run_block False (map (block_event b core block) (take n ts0)) = Some (fst (block_state states block) \<noteq> None)) \<and>
     (\<forall>block i. fst (block_state states block) = Some i \<longrightarrow> i < n \<and> block_event b core block (ts0 ! i) = Some URelease \<and>
        (\<forall>k \<in> {i<..<n}. block_event b core block (ts0 ! k) = None)) \<and>
     (\<forall>block. case snd (block_state states block) of
        None \<Rightarrow> \<forall>k < n. block_event b core block (ts0 ! k) \<noteq> Some UConsume
      | Some c \<Rightarrow> c < n \<and> block_event b core block (ts0 ! c) = Some UConsume \<and>
          (\<forall>k \<in> {c<..<n}. block_event b core block (ts0 ! k) \<noteq> Some UConsume)) \<and>
     (\<forall>block i j. j < n \<longrightarrow> hands_over b core ts0 block i j \<longrightarrow> task_id (ts0 ! i) \<in> set (dependencies (ts ! j)))"

text \<open>The state of a block after an event of task \<open>n\<close>, and the events the state allows.\<close>

fun next_state :: "nat \<Rightarrow> nat option \<times> nat option \<Rightarrow> unit_event option \<Rightarrow> nat option \<times> nat option" where
  "next_state n bs None = bs"
| "next_state n bs (Some UHold) = (None, snd bs)"
| "next_state n bs (Some URelease) = (Some n, snd bs)"
| "next_state n bs (Some UConsume) = (None, Some n)"

fun allowed :: "nat option \<times> nat option \<Rightarrow> unit_event option \<Rightarrow> bool" where
  "allowed bs None = True"
| "allowed bs (Some UConsume) = (fst bs \<noteq> None)"
| "allowed bs (Some _) = (fst bs = None)"

text \<open>The task a block is taken over from.\<close>

fun taken_from :: "nat option \<times> nat option \<Rightarrow> unit_event option \<Rightarrow> nat option" where
  "taken_from bs None = None"
| "taken_from bs (Some UConsume) = fst bs"
| "taken_from bs (Some _) = snd bs"

lemma run_block_one: "run_block (fst bs \<noteq> None) [e] = (if allowed bs e then Some (fst (next_state n bs e) \<noteq> None) else None)"
proof (cases e)
  case (Some x)
  then show ?thesis by (cases x) auto
qed simp

lemma unit_inv_Suc:
  assumes inv: "unit_inv b core ts0 n states ts" and n: "n < length ts0" and upd: "annotated_from ts0 ts'"
    and states': "\<And>block. block_state states' block = next_state n (block_state states block) (block_event b core block (ts0 ! n))"
    and ok: "\<And>block. allowed (block_state states block) (block_event b core block (ts0 ! n))"
    and mono: "\<And>k. k < length ts0 \<Longrightarrow> set (dependencies (ts ! k)) \<subseteq> set (dependencies (ts' ! k))"
    and new: "\<And>block i. taken_from (block_state states block) (block_event b core block (ts0 ! n)) = Some i \<Longrightarrow>
      task_id (ts0 ! i) \<in> set (dependencies (ts' ! n))"
  shows "unit_inv b core ts0 (Suc n) states' ts'"
proof -
  let ?ev = "\<lambda>block k. block_event b core block (ts0 ! k)" and ?bs = "block_state states"
  have run: "run_block False (map (block_event b core block) (take n ts0)) = Some (fst (?bs block) \<noteq> None)"
    and writer: "fst (?bs block) = Some i \<Longrightarrow> i < n \<and> ?ev block i = Some URelease \<and> (\<forall>k \<in> {i<..<n}. ?ev block k = None)"
    and clear: "case snd (?bs block) of None \<Rightarrow> \<forall>k < n. ?ev block k \<noteq> Some UConsume
      | Some c \<Rightarrow> c < n \<and> ?ev block c = Some UConsume \<and> (\<forall>k \<in> {c<..<n}. ?ev block k \<noteq> Some UConsume)"
    and deps: "j < n \<Longrightarrow> hands_over b core ts0 block i j \<Longrightarrow> task_id (ts0 ! i) \<in> set (dependencies (ts ! j))" for block i j
    using inv unfolding unit_inv_def by blast+
  have "run_block False (map (block_event b core block) (take (Suc n) ts0)) = Some (fst (block_state states' block) \<noteq> None)" for block
    using run [of block] ok [of block] run_block_one [of "?bs block" "?ev block n" n]
    by (simp add: take_Suc_conv_app_nth [OF n] run_block_append states')
  moreover have "i < Suc n \<and> ?ev block i = Some URelease \<and> (\<forall>k \<in> {i<..<Suc n}. ?ev block k = None)"
    if "fst (block_state states' block) = Some i" for block i
  proof (cases "?ev block n")
    case None
    then show ?thesis using that writer [of block i] by (auto simp: states' less_Suc_eq)
  next
    case (Some e)
    then show ?thesis using that by (cases e) (auto simp: states')
  qed
  moreover have "case snd (block_state states' block) of None \<Rightarrow> \<forall>k < Suc n. ?ev block k \<noteq> Some UConsume
      | Some c \<Rightarrow> c < Suc n \<and> ?ev block c = Some UConsume \<and> (\<forall>k \<in> {c<..<Suc n}. ?ev block k \<noteq> Some UConsume)" for block
  proof (cases "?ev block n = Some UConsume")
    case True
    then show ?thesis by (auto simp: states')
  next
    case False
    then have "snd (block_state states' block) = snd (?bs block)"
      by (cases "?ev block n"; cases "the (?ev block n)") (auto simp: states')
    then show ?thesis using clear [of block] False by (auto simp: less_Suc_eq split: option.splits)
  qed
  moreover have "task_id (ts0 ! i) \<in> set (dependencies (ts' ! j))" if j: "j < Suc n" and h: "hands_over b core ts0 block i j" for block i j
  proof (cases "j = n")
    case False
    then show ?thesis using deps [OF _ h] mono [of j] j n by force
  next
    case True
    have "taken_from (?bs block) (?ev block n) = Some i"
    proof (cases "?ev block n = Some UConsume")
      case consume: True
      then have i: "i < n" "?ev block i = Some URelease" "\<forall>k \<in> {i<..<n}. ?ev block k = None"
        using h True by (auto simp: hands_over_def Let_def)
      obtain w where w: "fst (?bs block) = Some w" using ok [of block] consume by auto
      have "w = i" using writer [OF w] i by (metis greaterThanLessThan_iff linorder_neqE_nat option.distinct(1))
      then show ?thesis using w consume by simp
    next
      case False
      then have i: "i < n" "?ev block i = Some UConsume" "?ev block n \<in> {Some UHold, Some URelease}"
        "\<forall>k \<in> {i<..<n}. ?ev block k \<noteq> Some UConsume" using h True by (auto simp: hands_over_def Let_def)
      obtain c where c: "snd (?bs block) = Some c" using clear [of block] i by (auto split: option.splits)
      have "c = i" using clear [of block] i unfolding c option.case by (metis greaterThanLessThan_iff linorder_neqE_nat)
      then show ?thesis using c i(3) by auto
    qed
    then show ?thesis using new True by blast
  qed
  ultimately show ?thesis using upd unfolding unit_inv_def by blast
qed

section \<open>One task of the pass\<close>

lemma block_event_mma:
  assumes "is_unit_mma t" "unit_blocks b core (md_get (task_metadata t) ''dst'') = Inr touched"
  shows "block_event b core block t =
    (if block \<in> set touched then Some (if is_release t then URelease else UHold) else None)"
  using assms by (simp add: block_event_def unit_event_of_def)

lemma block_event_fix:
  assumes "\<not> is_unit_mma t" "is_unit_fix t" "unit_blocks b core (md_get (task_metadata t) ''src'') = Inr touched"
  shows "block_event b core block t = (if block \<in> set touched then Some UConsume else None)"
  using assms by (simp add: block_event_def unit_event_of_def)

lemma same_unit_kind:
  assumes "same_unit t t'"
  shows "is_unit_mma t' = is_unit_mma t" "is_unit_fix t' = is_unit_fix t" "is_release t' = is_release t"
    "md_get (task_metadata t') ''dst'' = md_get (task_metadata t) ''dst''"
    "md_get (task_metadata t') ''src'' = md_get (task_metadata t) ''src''" "task_id t' = task_id t"
  using assms by (auto simp: same_unit_def is_unit_mma_def is_unit_fix_def is_release_def)

lemma unit_inv_index:
  assumes "unit_inv b core ts0 n states ts"
  shows "fst (block_state states block) = Some i \<Longrightarrow> i < n" "snd (block_state states block) = Some i \<Longrightarrow> i < n"
proof -
  have "\<forall>block i. fst (block_state states block) = Some i \<longrightarrow> i < n" using assms unfolding unit_inv_def by blast
  then show "fst (block_state states block) = Some i \<Longrightarrow> i < n" by blast
  have "case snd (block_state states block) of None \<Rightarrow> \<forall>k < n. block_event b core block (ts0 ! k) \<noteq> Some UConsume
      | Some c \<Rightarrow> c < n \<and> block_event b core block (ts0 ! c) = Some UConsume \<and>
          (\<forall>k \<in> {c<..<n}. block_event b core block (ts0 ! k) \<noteq> Some UConsume)"
    using assms unfolding unit_inv_def by blast
  then show "snd (block_state states block) = Some i \<Longrightarrow> i < n" by simp
qed

lemma earlier_id:
  assumes upd: "annotated_from ts0 ts" and n: "n < length ts0" and ids: "distinct (map task_id ts0)" and c: "c < n"
  shows "task_id (ts ! c) \<noteq> task_id (ts ! n)"
proof -
  have "task_id (ts ! k) = task_id (ts0 ! k)" if "k < length ts0" for k
    using upd that by (auto simp: annotated_from_def same_unit_def)
  moreover have "map task_id ts0 ! c \<noteq> map task_id ts0 ! n" using ids n c by (subst nth_eq_iff_index_eq) auto
  ultimately show ?thesis using n c by simp
qed

text \<open>The pass handles a task exactly when every block allows the event, and keeps the invariant.\<close>

lemma mma_step_inv:
  assumes inv: "unit_inv b core ts0 n states ts" and n: "n < length ts0" and ids: "distinct (map task_id ts0)"
    and mma: "is_unit_mma (ts0 ! n)" and geo: "geometry_ok b core (ts0 ! n)"
  shows "if \<forall>block. allowed (block_state states block) (block_event b core block (ts0 ! n))
    then \<exists>states' ts'. mma_step b core (states, ts) n = Inr (states', ts') \<and> unit_inv b core ts0 (Suc n) states' ts'
    else \<exists>e. mma_step b core (states, ts) n = Inl e"
proof -
  let ?t = "ts ! n" and ?e = "if is_release (ts0 ! n) then URelease else UHold"
  have upd: "annotated_from ts0 ts" using inv by (simp add: unit_inv_def)
  then have unit: "same_unit (ts0 ! k) (ts ! k)" "annotatable (ts ! k)" if "k < length ts0" for k
    using that by (auto simp: annotated_from_def)
  obtain touched where touched: "unit_blocks b core (md_get (task_metadata (ts0 ! n)) ''dst'') = Inr touched"
    using geo mma by (auto simp: geometry_ok_def unit_event_of_def split: sum.splits)
  note event = block_event_mma [OF mma touched]
  note kind = same_unit_kind [OF unit(1) [OF n]]
  have blocks: "unit_blocks b core (md_get (task_metadata ?t) ''dst'') = Inr touched" using touched kind by simp
  have free: "(\<forall>block. allowed (block_state states block) (block_event b core block (ts0 ! n))) \<longleftrightarrow>
      (\<forall>block \<in> set touched. fst (block_state states block) = None)"
    by (auto simp: event)
  show ?thesis
  proof (cases "\<forall>block \<in> set touched. fst (block_state states block) = None")
    case False
    then obtain e where "for_each (mma_predecessor ts states) [] touched = Inl e"
      using mma_predecessors [of touched states ts "[]", unfolded if_not_P [OF False]] by blast
    then show ?thesis using False free by (simp add: mma_step_def blocks Let_def)
  next
    case True
    then obtain ps where ps: "for_each (mma_predecessor ts states) [] touched = Inr ps"
      "set ps = (\<Union>block \<in> set touched. {task_id (ts ! c) | c. snd (block_state states block) = Some c})"
      using mma_predecessors [of touched states ts "[]", unfolded if_P [OF True]] by auto
    have "task_id ?t \<notin> set ps"
      using earlier_id [OF upd n ids] unit_inv_index(2) [OF inv] by (fastforce simp: ps(2))
    then obtain t' where t': "annotate ts n (if is_release ?t then ''release'' else ''hold'') ps [] = Inr (ts[n := t'])"
      "annotatable t'" "same_unit ?t t'" "set ps \<subseteq> set (dependencies t')"
      using annotate_total [of n ts ps "if is_release ?t then ''release'' else ''hold''" "[]"] unit(2) [OF n] n upd
      by (auto simp: annotated_from_def)
    define states' where "states' = foldl (\<lambda>st block. dict_set block (if is_release ?t then Some n else None, snd (block_state st block)) st) states touched"
    have run: "mma_step b core (states, ts) n = Inr (states', ts[n := t'])"
      unfolding mma_step_def prod.case Let_def blocks and_then_simps ps(1) t'(1) states'_def by (rule refl)
    have "unit_inv b core ts0 (Suc n) states' (ts[n := t'])"
    proof (rule unit_inv_Suc [OF inv n])
      show "annotated_from ts0 (ts[n := t'])" using upd t' n by (intro annotated_from_update) auto
      show "block_state states' block = next_state n (block_state states block) (block_event b core block (ts0 ! n))" for block
        by (simp add: states'_def mma_states event kind True)
      show "allowed (block_state states block) (block_event b core block (ts0 ! n))" for block using True free by blast
      show "set (dependencies (ts ! k)) \<subseteq> set (dependencies (ts[n := t'] ! k))" if "k < length ts0" for k
        using dependencies_update [OF t'(3), of k] that upd by (simp add: annotated_from_def)
      show "task_id (ts0 ! i) \<in> set (dependencies (ts[n := t'] ! n))"
        if taken: "taken_from (block_state states block) (block_event b core block (ts0 ! n)) = Some i" for block i
      proof -
        have "block \<in> set touched" "snd (block_state states block) = Some i" using taken by (auto simp: event split: if_splits)
        then have "task_id (ts ! i) \<in> set ps" by (auto simp: ps(2))
        moreover have "i < n" using unit_inv_index(2) [OF inv \<open>snd (block_state states block) = Some i\<close>] .
        ultimately show ?thesis using t'(4) same_unit_kind(6) [OF unit(1)] n upd by (auto simp: annotated_from_def)
      qed
    qed
    then show ?thesis using run True free by simp
  qed
qed

lemma fix_step_inv:
  assumes inv: "unit_inv b core ts0 n states ts" and n: "n < length ts0" and ids: "distinct (map task_id ts0)"
    and copy: "\<not> is_unit_mma (ts0 ! n)" "is_unit_fix (ts0 ! n)" and geo: "geometry_ok b core (ts0 ! n)"
  shows "if \<forall>block. allowed (block_state states block) (block_event b core block (ts0 ! n))
    then \<exists>states' ts'. fix_step b core (states, ts) n = Inr (states', ts') \<and> unit_inv b core ts0 (Suc n) states' ts'
    else \<exists>e. fix_step b core (states, ts) n = Inl e"
proof -
  let ?t = "ts ! n"
  have upd: "annotated_from ts0 ts" using inv by (simp add: unit_inv_def)
  then have unit: "same_unit (ts0 ! k) (ts ! k)" "annotatable (ts ! k)" if "k < length ts0" for k
    using that by (auto simp: annotated_from_def)
  obtain touched where touched: "unit_blocks b core (md_get (task_metadata (ts0 ! n)) ''src'') = Inr touched"
    using geo copy by (auto simp: geometry_ok_def unit_event_of_def split: sum.splits)
  note event = block_event_fix [OF copy touched]
  have blocks: "unit_blocks b core (md_get (task_metadata ?t) ''src'') = Inr touched"
    using touched same_unit_kind [OF unit(1) [OF n]] by simp
  have full: "(\<forall>block. allowed (block_state states block) (block_event b core block (ts0 ! n))) \<longleftrightarrow>
      (\<forall>block \<in> set touched. fst (block_state states block) \<noteq> None)"
    by (auto simp: event)
  show ?thesis
  proof (cases "\<forall>block \<in> set touched. fst (block_state states block) \<noteq> None")
    case False
    then obtain e where "for_each (fix_writer states) [] touched = Inl e"
      using fix_writers [of touched states "[]", unfolded if_not_P [OF False]] by blast
    then have "fix_step b core (states, ts) n = Inl e" by (simp add: fix_step_def blocks Let_def)
    then show ?thesis unfolding full using False by simp
  next
    case True
    then obtain ws where ws: "for_each (fix_writer states) [] touched = Inr ws"
      "set ws = {w. \<exists>block \<in> set touched. fst (block_state states block) = Some w}"
      using fix_writers [of touched states "[]", unfolded if_P [OF True]] by auto
    define writers where "writers = sort (remdups ws)"
    define producers where "producers = map (\<lambda>w. task_id (ts ! w)) writers"
    have early: "w < n" if "w \<in> set writers" for w
      using that unit_inv_index(1) [OF inv] by (auto simp: writers_def ws(2))
    have inside: "\<forall>w \<in> set writers. w < length ts0" using early n by (auto intro: less_trans)
    have "task_id ?t \<notin> set producers"
      using earlier_id [OF upd n ids] early by (fastforce simp: producers_def)
    then obtain t' where t': "annotate ts n ''consume'' producers producers = Inr (ts[n := t'])"
      "annotatable t'" "same_unit ?t t'" "set producers \<subseteq> set (dependencies t')"
      using annotate_total [of n ts producers "''consume''" producers] unit(2) [OF n] n upd
      by (auto simp: annotated_from_def)
    have upd1: "annotated_from ts0 (ts[n := t'])" using upd t' n by (intro annotated_from_update) auto
    obtain ts2 where ts2: "for_each (\<lambda>ts w. annotate ts w ''release'' [] [task_id ?t]) (ts[n := t']) writers = Inr ts2"
      "annotated_from ts0 ts2" "\<forall>k < length ts0. set (dependencies (ts[n := t'] ! k)) \<subseteq> set (dependencies (ts2 ! k))"
      using annotate_writers [OF upd1 inside, of "task_id ?t"] by blast
    define states' where "states' = foldl (\<lambda>st block. dict_set block (None, Some n) st) states touched"
    have run: "fix_step b core (states, ts) n = Inr (states', ts2)"
      unfolding fix_step_def prod.case Let_def blocks and_then_simps ws(1) writers_def [symmetric] producers_def [symmetric]
        t'(1) ts2(1) states'_def by (rule refl)
    have "unit_inv b core ts0 (Suc n) states' ts2"
    proof (rule unit_inv_Suc [OF inv n ts2(2)])
      show "block_state states' block = next_state n (block_state states block) (block_event b core block (ts0 ! n))" for block
        by (simp add: states'_def fix_states event)
      show "allowed (block_state states block) (block_event b core block (ts0 ! n))" for block using True full by blast
      show "set (dependencies (ts ! k)) \<subseteq> set (dependencies (ts2 ! k))" if "k < length ts0" for k
        using dependencies_update [OF t'(3), of k] ts2(3) that upd by (auto simp: annotated_from_def)
      show "task_id (ts0 ! i) \<in> set (dependencies (ts2 ! n))"
        if taken: "taken_from (block_state states block) (block_event b core block (ts0 ! n)) = Some i" for block i
      proof -
        have i: "i \<in> set writers" using taken by (auto simp: event writers_def ws(2) split: if_splits)
        then have "task_id (ts ! i) \<in> set (dependencies t')" using t'(4) by (auto simp: producers_def)
        moreover have "task_id (ts ! i) = task_id (ts0 ! i)" using same_unit_kind(6) [OF unit(1)] early [OF i] n by simp
        moreover have "set (dependencies t') \<subseteq> set (dependencies (ts2 ! n))"
          using ts2(3) [rule_format, OF n] n upd by (simp add: annotated_from_def)
        ultimately show ?thesis by auto
      qed
    qed
    then show ?thesis using run True full by simp
  qed
qed

lemma unit_flag_step_inv:
  assumes inv: "unit_inv b core ts0 n states ts" and n: "n < length ts0" and ids: "distinct (map task_id ts0)"
    and geo: "geometry_ok b core (ts0 ! n)"
  shows "if \<forall>block. allowed (block_state states block) (block_event b core block (ts0 ! n))
    then \<exists>states' ts'. unit_flag_step b core (states, ts) n = Inr (states', ts') \<and> unit_inv b core ts0 (Suc n) states' ts'
    else \<exists>e. unit_flag_step b core (states, ts) n = Inl e"
proof -
  have upd: "annotated_from ts0 ts" using inv by (simp add: unit_inv_def)
  then have "same_unit (ts0 ! n) (ts ! n)" using n by (simp add: annotated_from_def)
  note kind = same_unit_kind [OF this]
  consider "is_unit_mma (ts0 ! n)" | "\<not> is_unit_mma (ts0 ! n)" "is_unit_fix (ts0 ! n)"
    | "\<not> is_unit_mma (ts0 ! n)" "\<not> is_unit_fix (ts0 ! n)" by blast
  then show ?thesis
  proof cases
    case 1
    then show ?thesis using mma_step_inv [OF inv n ids 1 geo] kind by (simp add: unit_flag_step_def)
  next
    case 2
    then show ?thesis using fix_step_inv [OF inv n ids 2 geo] kind by (simp add: unit_flag_step_def)
  next
    case 3
    then have none: "block_event b core block (ts0 ! n) = None" for block by (simp add: block_event_def unit_event_of_def)
    have "unit_inv b core ts0 (Suc n) states ts" by (rule unit_inv_Suc [OF inv n upd]) (simp_all add: none)
    then show ?thesis using 3 kind by (simp add: unit_flag_step_def none)
  qed
qed

section \<open>The whole pass\<close>

lemma distinct_states_foldl:
  "distinct (map fst states) \<Longrightarrow> distinct (map fst (foldl (\<lambda>st block. dict_set block (f st block) st) states touched))"
  by (induction touched arbitrary: states) simp_all

lemma unit_flag_step_distinct:
  "distinct (map fst (fst s)) \<Longrightarrow> unit_flag_step b core s n = Inr s' \<Longrightarrow> distinct (map fst (fst s'))"
  by (auto simp: unit_flag_step_def mma_step_def fix_step_def Let_def distinct_states_foldl split: if_splits prod.splits)

lemma unit_flag_loop:
  assumes ids: "distinct (map task_id ts0)" and geo: "\<forall>t \<in> set ts0. geometry_ok b core t \<and> annotatable t"
  shows "n \<le> length ts0 \<Longrightarrow>
    if \<forall>block. run_block False (map (block_event b core block) (take n ts0)) \<noteq> None
    then \<exists>states ts. for_each (unit_flag_step b core) ([], ts0) [0..<n] = Inr (states, ts) \<and> unit_inv b core ts0 n states ts
    else \<exists>e. for_each (unit_flag_step b core) ([], ts0) [0..<n] = Inl e"
proof (induction n)
  case 0
  have "annotated_from ts0 ts0" using geo by (simp add: annotated_from_def)
  then have "unit_inv b core ts0 0 [] ts0" by (simp add: unit_inv_def block_state_def dict_get_def)
  then show ?case by simp
next
  case (Suc n)
  let ?run = "\<lambda>block m. run_block False (map (block_event b core block) (take m ts0))"
  have n: "n < length ts0" using Suc.prems by simp
  have split: "?run block (Suc n) = (case ?run block n of None \<Rightarrow> None | Some r \<Rightarrow> run_block r [block_event b core block (ts0 ! n)])" for block
    by (simp add: take_Suc_conv_app_nth [OF n] run_block_append)
  show ?case
  proof (cases "\<forall>block. ?run block n \<noteq> None")
    case False
    then obtain e where "for_each (unit_flag_step b core) ([], ts0) [0..<n] = Inl e"
      using Suc.IH [unfolded if_not_P [OF False]] n by auto
    moreover obtain block where "?run block n = None" using False by blast
    then have "?run block (Suc n) = None" by (simp only: split option.case)
    then have "\<not> (\<forall>block. ?run block (Suc n) \<noteq> None)" by blast
    ultimately show ?thesis by (simp only: if_False) (simp add: for_each_append)
  next
    case True
    then obtain states ts where run: "for_each (unit_flag_step b core) ([], ts0) [0..<n] = Inr (states, ts)"
      and inv: "unit_inv b core ts0 n states ts" using Suc.IH [unfolded if_P [OF True]] n by auto
    have "?run block n = Some (fst (block_state states block) \<noteq> None)" for block using inv unfolding unit_inv_def by blast
    then have iff: "(\<forall>block. ?run block (Suc n) \<noteq> None) \<longleftrightarrow>
        (\<forall>block. allowed (block_state states block) (block_event b core block (ts0 ! n)))"
      unfolding split using run_block_one by (metis option.case(2) option.distinct(1))
    have "for_each (unit_flag_step b core) ([], ts0) [0..<Suc n] = unit_flag_step b core (states, ts) n"
      by (simp add: for_each_append run split: sum.splits)
    then show ?thesis unfolding iff using unit_flag_step_inv [OF inv n ids] geo n by simp
  qed
qed

lemma open_blocks:
  assumes "distinct (map fst states)"
  shows "(\<exists>(block, writer, clear) \<in> set states. writer \<noteq> None) \<longleftrightarrow> (\<exists>block. fst (block_state states block) \<noteq> None)"
proof
  assume "\<exists>(block, writer, clear) \<in> set states. writer \<noteq> None"
  then obtain block writer clear where "(block, writer, clear) \<in> set states" "writer \<noteq> None" by blast
  then have "block_state states block = (writer, clear)"
    using assms by (simp add: block_state_def dict_get_def map_of_eq_Some_iff)
  then show "\<exists>block. fst (block_state states block) \<noteq> None" using \<open>writer \<noteq> None\<close> by (metis fst_conv)
next
  assume "\<exists>block. fst (block_state states block) \<noteq> None"
  then obtain block where block: "fst (block_state states block) \<noteq> None" by blast
  then obtain v where "map_of states block = Some v" "fst v \<noteq> None"
    by (cases "map_of states block") (auto simp: block_state_def dict_get_def)
  then show "\<exists>(block, writer, clear) \<in> set states. writer \<noteq> None" by (cases v) (auto dest!: map_of_SomeD)
qed

text \<open>What an accepted list looks like, and that a rejected one breaks the protocol.\<close>

lemma validate_core_cases:
  assumes ids: "distinct (map task_id ts)" and geo: "\<forall>t \<in> set ts. geometry_ok b core t \<and> annotatable t"
  shows "if \<forall>block. keeps_protocol b core ts block
    then \<exists>ts'. validate_core_unit_flags b core ts = Inr ts' \<and> length ts' = length ts \<and>
      (\<forall>block i j. j < length ts \<longrightarrow> hands_over b core ts block i j \<longrightarrow> task_id (ts ! i) \<in> set (dependencies (ts' ! j)))
    else \<exists>e. validate_core_unit_flags b core ts = Inl e"
proof -
  let ?run = "\<lambda>block. run_block False (map (block_event b core block) ts)"
  have all: "take (length ts) ts = ts" by simp
  note loop = unit_flag_loop [OF ids geo order_refl, unfolded all]
  show ?thesis
  proof (cases "\<forall>block. ?run block \<noteq> None")
    case False
    then obtain e where "for_each (unit_flag_step b core) ([], ts) [0..<length ts] = Inl e"
      using loop [unfolded if_not_P [OF False]] by blast
    moreover have "\<not> (\<forall>block. keeps_protocol b core ts block)" using False unfolding keeps_protocol_def by (metis option.distinct(1))
    ultimately show ?thesis by (simp add: validate_core_unit_flags_def)
  next
    case True
    then obtain states ts' where run: "for_each (unit_flag_step b core) ([], ts) [0..<length ts] = Inr (states, ts')"
      and inv: "unit_inv b core ts (length ts) states ts'"
      using loop [unfolded if_P [OF True]] by blast
    have bits: "?run block = Some (fst (block_state states block) \<noteq> None)" for block
      using inv unfolding unit_inv_def by (metis order_refl take_all)
    have "distinct (map fst (fst (states, ts')))"
      by (rule for_each_invariant [where P = "\<lambda>s. distinct (map fst (fst s))", OF run]) (auto intro: unit_flag_step_distinct)
    then have open_block: "(\<exists>(block, writer, clear) \<in> set states. writer \<noteq> None) \<longleftrightarrow> (\<exists>block. fst (block_state states block) \<noteq> None)"
      by (simp only: fst_conv) (rule open_blocks)
    have keeps: "(\<forall>block. keeps_protocol b core ts block) \<longleftrightarrow> \<not> (\<exists>(block, writer, clear) \<in> set states. writer \<noteq> None)"
      unfolding open_block keeps_protocol_def bits by simp
    have "length ts' = length ts" "\<forall>block i j. j < length ts \<longrightarrow> hands_over b core ts block i j \<longrightarrow>
        task_id (ts ! i) \<in> set (dependencies (ts' ! j))"
      using inv unfolding unit_inv_def annotated_from_def by blast+
    then show ?thesis unfolding keeps by (simp add: validate_core_unit_flags_def run)
  qed
qed

section \<open>Properties\<close>

text \<open>
  C12: The unit-flag pass accepts the tasks of a core exactly when every 512-byte block of L0C keeps the
  protocol on its own: no MMA writes it while it is readable, no fixpipe copy consumes it while it is
  not, and it is drained at the end, for any sharing of blocks between split and combined tiles.
\<close>

theorem unit_flag_pass_decides_the_protocol:
  assumes "distinct (map task_id ts)" and "\<forall>t \<in> set ts. geometry_ok b core t \<and> annotatable t"
  shows "(\<exists>ts'. validate_core_unit_flags b core ts = Inr ts') \<longleftrightarrow> (\<forall>block. keeps_protocol b core ts block)"
proof (cases "\<forall>block. keeps_protocol b core ts block")
  case True
  then show ?thesis using validate_core_cases [OF assms, unfolded if_P [OF True]] by blast
next
  case False
  then show ?thesis using validate_core_cases [OF assms, unfolded if_not_P [OF False]] by fastforce
qed

definition l0c_memory :: bridge_memory where
  "l0c_memory = \<lparr>bm_buffers = [(''c'', \<lparr>bs_name = ''c'', bs_scope = L0C, bs_shape = [RInt 512], bs_dtype = ''float32'',
        bs_size_bytes = None, bs_address = None, bs_lifetime = None, bs_metadata = []\<rparr>)],
     bm_last_writes = [], bm_last_reads = [], bm_active_aliases = [], bm_overlap_cache = [], bm_candidate_cache = []\<rparr>"

definition l0c_region :: "int \<Rightarrow> int \<Rightarrow> pyval" where
  "l0c_region start elements = PRegion \<lparr>br_buffer = ''c'', br_scope = L0C, br_shape = [RInt elements], br_dtype = ''float32'',
     br_byte_offset = RInt start, br_strides_bytes = None, br_core_id = Some 0\<rparr>"

definition unit_task :: "string \<Rightarrow> bool \<Rightarrow> int \<Rightarrow> int \<Rightarrow> task" where
  "unit_task tid mma start elements =
     \<lparr>task_id = tid, operation = if mma then ''mma'' else ''copy_l0c_to_gm'', core_id = 0, task_lane = CUBE,
      task_pipe = if mma then MATRIX else FIX, duration_cycles = 10, dependencies = [], stage = None,
      task_metadata = if mma then [(''dst'', l0c_region start elements), (''mma'', PMap [(''unit_flag'', PInt 3)])]
        else [(''src'', l0c_region start elements), (''copy'', PMap [(''unit_flag'', PInt 3)])]\<rparr>"

text \<open>One wide MMA feeds two half copies, and the next MMA reuses the tile.\<close>

definition unit_demo :: "task list" where
  "unit_demo = [unit_task ''0'' True 0 512, unit_task ''1'' False 0 256, unit_task ''2'' False 1024 256,
     unit_task ''3'' True 0 512, unit_task ''4'' False 0 512]"

definition validated :: "task list res \<Rightarrow> task list" where
  "validated r = (case r of Inl e \<Rightarrow> [] | Inr ts \<Rightarrow> ts)"

lemma unit_demo_ok: "distinct (map task_id unit_demo)" "\<forall>t \<in> set unit_demo. geometry_ok l0c_memory 0 t \<and> annotatable t"
  "map dependencies (validated (validate_core_unit_flags l0c_memory 0 unit_demo)) =
     [[], [''0''], [''0''], [''1'', ''2''], [''3'']]"
  by code_simp+

lemma unit_demo_accepted:
  "validate_core_unit_flags l0c_memory 0 unit_demo = Inr (validated (validate_core_unit_flags l0c_memory 0 unit_demo))"
  using unit_demo_ok(3) by (cases "validate_core_unit_flags l0c_memory 0 unit_demo") (simp_all add: validated_def)

theorem unit_flag_pass_decides_the_protocol_witness: "\<forall>block. keeps_protocol l0c_memory 0 unit_demo block"
  using unit_flag_pass_decides_the_protocol [OF unit_demo_ok(1,2)] unit_demo_accepted by blast

text \<open>
  C13: In the task list the pass returns, a task that takes a block over depends on the task that hands
  it over: a copy on the MMA that made the block readable, and each later MMA on the block on the copy
  that last drained it.
\<close>

theorem unit_flag_hand_overs_are_dependencies:
  assumes "distinct (map task_id ts)" and "\<forall>t \<in> set ts. geometry_ok b core t \<and> annotatable t"
    and "validate_core_unit_flags b core ts = Inr ts'" and "j < length ts" and "hands_over b core ts block i j"
  shows "task_id (ts ! i) \<in> set (dependencies (ts' ! j))"
proof (cases "\<forall>block. keeps_protocol b core ts block")
  case True
  then show ?thesis using validate_core_cases [OF assms(1,2), unfolded if_P [OF True]] assms(3-5) by (metis sum.inject(2))
next
  case False
  then show ?thesis using validate_core_cases [OF assms(1,2), unfolded if_not_P [OF False]] assms(3) by simp
qed

theorem unit_flag_hand_overs_are_dependencies_witness:
  "''2'' \<in> set (dependencies (validated (validate_core_unit_flags l0c_memory 0 unit_demo) ! 3))"
proof -
  have "hands_over l0c_memory 0 unit_demo (InBuffer ''c'', 2) 2 3" "3 < length unit_demo" "task_id (unit_demo ! 2) = ''2''"
    by code_simp+
  then show ?thesis
    using unit_flag_hand_overs_are_dependencies [OF unit_demo_ok(1,2) unit_demo_accepted] by metis
qed

end
