(* ===== verification/Sim_Bridge_Build_Props.thy ===== *)
theory Sim_Bridge_Build_Props
  imports Sim_Bridge_Build Sim_Bridge_Unit_Props Sim_Protocol
begin

text \<open>
  Whatever a traversal does, the program the bridge builds is accepted by \<open>KernelProgram\<close> once the
  unit-flag pass has accepted its tasks, and it can be scheduled to completion.  The argument follows
  the task counter: dependencies, explicit, inferred from memory or added by the unit-flag pass, only
  name tasks emitted earlier, and the instruction streams are in the order of emission.
\<close>

section \<open>Identifiers in the histories\<close>

text \<open>The buffers are \<open>B\<close>, and every recorded access is of a task in \<open>ids\<close>.\<close>

definition names :: "(string, buffer_spec) dict \<Rightarrow> string set \<Rightarrow> bridge_memory \<Rightarrow> bool" where
  "names B ids b \<longleftrightarrow> bm_buffers b = B \<and> (\<forall>h key entry. filed b h key entry \<longrightarrow> fst (snd entry) \<in> ids)"

lemma namesD: "names B ids b \<Longrightarrow> filed b h key entry \<Longrightarrow> fst (snd entry) \<in> ids"
  unfolding names_def by blast

lemma filed_get: "entry \<in> set (dict_get (history_of b h) key []) \<Longrightarrow> filed b h key entry"
  by (auto simp: filed_def dict_get_def split: option.splits dest: sym)

definition same_histories :: "bridge_memory \<Rightarrow> bridge_memory \<Rightarrow> bool" where
  "same_histories b b' \<longleftrightarrow> bm_buffers b' = bm_buffers b \<and> (\<forall>h. history_of b' h = history_of b h)"

lemma names_cong: "same_histories b b' \<Longrightarrow> names B ids b' = names B ids b"
  by (simp add: names_def filed_def same_histories_def)

lemma same_histories_trans: "same_histories b b1 \<Longrightarrow> same_histories b1 b2 \<Longrightarrow> same_histories b b2"
  by (simp add: same_histories_def)

lemma regions_overlap_histories: "regions_overlap b left right core = Inr (answer, b') \<Longrightarrow> same_histories b b'"
  by (auto simp: regions_overlap_def same_histories_def history_of_def Let_def split: option.splits history_name.splits)

lemma candidate_keys_histories:
  "memory_history_candidate_keys b h region l core keep = Inr (keys, b') \<Longrightarrow> same_histories b b'"
  by (auto simp: memory_history_candidate_keys_def same_histories_def history_of_def Let_def split: option.splits history_name.splits)

lemma candidates_names:
  assumes "memory_history_candidates b h region l core keep = Inr (entries, b')" and "names B ids b"
  shows "same_histories b b' \<and> (\<forall>entry \<in> set entries. fst (snd entry) \<in> ids)"
proof -
  obtain keys where keys: "memory_history_candidate_keys b h region l core keep = Inr (keys, b')"
    and entries: "entries = concat (map (\<lambda>key. dict_get (history_of b' h) key []) keys)"
    using assms(1) by (auto simp: memory_history_candidates_def)
  have same: "same_histories b b'" using keys by (rule candidate_keys_histories)
  have "names B ids b'" using assms(2) names_cong [OF same] by simp
  then have "fst (snd entry) \<in> ids" if "entry \<in> set entries" for entry
    using that namesD filed_get unfolding entries set_concat set_map by blast
  then show ?thesis using same by blast
qed

text \<open>What a query keeps: the histories, and that every identifier found is known.\<close>

definition found_in :: "bridge_memory \<Rightarrow> string set \<Rightarrow> string list \<times> bridge_memory \<Rightarrow> bool" where
  "found_in b ids s \<longleftrightarrow> set (fst s) \<subseteq> ids \<and> same_histories b (snd s)"

lemma collect_found:
  assumes "collect_dependency wanted keep region core l s entry = Inr s'" and "found_in b ids s" and "fst (snd entry) \<in> ids"
  shows "found_in b ids s'"
  using assms regions_overlap_histories same_histories_trans
  by (cases entry; cases s) (fastforce simp: collect_dependency_def found_in_def split: if_splits)

lemma collect_all_found:
  assumes "for_each (collect_dependency wanted keep region core l) s entries = Inr s'" and "found_in b ids s"
    and "\<forall>entry \<in> set entries. fst (snd entry) \<in> ids"
  shows "found_in b ids s'"
  by (rule for_each_invariant [OF assms(1), where P = "found_in b ids"]) (use assms(2,3) in \<open>auto intro: collect_found\<close>)

lemma candidates_found:
  assumes "memory_history_candidates (snd s) h region l core keep = Inr (entries, b')" and "found_in b ids s" and "names B ids b"
  shows "found_in b ids (fst s, b') \<and> (\<forall>entry \<in> set entries. fst (snd entry) \<in> ids)"
  using candidates_names [OF assms(1), of B ids] assms(2,3) names_cong [of b "snd s" B ids] same_histories_trans
  by (auto simp: found_in_def)

lemma read_found:
  assumes "read_dependencies wanted keep core l s region = Inr s'" and "found_in b ids s" and "names B ids b"
  shows "found_in b ids s'"
proof -
  obtain entries b' where c: "memory_history_candidates (snd s) LastWrites region l core keep = Inr (entries, b')"
    and loop: "for_each (collect_dependency wanted keep region core l) (fst s, b') entries = Inr s'"
    using assms(1) by (auto simp: read_dependencies_def split: prod.splits)
  show ?thesis using collect_all_found [OF loop] candidates_found [OF c assms(2,3)] by blast
qed

lemma write_found:
  assumes "write_dependencies keep core l s region = Inr s'" and "found_in b ids s" and "names B ids b"
  shows "found_in b ids s'"
proof -
  obtain written b1 read b2 where c1: "memory_history_candidates (snd s) LastWrites region l core keep = Inr (written, b1)"
    and c2: "memory_history_candidates b1 LastReads region l core keep = Inr (read, b2)"
    and loop: "for_each (collect_dependency (\<lambda>_ _. True) keep region core l) (fst s, b2) (written @ read) = Inr s'"
    using assms(1) by (auto simp: write_dependencies_def split: prod.splits)
  have w: "found_in b ids (fst s, b1)" "\<forall>entry \<in> set written. fst (snd entry) \<in> ids"
    using candidates_found [OF c1 assms(2,3)] by blast+
  have "found_in b ids (fst s, b2) \<and> (\<forall>entry \<in> set read. fst (snd entry) \<in> ids)"
    using candidates_found [of "(fst s, b1)"] c2 w(1) assms(3) by simp
  then show ?thesis using collect_all_found [OF loop] w(2) by auto
qed

lemma memory_dependencies_known:
  assumes "memory_dependencies b md core l op = Inr (memory, b')" and "names B ids b"
  shows "set memory \<subseteq> ids \<and> same_histories b b'"
proof -
  have start: "found_in b ids ([], b)" by (simp add: found_in_def same_histories_def)
  obtain s found where reads: "for_each (read_dependencies (\<lambda>_ _. True) (keep_cross_core op) core l) ([], b)
      (operand_regions md read_operands) = Inr s"
    and writes: "for_each (write_dependencies (keep_cross_core op) core l) s (operand_regions md write_operands) = Inr (found, b')"
    and memory: "memory = sorted_ids found"
    using assms(1) by (auto simp: memory_dependencies_def Let_def)
  have "found_in b ids s" by (rule for_each_invariant [OF reads, where P = "found_in b ids", OF start]) (rule read_found [OF _ _ assms(2)])
  then have "found_in b ids (found, b')" by (rule for_each_invariant [OF writes, where P = "found_in b ids"]) (rule write_found [OF _ _ assms(2)])
  then show ?thesis by (simp add: found_in_def memory)
qed

lemma alias_write_found:
  assumes "alias_write_dependencies keep core l s region = Inr s'" and "found_in b ids s" and "names B ids b"
  shows "found_in b ids s'"
  using assms(1) [unfolded alias_write_dependencies_def] assms(2)
proof (rule for_each_invariant)
  fix u h v
  assume u: "found_in b ids u"
    and "(case u of (found, b) \<Rightarrow> \<lambda>h. and_then (memory_history_candidates b h region l core keep) (\<lambda>(entries, b').
          for_each (collect_dependency alias_of keep region core l) (found, b') entries)) h = Inr v"
  then obtain entries b' where c: "memory_history_candidates (snd u) h region l core keep = Inr (entries, b')"
    and loop: "for_each (collect_dependency alias_of keep region core l) (fst u, b') entries = Inr v"
    by (auto split: prod.splits)
  show "found_in b ids v" using collect_all_found [OF loop] candidates_found [OF c u assms(3)] by blast
qed

lemma alias_dependencies_histories:
  assumes "alias_memory_dependencies b md core l op = Inr (aliases, b')"
  shows "same_histories b b'"
proof -
  have all: "names (bm_buffers b) UNIV b" by (simp add: names_def)
  have start: "found_in b UNIV ([], b)" by (simp add: found_in_def same_histories_def)
  obtain s found where reads: "for_each (read_dependencies alias_of (keep_cross_core op) core l) ([], b)
      (operand_regions md read_operands) = Inr s"
    and writes: "for_each (alias_write_dependencies (keep_cross_core op) core l) s (operand_regions md write_operands) = Inr (found, b')"
    using assms by (auto simp: alias_memory_dependencies_def Let_def)
  have "found_in b UNIV s" by (rule for_each_invariant [OF reads, where P = "found_in b UNIV", OF start]) (rule read_found [OF _ _ all])
  then have "found_in b UNIV (found, b')" by (rule for_each_invariant [OF writes, where P = "found_in b UNIV"]) (rule alias_write_found [OF _ _ all])
  then show ?thesis by (simp add: found_in_def)
qed

section \<open>Recording\<close>

lemma keep_disjoint_subset:
  "keep_disjoint b region core entries = Inr (kept, b') \<Longrightarrow> set kept \<subseteq> set entries \<and> same_histories b b'"
proof (induction b region core entries arbitrary: kept b' rule: keep_disjoint.induct)
  case (1 b region core)
  then show ?case by (simp add: same_histories_def)
next
  case (2 b region core entry entries)
  then obtain overlap b1 rest where r: "regions_overlap b region (fst entry) core = Inr (overlap, b1)"
    "keep_disjoint b1 region core entries = Inr (rest, b')" "kept = (if overlap then rest else entry # rest)" by auto
  have "set rest \<subseteq> set entries \<and> same_histories b1 b'" using 2(1) [OF r(2)] by simp
  then show ?case using regions_overlap_histories [OF r(1)] same_histories_trans r(3) by auto
qed

lemma names_set_history:
  assumes "names B ids b" and "\<forall>entry \<in> set entries. fst (snd entry) \<in> ids"
  shows "names B ids (set_history h (dict_set key entries (history_of b h)) b)"
  using assms by (auto simp: names_def filed_def history_of_set_history split: if_splits)

lemma prune_bucket_names:
  assumes "prune_bucket h region core b key = Inr b'" and "names B ids b"
  shows "names B ids b'"
proof (cases "map_of (history_of b h) key")
  case None
  then show ?thesis using assms by (simp add: prune_bucket_def)
next
  case (Some entries)
  show ?thesis
  proof (cases entries)
    case Nil
    then show ?thesis using assms Some by (simp add: prune_bucket_def)
  next
    case (Cons e es)
    then obtain kept b1 where k: "keep_disjoint b region core entries = Inr (kept, b1)"
      and b': "b' = set_history h (dict_set key kept (history_of b1 h)) b1"
      using assms(1) Some by (auto simp: prune_bucket_def)
    have sub: "set kept \<subseteq> set entries" "same_histories b b1" using keep_disjoint_subset [OF k] by simp_all
    have "\<forall>entry \<in> set kept. fst (snd entry) \<in> ids"
      using sub(1) namesD [OF assms(2)] Some unfolding filed_def by blast
    then show ?thesis unfolding b' using assms(2) names_cong [OF sub(2)] by (intro names_set_history) simp_all
  qed
qed

lemma append_names: "names B ids b \<Longrightarrow> tid \<in> ids \<Longrightarrow> names B ids (append_memory_history h b region tid l core)"
proof -
  assume b: "names B ids b" and tid: "tid \<in> ids"
  let ?key = "memory_history_key region l core"
  have "names B ids (b\<lparr>bm_candidate_cache := []\<rparr>)"
    using b names_cong [of b "b\<lparr>bm_candidate_cache := []\<rparr>"] by (simp add: same_histories_def)
  moreover have "\<forall>entry \<in> set (dict_get (history_of b h) ?key [] @ [(region, tid, l, core)]). fst (snd entry) \<in> ids"
    using namesD [OF b filed_get] tid by simp
  ultimately show ?thesis
    using b names_set_history [of B ids b] names_set_history [of B ids "b\<lparr>bm_candidate_cache := []\<rparr>"]
    by (auto simp: append_memory_history_def Let_def)
qed

lemma record_names:
  assumes "record_memory_accesses b tid md core l = Inr b'" and "names B ids b" and "tid \<in> ids"
  shows "names B ids b'"
proof -
  have prune: "names B ids c'" if "prune_history region core l c h = Inr c'" "names B ids c" for region c c' h
    using that by (auto simp: prune_history_def elim!: for_each_invariant prune_bucket_names)
  have wrote: "names B ids c'" if "record_write tid core l c region = Inr c'" "names B ids c" for region c c'
    using that assms(3) by (auto simp: record_write_def intro!: append_names elim: prune split: sum.splits)
  obtain b1 where b1: "for_each (record_write tid core l) b (operand_regions md write_operands) = Inr b1"
    and b': "b' = foldl (\<lambda>b region. append_memory_history LastReads b region tid l core) b1 (operand_regions md read_operands)"
    using assms(1) by (auto simp: record_memory_accesses_def Let_def)
  have "names B ids b1" using b1 assms(2) by (rule for_each_invariant) (rule wrote)
  moreover have "names B ids (foldl (\<lambda>b region. append_memory_history LastReads b region tid l core) c rs)" if "names B ids c" for c rs
    using that assms(3) by (induction rs arbitrary: c) (simp_all add: append_names)
  ultimately show ?thesis by (simp add: b')
qed

section \<open>The unit-flag pass only adds earlier tasks\<close>

text \<open>The place of a task in its instruction stream.\<close>

definition same_place :: "task \<Rightarrow> task \<Rightarrow> bool" where
  "same_place t t' \<longleftrightarrow> task_id t' = task_id t \<and> core_id t' = core_id t \<and> task_lane t' = task_lane t \<and> task_pipe t' = task_pipe t"

definition hardware_known :: "task \<Rightarrow> string set" where
  "hardware_known t = (case id_list (task_metadata t) ''hardware_dependencies'' of Inl e \<Rightarrow> {} | Inr ids \<Rightarrow> set ids)"

lemma replace_task_place:
  assumes "replace_task t md deps = Inr t'"
  shows "same_place t t' \<and> task_wf t' \<and> dependencies t' = deps \<and> task_metadata t' = md"
  using assms Task_wf [of "task_id t" "operation t" "core_id t" "LaneEnum (task_lane t)" "PipeEnum (task_pipe t)"]
  unfolding replace_task_def by (auto simp: Task_def same_place_def split: if_splits sum.splits)

lemma annotate_place:
  assumes "annotate ts i role hardware peers = Inr ts'"
  shows "\<exists>t'. ts' = ts[i := t'] \<and> same_place (ts ! i) t' \<and> task_wf t' \<and>
    set (dependencies t') \<subseteq> set (dependencies (ts ! i)) \<union> hardware_known (ts ! i) \<union> set hardware \<and>
    hardware_known t' \<subseteq> hardware_known (ts ! i) \<union> set hardware"
proof -
  let ?t = "ts ! i" and ?md = "task_metadata (ts ! i)"
  obtain known pairs flagged t' where ids: "id_list ?md ''hardware_dependencies'' = Inr known"
    and t': "replace_task ?t (annotated_metadata ?md role (merge_ids known hardware) (merge_ids flagged hardware) (merge_ids pairs peers))
        (merge_ids (dependencies ?t) (merge_ids known hardware)) = Inr t'" and ts': "ts' = ts[i := t']"
    using assms by (auto simp: annotate_def Let_def)
  from replace_task_place [OF t'] show ?thesis
    using ts' ids by (intro exI [of _ t']) (auto simp: hardware_known_def annotated_ids)
qed

text \<open>\<open>bound k\<close> are the identifiers task \<open>k\<close> may depend on.\<close>

definition bounded_task :: "string set \<Rightarrow> task \<Rightarrow> task \<Rightarrow> bool" where
  "bounded_task ids t t' \<longleftrightarrow> same_place t t' \<and> task_wf t' \<and> set (dependencies t') \<union> hardware_known t' \<subseteq> ids"

definition back_tasks :: "(nat \<Rightarrow> string set) \<Rightarrow> task list \<Rightarrow> task list \<Rightarrow> bool" where
  "back_tasks bound ts0 ts \<longleftrightarrow> length ts = length ts0 \<and> (\<forall>k < length ts0. bounded_task (bound k) (ts0 ! k) (ts ! k))"

definition back_states :: "nat \<Rightarrow> unit_states \<Rightarrow> bool" where
  "back_states n states \<longleftrightarrow>
     (\<forall>block i. fst (block_state states block) = Some i \<or> snd (block_state states block) = Some i \<longrightarrow> i < n)"

definition back_inv :: "(nat \<Rightarrow> string set) \<Rightarrow> task list \<Rightarrow> nat \<Rightarrow> unit_states \<times> task list \<Rightarrow> bool" where
  "back_inv bound ts0 n s \<longleftrightarrow> back_tasks bound ts0 (snd s) \<and> back_states n (fst s)"

lemma back_statesD: "back_states n states \<Longrightarrow> fst (block_state states blk) = Some i \<Longrightarrow> i < n"
  "back_states n states \<Longrightarrow> snd (block_state states blk) = Some i \<Longrightarrow> i < n"
  unfolding back_states_def by blast+

lemma back_states_Suc: "back_states n states \<Longrightarrow> back_states (Suc n) states"
  unfolding back_states_def by (meson less_SucI)

lemma back_tasks_id: "back_tasks bound ts0 ts \<Longrightarrow> k < length ts0 \<Longrightarrow> task_id (ts ! k) = task_id (ts0 ! k)"
  by (simp add: back_tasks_def bounded_task_def same_place_def)

lemma back_tasks_annotate:
  assumes "back_tasks bound ts0 ts" and "annotate ts i role hardware peers = Inr ts'" and "i < length ts0"
    and "set hardware \<subseteq> bound i"
  shows "back_tasks bound ts0 ts'"
proof -
  obtain t' where t': "ts' = ts[i := t']" "same_place (ts ! i) t'" "task_wf t'"
    "set (dependencies t') \<subseteq> set (dependencies (ts ! i)) \<union> hardware_known (ts ! i) \<union> set hardware"
    "hardware_known t' \<subseteq> hardware_known (ts ! i) \<union> set hardware"
    using annotate_place [OF assms(2)] by blast
  have old: "bounded_task (bound i) (ts0 ! i) (ts ! i)" using assms(1,3) by (simp add: back_tasks_def)
  have "same_place (ts0 ! i) t'" using old t'(2) by (simp add: bounded_task_def same_place_def)
  moreover have "set (dependencies t') \<union> hardware_known t' \<subseteq> bound i"
    using old assms(4) t'(4,5) unfolding bounded_task_def by blast
  ultimately have "bounded_task (bound i) (ts0 ! i) t'" using t'(3) by (simp add: bounded_task_def)
  then show ?thesis using assms(1,3) t'(1) by (simp add: back_tasks_def nth_list_update)
qed

lemma mma_step_back:
  assumes inv: "back_inv bound ts0 n (states, ts)" and step: "mma_step b core (states, ts) n = Inr s'" and n: "n < length ts0"
    and bound: "\<forall>i < n. task_id (ts0 ! i) \<in> bound n"
  shows "back_inv bound ts0 (Suc n) s'"
proof -
  have tasks: "back_tasks bound ts0 ts" and st: "back_states n states" using inv by (simp_all add: back_inv_def)
  obtain touched ps ts' where ps: "for_each (mma_predecessor ts states) [] touched = Inr ps"
    and ts': "annotate ts n (if is_release (ts ! n) then ''release'' else ''hold'') ps [] = Inr ts'"
    and s': "s' = (foldl (\<lambda>st block. dict_set block (if is_release (ts ! n) then Some n else None, snd (block_state st block)) st)
              states touched, ts')"
    using step by (auto simp: mma_step_def Let_def)
  have "set ps \<subseteq> {task_id (ts ! c) | c. c < n}"
    using ps mma_predecessors [of touched states ts "[]"] back_statesD(2) [OF st] by (auto split: if_splits)
  also have "\<dots> \<subseteq> bound n" using bound n back_tasks_id [OF tasks] by fastforce
  finally have "back_tasks bound ts0 ts'" by (rule back_tasks_annotate [OF tasks ts' n])
  moreover have "back_states (Suc n) (fst s')"
    unfolding s' fst_conv back_states_def mma_states using st back_statesD [OF back_states_Suc [OF st]] by auto
  ultimately show ?thesis by (simp add: back_inv_def s')
qed

lemma fix_step_back:
  assumes inv: "back_inv bound ts0 n (states, ts)" and step: "fix_step b core (states, ts) n = Inr s'" and n: "n < length ts0"
    and bound: "\<forall>i < n. task_id (ts0 ! i) \<in> bound n"
  shows "back_inv bound ts0 (Suc n) s'"
proof -
  have tasks: "back_tasks bound ts0 ts" and st: "back_states n states" using inv by (simp_all add: back_inv_def)
  obtain touched found ts1 ts2 where found: "for_each (fix_writer states) [] touched = Inr found"
    and ts1: "annotate ts n ''consume'' (map (\<lambda>w. task_id (ts ! w)) (sort (remdups found)))
        (map (\<lambda>w. task_id (ts ! w)) (sort (remdups found))) = Inr ts1"
    and ts2: "for_each (\<lambda>us w. annotate us w ''release'' [] [task_id (ts ! n)]) ts1 (sort (remdups found)) = Inr ts2"
    and s': "s' = (foldl (\<lambda>st block. dict_set block (None, Some n) st) states touched, ts2)"
    using step by (auto simp: fix_step_def Let_def)
  have writers: "w < n" if "w \<in> set found" for w
    using that found fix_writers [of touched states "[]"] back_statesD(1) [OF st] by (auto split: if_splits)
  then have "set (map (\<lambda>w. task_id (ts ! w)) (sort (remdups found))) \<subseteq> bound n"
    using bound n back_tasks_id [OF tasks] by fastforce
  then have "back_tasks bound ts0 ts1" by (rule back_tasks_annotate [OF tasks ts1 n])
  then have "back_tasks bound ts0 ts2"
  proof (rule for_each_invariant [OF ts2, where P = "back_tasks bound ts0"])
    fix us w vs
    assume w: "w \<in> set (sort (remdups found))" and us: "back_tasks bound ts0 us"
      "annotate us w ''release'' [] [task_id (ts ! n)] = Inr vs"
    have "w < length ts0" using w writers [of w] n by simp
    from back_tasks_annotate [OF us this] show "back_tasks bound ts0 vs" by simp
  qed
  moreover have "back_states (Suc n) (fst s')"
    unfolding s' fst_conv back_states_def fix_states using back_statesD [OF back_states_Suc [OF st]] by auto
  ultimately show ?thesis by (simp add: back_inv_def s')
qed

lemma for_each_upt:
  assumes "for_each f s [0..<n] = Inr t" and "P 0 s" and "\<And>k u v. k < n \<Longrightarrow> P k u \<Longrightarrow> f u k = Inr v \<Longrightarrow> P (Suc k) v"
  shows "P n t"
  using assms
proof (induction n arbitrary: t)
  case 0
  then show ?case by simp
next
  case (Suc n)
  from Suc.prems(1) obtain u where "for_each f s [0..<n] = Inr u" "f u n = Inr t"
    by (auto simp: for_each_append split: sum.splits)
  then show ?case using Suc.IH Suc.prems(2,3) by (meson lessI less_Suc_eq)
qed

lemma validate_core_back:
  assumes "validate_core_unit_flags b core ts0 = Inr ts'" and "\<forall>t \<in> set ts0. task_wf t"
    and "\<forall>k < length ts0. set (dependencies (ts0 ! k)) \<union> hardware_known (ts0 ! k) \<subseteq> bound k"
    and "\<forall>k < length ts0. \<forall>i < k. task_id (ts0 ! i) \<in> bound k"
  shows "length ts' = length ts0 \<and> (\<forall>k < length ts0. same_place (ts0 ! k) (ts' ! k) \<and> task_wf (ts' ! k) \<and>
    set (dependencies (ts' ! k)) \<union> hardware_known (ts' ! k) \<subseteq> bound k)"
proof -
  obtain states where loop: "for_each (unit_flag_step b core) ([], ts0) [0..<length ts0] = Inr (states, ts')"
    using assms(1) by (auto simp: validate_core_unit_flags_def split: if_splits)
  have "back_inv bound ts0 (length ts0) (states, ts')"
  proof (rule for_each_upt [OF loop, where P = "back_inv bound ts0"])
    show "back_inv bound ts0 0 ([], ts0)"
      using assms(2,3) by (auto simp: back_inv_def back_tasks_def bounded_task_def same_place_def back_states_def block_state_def dict_get_def)
  next
    fix k u v
    assume k: "k < length ts0" "back_inv bound ts0 k u" "unit_flag_step b core u k = Inr v"
    obtain states ts where u: "u = (states, ts)" by (cases u)
    have "back_inv bound ts0 (Suc k) u" using k(2) back_states_Suc by (simp add: back_inv_def)
    then show "back_inv bound ts0 (Suc k) v"
      using k mma_step_back [of bound ts0 k states ts b core v] fix_step_back [of bound ts0 k states ts b core v] assms(4)
      unfolding u unit_flag_step_def by (auto split: if_splits)
  qed
  then show ?thesis by (simp add: back_inv_def back_tasks_def bounded_task_def)
qed

section \<open>One emission\<close>

text \<open>The task counter at the end of a task identifier.\<close>

definition id_counter :: "string \<Rightarrow> nat" where
  "id_counter tid = decimal_value (rev (takeWhile (\<lambda>c. c \<noteq> CHR ''-'') (rev tid)))"

lemma digit_not_minus: "k < 10 \<Longrightarrow> char_of (48 + k) \<noteq> CHR ''-''" for k :: nat
proof
  assume k: "k < 10" and "char_of (48 + k) = CHR ''-''"
  then have "(of_char (char_of (48 + k) :: char) :: nat) = of_char CHR ''-''" by (intro arg_cong [of _ _ of_char])
  with k show False by simp
qed

lemma digits_not_minus: "CHR ''-'' \<notin> set (digits_of_nat n)"
proof (induction n rule: digits_of_nat.induct)
  case (1 n)
  then show ?case using digit_not_minus by (subst digits_of_nat.simps) (auto dest: sym)
qed

lemma id_counter_bridge [simp]: "id_counter (bridge_task_id core l n) = n"
proof -
  have "takeWhile (\<lambda>c. c \<noteq> CHR ''-'') (rev (digits_of_nat n) @ CHR ''-'' # rest) = rev (digits_of_nat n)" for rest
    using digits_not_minus [of n] by (subst takeWhile_append2) auto
  then show ?thesis by (simp add: id_counter_def bridge_task_id_def str_of_int_def decimal_value_digits)
qed

lemma activate_alias_names: "names B ids (activate_alias b md) = names B ids b"
  by (auto simp: names_def filed_def activate_alias_def history_of_def split: pyval.splits history_name.splits)

lemma id_list_set_ids:
  "id_list (set_ids key ids md) key' = (if key = key' \<and> ids \<noteq> [] then Inr ids else id_list md key')"
  by (auto simp: set_ids_def ids_value_def id_list_set map_res_id_of)

lemma id_list_setdefault: "key \<noteq> key' \<Longrightarrow> id_list (dict_setdefault key v md) key' = id_list md key'"
  by (auto simp: dict_setdefault_def id_list_set split: option.splits)

lemma id_list_base:
  "id_list (task_base_metadata calibration normalized l predicates md) ''hardware_dependencies'' = id_list md ''hardware_dependencies''"
  by (auto simp: task_base_metadata_def Let_def id_list_setdefault id_list_set)

lemma id_list_estimate:
  "estimate_duration estimator timing_key p md = Inr (duration, md') \<Longrightarrow>
     id_list md' ''hardware_dependencies'' = id_list md ''hardware_dependencies''"
  by (auto simp: estimate_duration_def id_list_set split: task_estimator.splits)

text \<open>
  The new task has the next identifier, depends on known tasks only, and leaves the buffers alone;
  its hardware dependencies are among its dependencies.
\<close>

lemma emit_call_emits:
  assumes "emit_call estimator calibration tb op ctx md extra = Inr (t, tb')" and "visitor_metadata md"
    and "names B (set ids) (tb_memory tb)" and "set extra \<subseteq> set ids"
  obtains l where "task_id t = bridge_task_id (bc_core_id ctx) l (tb_task_counter tb)" and "core_id t = bc_core_id ctx"
    and "task_wf t" and "set (dependencies t) \<union> hardware_known t \<subseteq> set ids"
    and "names B (set (ids @ [task_id t])) (tb_memory tb')"
    and "tb_tasks tb' = dict_set (core_id t) (dict_get (tb_tasks tb) (core_id t) [] @ [t]) (tb_tasks tb)"
    and "tb_task_counter tb' = Suc (tb_task_counter tb)"
proof -
  obtain tb1 where emit: "emit_task estimator calibration tb op ctx md extra = Inr (t, tb1)"
    and tb': "tb' = (if short_operation op = ''reinterpretcast'' then tb1\<lparr>tb_memory := activate_alias (tb_memory tb1) md\<rparr> else tb1)"
    using assms(1) by (auto simp: emit_call_def)
  let ?core = "bc_core_id ctx"
  from emit obtain l p0 normalized p memory b1 aliases b2 duration md4 b3 where
    mem: "memory_dependencies (tb_memory tb) (task_base_metadata calibration normalized l (bc_predicates ctx) md) ?core (bc_lane ctx) normalized = Inr (memory, b1)"
    and al: "alias_memory_dependencies b1 (set_ids ''memory_dependencies'' memory (task_base_metadata calibration normalized l (bc_predicates ctx) md))
        ?core (bc_lane ctx) normalized = Inr (aliases, b2)"
    and est: "estimate_duration estimator (py_str (md_get (task_base_metadata calibration normalized l (bc_predicates ctx) md) ''timing_key'')) p
        (set_ids ''hardware_dependencies'' (hardware_ids normalized memory extra)
           (set_ids ''alias_memory_dependencies'' aliases (set_ids ''memory_dependencies'' memory
              (task_base_metadata calibration normalized l (bc_predicates ctx) md)))) = Inr (duration, md4)"
    and task: "Task (bridge_task_id ?core l (tb_task_counter tb)) normalized ?core (LaneEnum l) (PipeEnum p) duration
        (sorted_ids (memory @ extra)) None md4 = Inr t"
    and rec: "record_memory_accesses b2 (bridge_task_id ?core l (tb_task_counter tb)) (task_metadata t) ?core (bc_lane ctx) = Inr b3"
    and tb1: "tb1 = \<lparr>tb_memory = b3, tb_tasks = dict_set ?core (dict_get (tb_tasks tb) ?core [] @ [t]) (tb_tasks tb),
        tb_task_counter = tb_task_counter tb + 1\<rparr>"
    unfolding emit_task_def by (auto simp: Let_def)
  have t: "task_id t = bridge_task_id ?core l (tb_task_counter tb)" "dependencies t = sorted_ids (memory @ extra)"
    "task_metadata t = md4" "core_id t = ?core" using TaskD [OF task] by simp_all
  have memory: "set memory \<subseteq> set ids" "same_histories (tb_memory tb) b1" using memory_dependencies_known [OF mem assms(3)] by simp_all
  have "same_histories b1 b2" using al by (rule alias_dependencies_histories)
  then have "names B (set ids) b2" using assms(3) memory(2) names_cong same_histories_trans by blast
  then have "names B (set (ids @ [task_id t])) b2" by (auto simp: names_def)
  then have "names B (set (ids @ [task_id t])) b3" using record_names [OF rec] t(1) by simp
  moreover have "id_list md ''hardware_dependencies'' = Inr []"
    using assms(2) by (simp add: visitor_metadata_def id_list_def dict_get_def)
  then have "hardware_known t \<subseteq> set memory \<union> set extra"
    unfolding hardware_known_def t(3) id_list_estimate [OF est] id_list_set_ids id_list_base
    by (auto simp: hardware_ids_def split: if_splits)
  then have "set (dependencies t) \<union> hardware_known t \<subseteq> set ids" using memory(1) assms(4) t(2) by auto
  moreover have "names B (set (ids @ [task_id t])) (tb_memory tb') = names B (set (ids @ [task_id t])) b3"
    "tb_tasks tb' = tb_tasks tb1" "tb_task_counter tb' = tb_task_counter tb1"
    by (simp_all add: tb' tb1 activate_alias_names)
  ultimately show ?thesis using that [of l] t(1,4) Task_wf [OF task] by (simp add: tb1)
qed

section \<open>The invariant of the bridge\<close>

text \<open>Tasks of one core are listed in the order of their counters.\<close>

definition in_order :: "task list \<Rightarrow> bool" where
  "in_order ts \<longleftrightarrow> sorted_wrt (\<lambda>t u. core_id t = core_id u \<longrightarrow> id_counter (task_id t) < id_counter (task_id u)) ts"

definition well_placed :: "string list \<Rightarrow> int \<Rightarrow> task \<Rightarrow> bool" where
  "well_placed ids core t \<longleftrightarrow> core_id t = core \<and> task_wf t \<and>
     (\<forall>d \<in> set (dependencies t) \<union> hardware_known t. d \<in> set ids \<and> id_counter d < id_counter (task_id t))"

definition stream_ok :: "string list \<Rightarrow> int \<Rightarrow> task list \<Rightarrow> bool" where
  "stream_ok ids core ts \<longleftrightarrow> 0 \<le> core \<and> (\<forall>t \<in> set ts. well_placed ids core t) \<and> in_order ts"

abbreviation all_tasks :: "(int, task list) dict \<Rightarrow> task list" where
  "all_tasks tasks \<equiv> concat (map snd tasks)"

definition buffers_named :: "(string, buffer_spec) dict \<Rightarrow> bool" where
  "buffers_named buffers \<longleftrightarrow> distinct (map fst buffers) \<and> (\<forall>(name, spec) \<in> set buffers. bs_name spec = name)"

definition bridge_inv :: "tir_bridge \<Rightarrow> string list \<Rightarrow> bool" where
  "bridge_inv tb ids \<longleftrightarrow> (\<forall>d \<in> set ids. id_counter d < tb_task_counter tb) \<and>
     distinct (map fst (tb_tasks tb)) \<and> (\<forall>(core, ts) \<in> set (tb_tasks tb). stream_ok ids core ts) \<and>
     distinct (map task_id (all_tasks (tb_tasks tb))) \<and> set ids = set (map task_id (all_tasks (tb_tasks tb))) \<and>
     names (bm_buffers (tb_memory tb)) (set ids) (tb_memory tb) \<and> buffers_named (bm_buffers (tb_memory tb))"

lemma mset_tasks_append:
  "mset (all_tasks (dict_set core (dict_get tasks core [] @ [t]) tasks)) = add_mset t (mset (all_tasks tasks))"
  by (induction tasks) (auto simp: dict_get_def)

lemma set_dict_set: "set (dict_set k v d) \<subseteq> insert (k, v) (set d)"
  by (induction d) auto

lemma buffers_named_set: "buffers_named buffers \<Longrightarrow> bs_name spec = name \<Longrightarrow> buffers_named (dict_set name spec buffers)"
proof -
  assume b: "buffers_named buffers" and spec: "bs_name spec = name"
  show ?thesis using b spec set_dict_set [of name spec buffers] unfolding buffers_named_def by auto
qed

lemma BufferSpec_name: "BufferSpec name scope_in shape dtype size_bytes address lifetime md = Inr spec \<Longrightarrow> bs_name spec = name"
  by (auto simp: BufferSpec_def Let_def split: if_splits sum.splits option.splits)

lemma bridge_inv_buffers:
  assumes "bridge_inv tb ids" and "buffers_named buffers"
  shows "bridge_inv (tb\<lparr>tb_memory := (tb_memory tb)\<lparr>bm_buffers := buffers\<rparr>\<rparr>) ids"
proof -
  have "history_of (b\<lparr>bm_buffers := buffers\<rparr>) h = history_of b h" for b h by (cases h) (simp_all add: history_of_def)
  then have "filed ((tb_memory tb)\<lparr>bm_buffers := buffers\<rparr>) = filed (tb_memory tb)" by (intro ext) (simp add: filed_def)
  moreover have "names (bm_buffers (tb_memory tb)) (set ids) (tb_memory tb)" using assms(1) unfolding bridge_inv_def by blast
  ultimately have "names buffers (set ids) ((tb_memory tb)\<lparr>bm_buffers := buffers\<rparr>)" unfolding names_def by simp
  then show ?thesis using assms by (simp add: bridge_inv_def)
qed

lemma well_placed_mono: "well_placed ids core t \<Longrightarrow> set ids \<subseteq> set ids' \<Longrightarrow> well_placed ids' core t"
  unfolding well_placed_def by blast

lemma stream_ok_append:
  assumes "stream_ok ids core ts" and "well_placed ids core t" and "\<forall>u \<in> set ts. id_counter (task_id u) < id_counter (task_id t)"
    and "set ids \<subseteq> set ids'"
  shows "stream_ok ids' core (ts @ [t])"
  using assms well_placed_mono unfolding stream_ok_def in_order_def by (auto simp: sorted_wrt_append)

lemma bridge_inv_called:
  assumes inv: "bridge_inv tb ids" and call: "emit_call estimator calibration tb op ctx md extra = Inr (t, tb')"
    and "set extra \<subseteq> set ids" and "visitor_metadata md"
  shows "bridge_inv tb' (ids @ [task_id t])"
proof -
  let ?B = "bm_buffers (tb_memory tb)" and ?core = "core_id t" and ?tasks = "tb_tasks tb"
  have old: "\<forall>d \<in> set ids. id_counter d < tb_task_counter tb" "distinct (map fst ?tasks)"
    "\<And>core ts. (core, ts) \<in> set ?tasks \<Longrightarrow> stream_ok ids core ts"
    "distinct (map task_id (all_tasks ?tasks))" "set ids = set (map task_id (all_tasks ?tasks))"
    "names ?B (set ids) (tb_memory tb)" "buffers_named ?B"
    using inv unfolding bridge_inv_def by blast+
  obtain l where t: "task_id t = bridge_task_id ?core l (tb_task_counter tb)" "task_wf t"
    "set (dependencies t) \<union> hardware_known t \<subseteq> set ids" "names ?B (set (ids @ [task_id t])) (tb_memory tb')"
    "tb_tasks tb' = dict_set ?core (dict_get ?tasks ?core [] @ [t]) ?tasks" "tb_task_counter tb' = Suc (tb_task_counter tb)"
    using emit_call_emits [OF call assms(4) old(6) assms(3)] by metis
  have counter: "id_counter (task_id t) = tb_task_counter tb" using t(1) by simp
  have "well_placed ids ?core t" using t(2,3) old(1) counter unfolding well_placed_def by auto
  moreover have "0 \<le> ?core" using t(2) by (simp add: task_wf_def)
  moreover have before: "\<forall>u \<in> set ts. task_id u \<in> set ids" if "(core, ts) \<in> set ?tasks" for core ts
    using that old(5) by force
  moreover have "dict_get ?tasks ?core [] = [] \<or> (?core, dict_get ?tasks ?core []) \<in> set ?tasks"
    by (auto simp: dict_get_def split: option.splits dest: map_of_SomeD)
  ultimately have new: "stream_ok (ids @ [task_id t]) ?core (dict_get ?tasks ?core [] @ [t])"
    using old(1,3) counter
    by (intro stream_ok_append) (auto simp: stream_ok_def in_order_def)
  have streams: "stream_ok (ids @ [task_id t]) core ts" if member: "(core, ts) \<in> set (tb_tasks tb')" for core ts
  proof -
    consider "(core, ts) = (?core, dict_get ?tasks ?core [] @ [t])" | "(core, ts) \<in> set ?tasks"
      using member t(5) set_dict_set [of ?core "dict_get ?tasks ?core [] @ [t]" ?tasks] by auto
    then show ?thesis
    proof cases
      case 2
      then have "stream_ok ids core ts" by (rule old(3))
      then show ?thesis unfolding stream_ok_def using well_placed_mono [of ids core _ "ids @ [task_id t]"] by auto
    qed (use new in simp)
  qed
  have ids: "mset (map task_id (all_tasks (tb_tasks tb'))) = add_mset (task_id t) (mset (map task_id (all_tasks ?tasks)))"
    unfolding t(5) mset_map mset_tasks_append by simp
  have "task_id t \<notin> set ids" using old(1) counter by fastforce
  then have "distinct (map task_id (all_tasks (tb_tasks tb')))"
    using old(4,5) by (metis ids mset_eq_imp_distinct_iff distinct.simps(2) mset.simps(2))
  moreover have "set (map task_id (all_tasks (tb_tasks tb'))) = insert (task_id t) (set ids)"
    using arg_cong [OF ids, of set_mset] old(5) by (simp only: set_mset_mset set_mset_add_mset_insert)
  moreover have "bm_buffers (tb_memory tb') = ?B" using t(4) by (simp add: names_def)
  moreover have "\<forall>d \<in> set (ids @ [task_id t]). id_counter d < tb_task_counter tb'"
    using old(1) counter t(6) by auto
  moreover have "distinct (map fst (tb_tasks tb'))" using old(2) t(5) by simp
  ultimately show ?thesis
    unfolding bridge_inv_def using streams t(4) old(7) by auto
qed

lemma reachable_inv: "bridge_reachable estimator calibration plan tb ids \<Longrightarrow> bridge_inv tb ids"
proof (induction rule: bridge_reachable.induct)
  case start
  then show ?case by (simp add: bridge_inv_def empty_bridge_def names_def filed_def history_of_def buffers_named_def split: history_name.splits)
next
  case (declared tb ids name scope shape dtype b)
  obtain spec where spec: "planned_spec plan name scope shape dtype = Inr spec"
    and b: "b = (tb_memory tb)\<lparr>bm_buffers := dict_setdefault name spec (bm_buffers (tb_memory tb))\<rparr>"
    using declared.hyps(2) by (auto simp: declare_buffer_def)
  have "buffers_named (dict_setdefault name spec (bm_buffers (tb_memory tb)))"
    using declared.IH buffers_named_set BufferSpec_name spec
    by (auto simp: bridge_inv_def dict_setdefault_def planned_spec_def Let_def split: option.splits)
  then show ?case unfolding b by (rule bridge_inv_buffers [OF declared.IH])
next
  case (assigned tb ids name scope_in shape dtype size_bytes address lifetime md spec b)
  have "buffers_named (dict_set name spec (bm_buffers (tb_memory tb)))"
    using assigned.IH assigned.hyps(2) by (auto simp: bridge_inv_def intro: buffers_named_set BufferSpec_name)
  then show ?case unfolding assigned.hyps(3) by (rule bridge_inv_buffers [OF assigned.IH])
next
  case (reserved tb ids name required_bytes layout b)
  have named: "buffers_named (bm_buffers (tb_memory tb))" using reserved.IH by (simp add: bridge_inv_def)
  from reserved.hyps(2) consider "b = tb_memory tb"
    | spec spec' md where "map_of (bm_buffers (tb_memory tb)) name = Some spec" "replace_spec spec required_bytes md = Inr spec'"
      "b = (tb_memory tb)\<lparr>bm_buffers := dict_set name spec' (bm_buffers (tb_memory tb))\<rparr>"
    by (auto simp: reserve_layout_capacity_def bridge_buffer_def split: option.splits if_splits)
  then show ?case
  proof cases
    case 1
    then show ?thesis using reserved.IH by simp
  next
    case 2
    have "bs_name spec = name" using named map_of_SomeD [OF 2(1)] by (auto simp: buffers_named_def)
    then have "bs_name spec' = name" using 2(2) BufferSpec_name by (simp add: replace_spec_def)
    then show ?thesis unfolding 2(3) by (intro bridge_inv_buffers [OF reserved.IH] buffers_named_set named)
  qed
next
  case (called tb ids op ctx md extra t tb')
  then show ?case using bridge_inv_called by blast
qed

section \<open>From the streams to the program\<close>

lemma in_order_cong:
  assumes "length ts' = length ts" and "\<forall>k < length ts. same_place (ts ! k) (ts' ! k)"
  shows "in_order ts' = in_order ts"
  using assms by (auto simp: in_order_def sorted_wrt_iff_nth_less same_place_def)

lemma validated_stream:
  assumes "stream_ok ids core ts" and "\<forall>t \<in> set ts. task_id t \<in> set ids" and "validate_core_unit_flags b core ts = Inr ts'"
  shows "stream_ok ids core ts' \<and> map task_id ts' = map task_id ts"
proof -
  define bound where "bound k = {d \<in> set ids. id_counter d < id_counter (task_id (ts ! k))}" for k
  have ts: "0 \<le> core" "\<And>t. t \<in> set ts \<Longrightarrow> well_placed ids core t" "in_order ts" using assms(1) by (simp_all add: stream_ok_def)
  have "\<forall>k < length ts. set (dependencies (ts ! k)) \<union> hardware_known (ts ! k) \<subseteq> bound k"
    using ts(2) [OF nth_mem] unfolding well_placed_def bound_def by blast
  moreover have "\<forall>k < length ts. \<forall>i < k. task_id (ts ! i) \<in> bound k"
  proof (intro allI impI)
    fix k i assume k: "k < length ts" and i: "i < k"
    have "core_id (ts ! i) = core_id (ts ! k)" using ts(2) [OF nth_mem] i k by (simp add: well_placed_def)
    then show "task_id (ts ! i) \<in> bound k"
      using ts(3) i k assms(2) by (auto simp: in_order_def sorted_wrt_iff_nth_less bound_def)
  qed
  ultimately have new: "length ts' = length ts" "\<And>k. k < length ts \<Longrightarrow> same_place (ts ! k) (ts' ! k)"
      "\<And>k. k < length ts \<Longrightarrow> task_wf (ts' ! k) \<and> set (dependencies (ts' ! k)) \<union> hardware_known (ts' ! k) \<subseteq> bound k"
    using validate_core_back [OF assms(3)] ts(2) by (auto simp: well_placed_def)
  have place: "core_id (ts' ! k) = core_id (ts ! k)" "task_id (ts' ! k) = task_id (ts ! k)" if "k < length ts" for k
    using new(2) [OF that] by (simp_all add: same_place_def)
  have "well_placed ids core (ts' ! k)" if "k < length ts" for k
    using new(3) [OF that] ts(2) [OF nth_mem [OF that]] place [OF that] unfolding well_placed_def bound_def by auto
  then have "\<forall>t \<in> set ts'. well_placed ids core t" using new(1) by (auto simp: in_set_conv_nth)
  moreover have "in_order ts'" using ts(3) in_order_cong [OF new(1)] new(2) by blast
  moreover have "map task_id ts' = map task_id ts" using new(1) place(2) by (auto simp: list_eq_iff_nth_eq)
  ultimately show ?thesis using ts(1) by (simp add: stream_ok_def)
qed

lemma validated_streams:
  assumes "map_res (\<lambda>(core, ts). and_then (validate_core_unit_flags b core ts) (\<lambda>ts'. Inr (core, ts'))) tasks = Inr tasks'"
    and "\<forall>(core, ts) \<in> set tasks. stream_ok ids core ts \<and> (\<forall>t \<in> set ts. task_id t \<in> set ids)"
  shows "map fst tasks' = map fst tasks \<and> map task_id (all_tasks tasks') = map task_id (all_tasks tasks) \<and>
    (\<forall>(core, ts) \<in> set tasks'. stream_ok ids core ts)"
  using assms
proof (induction tasks arbitrary: tasks')
  case Nil
  then show ?case by simp
next
  case (Cons x xs)
  obtain core ts where x: "x = (core, ts)" by (cases x)
  from Cons.prems(1) obtain ts' ys where ts': "validate_core_unit_flags b core ts = Inr ts'"
    and ys: "map_res (\<lambda>(core, ts). and_then (validate_core_unit_flags b core ts) (\<lambda>ts'. Inr (core, ts'))) xs = Inr ys"
    and tasks': "tasks' = (core, ts') # ys"
    by (auto simp: x split: sum.splits)
  have "stream_ok ids core ts' \<and> map task_id ts' = map task_id ts"
    using Cons.prems(2) x by (intro validated_stream [OF _ _ ts']) auto
  then show ?case using Cons.IH [OF ys] Cons.prems(2) x tasks' by simp
qed

text \<open>The streams in the order of the cores.\<close>

lemma in_order_concat:
  assumes "distinct cores" and "\<forall>core \<in> set cores. in_order (f core) \<and> (\<forall>t \<in> set (f core). core_id t = core)"
  shows "in_order (concat (map f cores))"
  using assms
proof (induction cores)
  case Nil
  then show ?case by (simp add: in_order_def)
next
  case (Cons core cores)
  have "core_id t \<noteq> core_id u" if "t \<in> set (f core)" "u \<in> set (concat (map f cores))" for t u
    using that Cons.prems by auto
  then show ?case using Cons by (auto simp: in_order_def sorted_wrt_append)
qed

lemma mset_concat_sort: "mset (concat (map f (sort ks))) = mset (concat (map f ks))" for ks :: "int list"
proof -
  have "mset (concat (map f xs)) = \<Sum>\<^sub># (image_mset (\<lambda>k. mset (f k)) (mset xs))" for xs :: "int list"
    by (induction xs) auto
  then show ?thesis by simp
qed

lemma mset_sorted_streams:
  assumes "distinct (map fst tasks)"
  shows "mset (concat (map (\<lambda>core. dict_get tasks core []) (sort (map fst tasks)))) = mset (all_tasks tasks)"
proof -
  have "map (\<lambda>core. dict_get tasks core []) (map fst tasks) = map snd tasks"
    using assms by (auto simp: dict_get_def)
  then show ?thesis unfolding mset_concat_sort by (simp only:)
qed

text \<open>A list of tasks in this order whose dependencies point back has no cycle, with or without the FIFO order.\<close>

lemma ranked_acyclic:
  assumes "distinct (map task_id ts)" and "in_order ts"
    and earlier: "\<forall>t \<in> set ts. \<forall>d \<in> set (dependencies t). id_counter d < id_counter (task_id t)"
  shows "acyclic (dep_rel (task_deps ts))" and "acyclic (order_rel ts)"
proof -
  show "acyclic (dep_rel (task_deps ts))"
  proof (rule acyclicI_order [where f = id_counter])
    fix x d assume "(x, d) \<in> dep_rel (task_deps ts)"
    then obtain ds where "map_of (task_deps ts) x = Some ds" "d \<in> set ds" by (auto simp: dep_rel_def)
    then obtain t where "t \<in> set ts" "x = task_id t" "d \<in> set (dependencies t)"
      using map_of_SomeD by (fastforce simp: task_deps_def)
    then show "id_counter d < id_counter x" using earlier by blast
  qed
  show "acyclic (order_rel ts)"
  proof (rule acyclicI_order [where f = id_counter])
    fix x d assume "(x, d) \<in> order_rel ts"
    then obtain j where j: "j < length ts" "x = task_id (ts ! j)" and d: "requires (fifo_predecessors ts) (ts ! j) d"
      by (auto simp: order_rel_def in_set_conv_nth)
    show "id_counter d < id_counter x"
    proof (cases "d \<in> set (execution_dependencies (ts ! j))")
      case True
      then have "d \<in> set (dependencies (ts ! j))" by (auto simp: execution_dependencies_def Let_def)
      then show ?thesis using earlier j nth_mem by blast
    next
      case False
      let ?earlier = "on_resource (task_resource (ts ! j)) (take j ts)"
      have "latest ?earlier = Some d"
        using False d map_of_fifo_predecessors [OF assms(1) j(1)] by (simp add: requires_def)
      then have last: "?earlier \<noteq> []" "d = task_id (last ?earlier)" by (auto simp: latest_def split: if_splits)
      then have "last ?earlier \<in> set ?earlier" by (intro last_in_set)
      then obtain i where i: "i < j" "last ?earlier = ts ! i" "task_resource (ts ! i) = task_resource (ts ! j)"
        using j(1) by (auto simp: in_set_conv_nth [of _ "take j ts"])
      then have "core_id (ts ! i) = core_id (ts ! j)" by (simp add: task_resource_def)
      then show ?thesis using assms(2) i j last(2) by (simp add: in_order_def sorted_wrt_iff_nth_less)
    qed
  qed
qed

lemma core_programs_Inr:
  assumes "distinct (map fst tasks)" and "\<forall>(core, ts) \<in> set tasks. stream_ok ids core ts"
  shows "core_programs tasks = Inr (map (\<lambda>core. \<lparr>cp_core_id = core, cp_tasks = dict_get tasks core []\<rparr>) (sort (map fst tasks)))"
  unfolding core_programs_def
proof (rule map_res_all_Inr)
  fix core assume "core \<in> set (sort (map fst tasks))"
  then obtain ts where "map_of tasks core = Some ts" "(core, ts) \<in> set tasks"
    using assms(1) by (auto simp: map_of_eq_Some_iff)
  moreover from this have "stream_ok ids core ts" using assms(2) by blast
  ultimately show "CoreProgram core (dict_get tasks core []) = Inr \<lparr>cp_core_id = core, cp_tasks = dict_get tasks core []\<rparr>"
    by (auto simp: CoreProgram_def dict_get_def stream_ok_def well_placed_def)
qed

section \<open>Properties\<close>

lemma built_program:
  assumes reach: "bridge_reachable estimator calibration plan tb ids"
    and pass: "validate_unit_flag_pairs (tb_memory tb) (tb_tasks tb) = Inr tasks"
    and name: "kernel_name \<noteq> []" and platform: "normalize_platform platform = Inr q"
  obtains p where "bridge_build calibration breaks tb kernel_name platform = Inr p" and "program_wf p"
    and "set (map task_id (program_tasks p)) = set ids" and "\<forall>t \<in> set (program_tasks p). task_wf t"
    and "acyclic (order_rel (program_tasks p))"
proof -
  let ?B = "bm_buffers (tb_memory tb)" and ?md = "program_metadata calibration breaks"
  let ?cores = "map (\<lambda>core. \<lparr>cp_core_id = core, cp_tasks = dict_get tasks core []\<rparr>) (sort (map fst tasks))"
  let ?ts = "concat (map (\<lambda>core. dict_get tasks core []) (sort (map fst tasks)))"
  have inv: "bridge_inv tb ids" using reach by (rule reachable_inv)
  then have old: "distinct (map fst (tb_tasks tb))" "distinct (map task_id (all_tasks (tb_tasks tb)))"
    "set ids = set (map task_id (all_tasks (tb_tasks tb)))" "buffers_named ?B"
    unfolding bridge_inv_def by blast+
  have "\<forall>(core, ts) \<in> set (tb_tasks tb). stream_ok ids core ts \<and> (\<forall>t \<in> set ts. task_id t \<in> set ids)"
    using inv unfolding bridge_inv_def by fastforce
  from validated_streams [OF pass [unfolded validate_unit_flag_pairs_def] this]
  have new: "distinct (map fst tasks)" "map task_id (all_tasks tasks) = map task_id (all_tasks (tb_tasks tb))"
    "\<forall>(core, ts) \<in> set tasks. stream_ok ids core ts" using old(1) by simp_all
  have mset: "mset ?ts = mset (all_tasks tasks)" using new(1) by (rule mset_sorted_streams)
  have "mset (map task_id ?ts) = mset (map task_id (all_tasks tasks))" unfolding mset_map mset by (rule refl)
  from mset_eq_imp_distinct_iff [OF this] have distinct: "distinct (map task_id ?ts)" unfolding new(2) using old(2) by (rule iffD2)
  have same: "set ?ts = set (all_tasks tasks)" using mset by (rule mset_eq_setD)
  have ids: "set (map task_id ?ts) = set ids" unfolding set_map same old(3) new(2) [symmetric] by simp
  have placed: "\<exists>core. well_placed ids core t" if "t \<in> set ?ts" for t
    using that new(3) unfolding same by (fastforce simp: stream_ok_def)
  have stream: "in_order (dict_get tasks core []) \<and> (\<forall>t \<in> set (dict_get tasks core []). core_id t = core)" for core
    using new(3) map_of_SomeD [of tasks core]
    by (fastforce simp: dict_get_def stream_ok_def well_placed_def in_order_def split: option.splits)
  have order: "in_order ?ts" using new(1) stream by (intro in_order_concat) simp_all
  have acyclic: "acyclic (dep_rel (task_deps ?ts))" "acyclic (order_rel ?ts)"
    using placed by (intro ranked_acyclic [OF distinct order] ballI; fastforce simp: well_placed_def)+
  define cores where "cores = (if ?cores = [] then [\<lparr>cp_core_id = 0, cp_tasks = []\<rparr>] else ?cores)"
  define p where "p = \<lparr>kp_name = kernel_name, kp_platform = q, kp_cores = cores, kp_buffers = map snd ?B, kp_metadata = ?md\<rparr>"
  have ts: "program_tasks p = ?ts" by (simp add: p_def cores_def program_tasks_def comp_def)
  have "map bs_name (map snd ?B) = map fst ?B" using old(4) by (auto simp: buffers_named_def)
  then have names: "distinct (map bs_name (map snd ?B))" using old(4) unfolding buffers_named_def by (simp only:)
  have "map cp_core_id ?cores = sort (map fst tasks)" by (simp add: comp_def)
  then have "distinct (map cp_core_id cores)" using new(1) by (simp add: cores_def)
  moreover have "\<forall>t \<in> set ?ts. set (dependencies t) \<subseteq> set (map task_id ?ts)"
    unfolding ids using placed by (fastforce simp: well_placed_def)
  ultimately have wf: "program_wf p"
    unfolding program_wf_def ts using distinct acyclic(1) names normalize_platform_Inr [OF platform] by (simp add: p_def)
  have "core_programs tasks = Inr ?cores" using new(1,3) by (rule core_programs_Inr)
  moreover have "(if ?cores = [] then map_sum id (\<lambda>core. [core]) (CoreProgram 0 []) else Inr ?cores) = (Inr cores :: core_program list res)"
    by (simp add: cores_def CoreProgram_def)
  moreover have "KernelProgram kernel_name platform cores (map snd ?B) ?md = Inr p"
    unfolding KernelProgram_Inr using name platform wf p_def by blast
  ultimately have "bridge_build calibration breaks tb kernel_name platform = Inr p"
    unfolding bridge_build_def pass and_then_simps by (simp only: and_then_simps)
  moreover have "\<forall>t \<in> set ?ts. task_wf t" using placed unfolding well_placed_def by blast
  ultimately show thesis using that wf ids acyclic(2) unfolding ts [symmetric] by blast
qed

text \<open>
  C8: Whatever sequence of declarations, reservations, aliases and tasks a traversal goes through, when
  the unit-flag pass accepts the tasks the bridge builds a program: identifiers are unique,
  dependencies are known and acyclic, it holds exactly the emitted tasks, and without further
  synchronization the scheduler runs it to completion, so inferred dependencies and instruction order
  never deadlock each other.
\<close>

theorem built_programs_run_to_completion:
  assumes "bridge_reachable estimator calibration plan tb ids"
    and "validate_unit_flag_pairs (tb_memory tb) (tb_tasks tb) = Inr tasks"
    and "kernel_name \<noteq> []" and "normalize_platform platform = Inr q" and "sc_max_cycles config = None"
  shows "\<exists>p s. bridge_build calibration breaks tb kernel_name platform = Inr p \<and> program_wf p \<and>
    set (map task_id (program_tasks p)) = set ids \<and>
    run_loop noop_model config (\<lambda>_. False) (fifo_predecessors (program_tasks p)) (program_tasks p) 0
      (initial_state () (program_tasks p)) = Some (Inr s)"
proof -
  obtain p where p: "bridge_build calibration breaks tb kernel_name platform = Inr p" "program_wf p"
    "set (map task_id (program_tasks p)) = set ids" "\<forall>t \<in> set (program_tasks p). task_wf t"
    "acyclic (order_rel (program_tasks p))"
    using built_program [OF assms(1-4)] by blast
  have "distinct (map task_id (program_tasks p))"
    "\<forall>t \<in> set (program_tasks p). set (dependencies t) \<subseteq> set (map task_id (program_tasks p))"
    using p(2) unfolding program_wf_def by blast+
  from noop_loop_finishes [OF initial_inv this(1) p(4) this(2) p(5) assms(5)] p(1-3) show ?thesis by blast
qed

definition emit_plain :: "task_estimator \<Rightarrow> string \<Rightarrow> tir_bridge \<Rightarrow> bridge_call \<Rightarrow> tir_bridge res" where
  "emit_plain estimator calibration tb = (\<lambda>(op, ctx, md, extra).
     map_sum id snd (emit_call estimator calibration tb op ctx md extra))"

lemma reachable_calls:
  assumes "for_each (emit_plain estimator calibration) tb calls = Inr tb'" and "bridge_reachable estimator calibration plan tb ids"
    and "\<forall>(op, ctx, md, extra) \<in> set calls. visitor_metadata md \<and> extra = []"
  shows "\<exists>ids'. bridge_reachable estimator calibration plan tb' ids'"
proof (rule for_each_invariant [OF assms(1), where P = "\<lambda>tb. \<exists>ids. bridge_reachable estimator calibration plan tb ids"])
  show "\<exists>ids. bridge_reachable estimator calibration plan tb ids" using assms(2) by blast
next
  fix u c v
  assume c: "c \<in> set calls" and u: "\<exists>ids. bridge_reachable estimator calibration plan u ids" "emit_plain estimator calibration u c = Inr v"
  obtain op ctx md extra where op: "c = (op, ctx, md, extra)" by (cases c)
  then have md: "visitor_metadata md" "extra = []" using assms(3) c by auto
  then obtain us t where "bridge_reachable estimator calibration plan u us"
    "emit_call estimator calibration u op ctx md [] = Inr (t, v)" "visitor_metadata md"
    using u op by (cases "emit_call estimator calibration u op ctx md []") (auto simp: emit_plain_def)
  from called [OF this(1,2) _ this(3)] show "\<exists>ids. bridge_reachable estimator calibration plan v ids" by auto
qed

definition demo_plan :: memory_plan where
  "demo_plan = \<lparr>mp_address_by_var = [(''u'', 0)], mp_size_by_var = [(''u'', 128)], mp_initial_shape_by_var = []\<rparr>"

definition build_calls :: "bridge_call list" where
  "build_calls =
     [demo_call ''fill'' [(''dst'', PRegion (demo_region 0 16))],
      demo_call ''exp'' [(''src'', PRegion (demo_region 0 16))]]"

definition build_demo :: "tir_bridge res" where
  "build_demo =
     and_then (declare_buffer demo_plan (tb_memory empty_bridge) ''u'' UB [RInt 64] ''float16'') (\<lambda>b.
       for_each (emit_plain unit_estimator ''uncalibrated'') (empty_bridge\<lparr>tb_memory := b\<rparr>) build_calls)"

lemma build_demo_passes:
  "is_result (and_then build_demo (\<lambda>tb. validate_unit_flag_pairs (tb_memory tb) (tb_tasks tb)))"
  by code_simp

theorem built_programs_run_to_completion_witness:
  "\<exists>tb p s. build_demo = Inr tb \<and> bridge_build ''uncalibrated'' 0 tb ''k'' ''A2'' = Inr p \<and> program_wf p \<and>
    run_loop noop_model (sample_config\<lparr>sc_max_cycles := None\<rparr>) (\<lambda>_. False) (fifo_predecessors (program_tasks p)) (program_tasks p) 0
      (initial_state () (program_tasks p)) = Some (Inr s)"
proof -
  obtain b tb tasks where b: "declare_buffer demo_plan (tb_memory empty_bridge) ''u'' UB [RInt 64] ''float16'' = Inr b"
    and tb: "for_each (emit_plain unit_estimator ''uncalibrated'') (empty_bridge\<lparr>tb_memory := b\<rparr>) build_calls = Inr tb"
    and tasks: "validate_unit_flag_pairs (tb_memory tb) (tb_tasks tb) = Inr tasks"
    using build_demo_passes unfolding is_result_def build_demo_def by (auto split: sum.splits)
  have "\<forall>(op, ctx, md, extra) \<in> set build_calls. visitor_metadata md \<and> extra = []" by code_simp
  from reachable_calls [OF tb declared [OF start b] this] obtain ids where
    reach: "bridge_reachable unit_estimator ''uncalibrated'' demo_plan tb ids" by blast
  have "normalize_platform ''A2'' = Inr ''A2''" by code_simp
  from built_programs_run_to_completion [OF reach tasks _ this, of "''k''" "sample_config\<lparr>sc_max_cycles := None\<rparr>" 0] b tb
  show ?thesis by (auto simp: build_demo_def)
qed

section \<open>Reserving capacity with a filled cache\<close>

text \<open>
  Reserving capacity moves the end of an allocation but keeps the candidate buckets cached for it.
  Here \<open>a\<close> and \<open>c\<close> are planned next to each other; \<open>a\<close>, \<open>c\<close> and again \<open>a\<close> are written, which caches the
  buckets of \<open>a\<close>; then its capacity grows over \<open>c\<close>.
\<close>

definition l1_tile :: "string \<Rightarrow> int \<Rightarrow> metadata" where
  "l1_tile name n = [(''dst'', PRegion \<lparr>br_buffer = name, br_scope = L1, br_shape = [RInt n], br_dtype = ''float16'',
     br_byte_offset = RInt 0, br_strides_bytes = None, br_core_id = Some 0\<rparr>)]"

definition l1_spec :: "string \<Rightarrow> int \<Rightarrow> buffer_spec" where
  "l1_spec name address = \<lparr>bs_name = name, bs_scope = L1, bs_shape = [RInt 16], bs_dtype = ''float16'',
     bs_size_bytes = None, bs_address = Some address, bs_lifetime = None, bs_metadata = [(''planned_address'', PBool True)]\<rparr>"

definition l1_write :: "bridge_memory \<Rightarrow> string \<Rightarrow> metadata \<Rightarrow> bridge_memory res" where
  "l1_write b tid md =
     and_then (memory_dependencies b md 0 CUBE ''copy_gm_to_l1'') (\<lambda>(_, b'). record_memory_accesses b' tid md 0 CUBE)"

definition l1_memory :: "bridge_memory res" where
  "l1_memory =
     and_then (l1_write ((tb_memory empty_bridge)\<lparr>bm_buffers := [(''a'', l1_spec ''a'' 0), (''c'', l1_spec ''c'' 32)]\<rparr>)
       ''t0'' (l1_tile ''a'' 16)) (\<lambda>b0.
     and_then (l1_write b0 ''t1'' (l1_tile ''c'' 16)) (\<lambda>b1.
     and_then (l1_write b1 ''t2'' (l1_tile ''a'' 16)) (\<lambda>b2. reserve_layout_capacity b2 ''a'' 64 ''zN'')))"

definition found_ids :: "(string list \<times> bridge_memory) res \<Rightarrow> string list" where
  "found_ids r = (case r of Inl e \<Rightarrow> [] | Inr (ids, b) \<Rightarrow> ids)"

text \<open>A write of the whole of \<open>a\<close> misses the write of \<open>c\<close>, which the same query finds without the cache.\<close>

lemma reserve_keeps_stale_candidates:
  "found_ids (and_then l1_memory (\<lambda>b. memory_dependencies b (l1_tile ''a'' 32) 0 CUBE ''copy_gm_to_l1'')) = [''t2'']"
  by code_simp

lemma reserve_needs_fresh_candidates:
  "found_ids (and_then l1_memory (\<lambda>b. memory_dependencies (b\<lparr>bm_candidate_cache := []\<rparr>) (l1_tile ''a'' 32) 0 CUBE ''copy_gm_to_l1'')) =
     [''t1'', ''t2'']"
  by code_simp

end
