(* ===== verification/Spec2Isabelle.thy ===== *)
theory Spec2Isabelle
  imports Sim_Program_Props Sim_Layout Sim_Config Sim_Memory_Props Sim_Stats Sim_Flag_Protocol
    Sim_Run_Report Sim_Measured_A2 Sim_Bridge_Build_Props
begin

text \<open>
  A verification library for the A2/A3 functional simulator of tilelang-ascend
  (\<^verbatim>\<open>src/tilelang/simulator\<close>) and for the layout maps of its compiler.

  \<^bold>\<open>The program.\<close>  The simulator executes an Ascend kernel without the hardware.  A bridge lowers
  the kernel's TIR to a \<open>KernelProgram\<close>: per core, a list of tasks with explicit dependencies, each
  bound to a lane and a pipe, over declared buffers.  The scheduler repeatedly passes over the
  pending tasks and commits those whose dependencies, FIFO predecessor and synchronization allow it;
  a synchronization model decides about flags, barriers and \<open>sync_all\<close>; a timing profile gives the
  durations; the memory runtime holds the bytes of every scope.  The records of the schedule feed
  the statistics, the Chrome trace and the performance report.

  \<^bold>\<open>Theories and sources.\<close>
  \<^item> \<^verbatim>\<open>Sim_Prelude\<close>: what Python provides and the sources use (result sums with
    \<open>and_then\<close>, loops that stop at the first error, ordered dictionaries as association lists,
    string functions, \<open>bisect_left\<close>, decimal text); \<^verbatim>\<open>Sim_Errors\<close>: \<^verbatim>\<open>errors.py\<close>.
  \<^item> \<^verbatim>\<open>Sim_Device\<close>, \<^verbatim>\<open>Sim_Timing\<close>: \<^verbatim>\<open>profile.py\<close>; \<^verbatim>\<open>Sim_Config\<close>: \<^verbatim>\<open>config.py\<close>;
    \<^verbatim>\<open>Sim_Hazard\<close>: \<^verbatim>\<open>hazard.py\<close>; \<^verbatim>\<open>Sim_Linear_Timing\<close>: \<^verbatim>\<open>linear_timing.py\<close>; \<^verbatim>\<open>Sim_Pypto\<close>:
    \<^verbatim>\<open>pypto_timing.py\<close>, with the rounding of \<^verbatim>\<open>Sim_Floats\<close>; \<^verbatim>\<open>Sim_Measured_A2\<close>: \<^verbatim>\<open>measured_a2.py\<close>.
  \<^item> \<^verbatim>\<open>Sim_Program\<close>, \<^verbatim>\<open>Sim_Program_Props\<close>: \<^verbatim>\<open>program.py\<close>: affine and symbolic integers, buffers,
    regions, tasks, \<open>KernelProgram\<close> with its depth-first cycle check.
  \<^item> \<^verbatim>\<open>Sim_Layout\<close>: \<^verbatim>\<open>layout.py\<close>, and \<^verbatim>\<open>intrinsics/ascend_layout.py\<close> of the compiler, whose
    index maps it must agree with.
  \<^item> \<^verbatim>\<open>Sim_Intervals\<close>, \<^verbatim>\<open>Sim_Views\<close>, \<^verbatim>\<open>Sim_Memory\<close>, \<^verbatim>\<open>Sim_Memory_Props\<close>: \<^verbatim>\<open>memory.py\<close>: strided
    views, address ranges, byte-addressed spaces with poison tracking, allocation and aliases,
    watermarks.
  \<^item> \<^verbatim>\<open>Sim_Sync\<close>, \<^verbatim>\<open>Sim_Fences\<close>: \<^verbatim>\<open>sync.py\<close>: the state of the flag and barrier model and each of its
    operations, and the static check that cross-pipe dependencies are fenced.
  \<^item> \<^verbatim>\<open>Sim_Scheduler\<close>, \<^verbatim>\<open>Sim_Scheduler_Props\<close>: \<^verbatim>\<open>scheduler.py\<close>; the synchronization model is a
    record of functions, as the code receives it, with the two models of \<^verbatim>\<open>sync.py\<close> as values.
  \<^item> \<^verbatim>\<open>Sim_Protocol\<close>, \<^verbatim>\<open>Sim_Flags\<close>, \<^verbatim>\<open>Sim_Flag_Protocol\<close>: the interface between scheduler and
    synchronization model as the locale \<open>sync_protocol\<close>, interpreted on both models.
  \<^item> \<^verbatim>\<open>Sim_Record\<close>, \<^verbatim>\<open>Sim_Trace\<close>, \<^verbatim>\<open>Sim_Trace_Props\<close>: \<^verbatim>\<open>trace.py\<close>; \<^verbatim>\<open>Sim_Stats\<close>: \<^verbatim>\<open>stats.py\<close>;
    \<^verbatim>\<open>Sim_Report\<close>, \<^verbatim>\<open>Sim_Report_Props\<close>: \<^verbatim>\<open>report.py\<close>; \<^verbatim>\<open>Sim_Run_Report\<close>: from a run to its report.
  \<^item> \<^verbatim>\<open>Sim_Bridge_Regions\<close>, \<^verbatim>\<open>Sim_Bridge_Ops\<close>, \<^verbatim>\<open>Sim_Bridge_History\<close>, \<^verbatim>\<open>Sim_Bridge_Emit\<close>,
    \<^verbatim>\<open>Sim_Bridge_Unit_Flags\<close>: the parts of \<^verbatim>\<open>bridge.py\<close> behind the TIR visitor: the region overlap
    test, classification and synchronization metadata, the access histories with their two caches,
    \<open>_emit_task\<close>, and the unit-flag pass; \<^verbatim>\<open>Sim_Bridge_Build\<close>: the memory plan, buffer declarations, layout
    capacity and \<open>build\<close>, with every state a traversal can reach as an inductive relation.  \<^verbatim>\<open>Sim_Bridge_Overlap\<close>, \<^verbatim>\<open>Sim_Bridge_Caches\<close>,
    \<^verbatim>\<open>Sim_Bridge_Order\<close>, \<^verbatim>\<open>Sim_Bridge_Unit_Props\<close> and \<^verbatim>\<open>Sim_Bridge_Build_Props\<close> hold their properties.

  \<^bold>\<open>What is shown.\<close>
  \<^item> Scheduling: a returned schedule holds every task once, in dependency and FIFO order, sorted and
    within the cycle limit, under every synchronization model; with deadlock detection the loop
    always returns; without synchronization it completes exactly on acyclic programs; the reported
    wait cycle is real and found whenever there is one.
  \<^item> Synchronization: the schedules of the flag model refine an abstract specification (FIFO token
    channels, collective flags, barriers, \<open>sync_all\<close>); a clean flag audit means every local SET was
    consumed; accepted programs are fenced, and the indexed fence queries equal a plain walk.
  \<^item> Programs: the cycle check decides acyclicity, the constructor accepts exactly the well-formed
    programs, affine and symbolic arithmetic computes what it names.
  \<^item> Lowering: the overlap test never misses a shared byte and is exact on views with dense rows; the
    caches never change an answer; conflicting tasks of a lane are ordered by dependencies when
    regions follow a tiling (a partial overwrite can lose the order, which is shown too); the
    unit-flag pass accepts exactly the cores whose L0C blocks each keep the protocol, and makes
    every hand-over a dependency; every program the bridge builds is well-formed and can be
    scheduled to completion.
  \<^item> Memory: views stay in their allocation, reads return what was written, writes touch nothing
    else, uninitialised reads raise exactly when they must, allocations keep the invariant and
    implicit ones are disjoint.
  \<^item> Timing: every estimate is positive; a fitted cost is the least-squares line of its
    observations and predicts a positive time on its domain; a measured estimate of the default A2
    profile comes from the exact family of the task, inside the measured range.
  \<^item> Layouts: packing and unpacking are inverse, indices are in range and distinct, and the
    simulator agrees with the compiler except for 64-bit elements.
  \<^item> Reporting: busy cycles, completion and counts, trace counters, inactive intervals and overlap
    equal their set-theoretic definitions on the records; the critical chain is a chain of the
    schedule; comparison is antisymmetric; every run can be reported.

  \<^bold>\<open>Loops and bounds.\<close>  No fuel is used.  The scheduling loop is a \<open>partial_function (option)\<close> in
  which a run that never returns is \<open>None\<close> (possible only when deadlock detection is off and no
  timeout strikes); the depth-first searches, the wait-cycle search, the critical chain and
  \<open>bisect_left\<close> terminate by explicit measures; everything else is structural.

  \<^bold>\<open>Conventions.\<close>  An exception is a value of \<open>sim_error\<close> in the left summand; its text keeps the
  fixed words of the message, except where the text is itself modelled (deadlock diagnostics).
  Integers are unbounded, as in Python; bytes are \<open>8 word\<close>.  Floats are the exact rationals they
  approximate, except in \<^verbatim>\<open>Sim_Pypto\<close>, where every operation is rounded to single or double
  precision as the code does.  Dictionaries keep insertion order; the iteration order of a set is that of first
  insertion.  Strings are ASCII, and the \<open>str()\<close> of a structured value is abbreviated to its first
  word, since the code only compares it with identifiers.  The wall clock is a predicate on the
  pass number; the default A2 profile and the PyPTO estimator are arguments of the profile functions
  that call them, and models of both are given.

  \<^bold>\<open>Not modelled.\<close>  The visitor of \<^verbatim>\<open>bridge.py\<close> and its operand decoding inspect TIR objects of TVM;
  the model starts from the declarations, operations, contexts and metadata they hand over.  \<^verbatim>\<open>executor.py\<close> computes with NumPy and
  PyTorch arrays, \<^verbatim>\<open>adapter.py\<close> drives the JIT; \<open>write\<close> and \<open>write_json\<close> only serialise documents to files.  The language front end, the
  code generator, autotuner and kernel cache build on TVM and on external compilers.
\<close>

section \<open>From a program to its report\<close>

text \<open>
  C38: Whatever the synchronization model, a run that returns for a program with tasks can be
  reported: the report has a document, its critical chain ends at the makespan and lies within it,
  and the cycles of the chain's operations add up to at most its span.
\<close>

theorem every_run_can_be_reported:
  assumes "run m default_a2 given timed_out p bindings = Some (Inr (res, warning))"
    and "distinct (map task_id (program_tasks p))" and "program_tasks p \<noteq> []"
  shows "\<exists>summary doc. report_to_dict (from_schedule res config path) = Inr doc \<and>
    rd_critical_path doc = ScheduleDerived summary \<and>
    cs_end_cycle (last (cc_steps summary)) = st_makespan_cycles (sr_stats res) \<and>
    cc_operation_cycles summary \<le> cc_span_cycles summary \<and>
    cc_span_cycles summary \<le> st_makespan_cycles (sr_stats res)"
proof -
  obtain completed waits limit where wf: "\<forall>r \<in> set (sr_records res). record_wf r"
    and stats: "from_records (sr_records res) bindings [] [] = Inr (sr_stats res)"
    using assms(1,2) by (rule run_final)
  obtain summary chain where chain: "critical_chain (sr_records res) = ScheduleDerived summary"
    "cc_steps summary = chain_steps chain" "chain \<noteq> []" "fst ` set chain \<subseteq> set (sr_records res)"
    "er_end_cycle (fst (last chain)) = Max (er_end_cycle ` operation_values (sr_records res))"
    "cc_span_cycles summary = er_end_cycle (fst (last chain)) - er_start_cycle (fst (hd chain))"
    "cc_operation_cycles summary \<le> cc_span_cycles summary"
    using critical_chain_facts [OF wf run_makespan(1) [OF assms]] by blast
  have "0 \<le> er_start_cycle (fst (hd chain))"
    using chain(3,4) wf by (meson hd_in_set image_subset_iff record_wf_def)
  moreover obtain doc where doc: "report_to_dict (from_schedule res config path) = Inr doc"
    using report_has_document [of "sr_records res" bindings "[]" "[]" "from_schedule res config path"] stats
    by (auto simp: from_schedule_def)
  moreover have "rd_critical_path doc = critical_chain (sr_records res)"
    using doc by (auto simp: report_to_dict_def from_schedule_def Let_def split: sum.splits)
  ultimately show ?thesis
    using chain run_makespan(2) [OF assms] last_chain_step [OF chain(3)] by simp
qed

theorem every_run_can_be_reported_witness:
  "\<exists>res w doc summary. run_sample fenced_program = Some (Inr (res, w)) \<and>
    report_to_dict (from_schedule res sample_config None) = Inr doc \<and>
    rd_critical_path doc = ScheduleDerived summary \<and>
    cs_end_cycle (last (cc_steps summary)) = st_makespan_cycles (sr_stats res)"
proof -
  obtain res w where run: "run_sample fenced_program = Some (Inr (res, w))" using fenced_program_runs by blast
  have tasks: "program_tasks fenced_program = fenced_tasks" by (simp add: fenced_program_def program_tasks_def)
  have "distinct (map task_id (program_tasks fenced_program))" "program_tasks fenced_program \<noteq> []"
    unfolding tasks by code_simp+
  from every_run_can_be_reported [OF run [unfolded run_sample_def] this] run show ?thesis by blast
qed

end
